(* ===== verification/Wallet_Prelude.thy ===== *)
theory Wallet_Prelude
  imports Main "HOL-Library.Word" "HOL-Library.Monad_Syntax" "HOL-Library.Sublist"
begin

text \<open>
  Shared vocabulary of the development: the machine types of the C++ sources, positional
  (little-endian) readings of word lists, the \<^verbatim>\<open>memcpy\<close> of the sources with its bounds made
  explicit, and the list, option and sum lemmas that more than one component uses.

  \<^verbatim>\<open>unsigned char\<close> is \<open>byte\<close>, \<^verbatim>\<open>uint32_t\<close> is \<open>u32\<close> and so on; \<^verbatim>\<open>std::vector<unsigned char>\<close>
  is \<open>bytes\<close>. A C \<^verbatim>\<open>int\<close> whose overflow is undefined behaviour is an \<open>int\<close>.
\<close>

unbundle bit_operations_syntax

type_synonym byte = "8 word"
type_synonym u16 = "16 word"
type_synonym u32 = "32 word"
type_synonym u64 = "64 word"
type_synonym bytes = "byte list"

named_theorems wal_simps \<open>rewrite rules for positional readings of word lists\<close>
named_theorems mem_simps \<open>rewrite rules for memcpy and buffer slices\<close>

section \<open>Positional readings of word lists\<close>

text \<open>
  \<open>wval ws\<close> reads a list of words as a number, least significant word first;
  \<open>wlist k v\<close> writes the \<open>k\<close> low words of \<open>v\<close>.
\<close>

primrec wval :: "'a::len word list \<Rightarrow> nat" where
  "wval [] = 0"
| "wval (w # ws) = unat w + 2 ^ LENGTH('a) * wval ws"

primrec wlist :: "nat \<Rightarrow> nat \<Rightarrow> 'a::len word list" where
  "wlist 0 v = []"
| "wlist (Suc k) v = word_of_nat v # wlist k (v div 2 ^ LENGTH('a))"

lemma unat_lt2p: "unat (w :: 'a::len word) < 2 ^ LENGTH('a)"
  by (rule unsigned_less)

lemma length_wlist [simp]: "length (wlist k v) = k"
  by (induction k arbitrary: v) auto

lemma wval_append: "wval (xs @ ys) = wval xs + 2 ^ (LENGTH('a) * length xs) * wval (ys :: 'a::len word list)"
  by (induction xs) (auto simp: algebra_simps power_add)

lemma wval_lt: "wval (ws :: 'a::len word list) < 2 ^ (LENGTH('a) * length ws)"
proof (induction ws)
  case Nil
  then show ?case by simp
next
  case (Cons w ws)
  let ?B = "2 ^ LENGTH('a) :: nat"
  have u: "unat w < ?B" by (rule unat_lt2p)
  have "unat w + ?B * wval ws < ?B * Suc (wval ws)" using u by simp
  also have "\<dots> \<le> ?B * 2 ^ (LENGTH('a) * length ws)"
    using Cons.IH by (intro mult_le_mono2) simp
  finally show ?case by (simp add: power_add)
qed

lemma wval_wlist: "wval (wlist k v :: 'a::len word list) = v mod 2 ^ (LENGTH('a) * k)"
proof (induction k arbitrary: v)
  case 0
  then show ?case by simp
next
  case (Suc k)
  let ?B = "2 ^ LENGTH('a) :: nat"
  have "v mod (?B * 2 ^ (LENGTH('a) * k)) = ?B * (v div ?B mod 2 ^ (LENGTH('a) * k)) + v mod ?B"
    by (rule mod_mult2_eq)
  then show ?case
    by (simp add: Suc.IH unat_of_nat power_add)
qed

lemma wlist_wval: "wlist (length ws) (wval ws) = (ws :: 'a::len word list)"
proof (induction ws)
  case (Cons w ws)
  let ?B = "2 ^ LENGTH('a) :: nat"
  have "word_of_nat (unat w + ?B * wval ws) = w"
    by (simp add: word_unat_eq_iff unat_of_nat unat_lt2p)
  moreover have "(unat w + ?B * wval ws) div ?B = wval ws"
    by (simp add: unat_lt2p)
  ultimately show ?case by (simp add: Cons.IH)
qed simp

lemma wval_inj: "length xs = length ys \<Longrightarrow> wval xs = wval ys \<Longrightarrow> xs = (ys :: 'a::len word list)"
  by (metis wlist_wval)

lemma wval_replicate_0 [simp]: "wval (replicate n 0) = 0"
  by (induction n) auto

lemma wval_eq_0_iff: "wval (ws :: 'a::len word list) = 0 \<longleftrightarrow> (\<forall>w \<in> set ws. w = 0)"
  by (induction ws) (auto simp: unat_eq_0)

text \<open>Shifts, truncation and single bits of a word, read through \<open>unat\<close>.\<close>

lemma unat_shr: "unat (drop_bit k w) = unat w div 2 ^ k"
  unfolding unat_drop_bit_eq by (simp add: drop_bit_eq_div)

lemma unat_take_bit: "unat (take_bit n w) = unat w mod 2 ^ n"
  unfolding unsigned_take_bit_eq by (simp add: take_bit_eq_mod)

lemma unat_shl: "unat (push_bit n (w :: 'a::len word)) = unat w * 2 ^ n mod 2 ^ LENGTH('a)"
  unfolding unsigned_push_bit_eq by (simp add: push_bit_eq_mult take_bit_eq_mod)

lemma take_bit_self: "unat (w :: 'a::len word) < 2 ^ n \<Longrightarrow> take_bit n w = w"
  by (simp add: word_unat_eq_iff unat_take_bit)

lemma bit_lt: "unat (w :: 'a::len word) < 2 ^ n \<Longrightarrow> bit w i \<Longrightarrow> i < n"
  by (metis take_bit_self bit_take_bit_iff)

lemma bit_top: "unat (w :: 'a::len word) < 2 ^ Suc n \<Longrightarrow> bit w n \<longleftrightarrow> 2 ^ n \<le> unat w"
proof -
  assume "unat w < 2 ^ Suc n"
  then have "unat w div 2 ^ n < 2" by (intro less_mult_imp_div_less) simp
  moreover have "bit w n = odd (unat w div 2 ^ n)"
    unfolding bit_iff_odd [symmetric, of "unat w"]
    by (auto simp: bit_unsigned_iff dest: bit_imp_le_length)
  ultimately show ?thesis using div_greater_zero_iff [of "unat w" "2 ^ n"] by (auto simp: less_2_cases_iff)
qed

lemma bit_wval: "bit (wval (ws :: 'a::len word list)) n \<longleftrightarrow> n div LENGTH('a) < length ws \<and> bit (ws ! (n div LENGTH('a))) (n mod LENGTH('a))"
proof (induction ws arbitrary: n)
  case (Cons w ws)
  have split: "wval (w # ws) = unat w OR push_bit LENGTH('a) (wval ws)"
  proof -
    have "unat w + push_bit LENGTH('a) (wval ws) = unat w OR push_bit LENGTH('a) (wval ws)"
      by (rule disjunctive_add) (auto simp: bit_simps dest: bit_imp_le_length)
    then show ?thesis by (simp add: push_bit_eq_mult mult.commute)
  qed
  show ?case
  proof (cases "n < LENGTH('a)")
    case True
    then show ?thesis unfolding split by (simp add: bit_simps)
  next
    case False
    then have "n div LENGTH('a) = Suc ((n - LENGTH('a)) div LENGTH('a))" "n mod LENGTH('a) = (n - LENGTH('a)) mod LENGTH('a)"
      by (simp_all add: le_div_geq le_mod_geq)
    with False show ?thesis unfolding split by (auto simp: bit_simps Cons.IH dest: bit_imp_le_length)
  qed
qed simp

text \<open>The byte order helpers of \<^verbatim>\<open>crypto/common.h\<close> on a little-endian reading.\<close>

definition WriteLE16 :: "u16 \<Rightarrow> bytes" where
  "WriteLE16 x = wlist 2 (unat x)"

definition WriteLE32 :: "u32 \<Rightarrow> bytes" where
  "WriteLE32 x = wlist 4 (unat x)"

definition WriteLE64 :: "u64 \<Rightarrow> bytes" where
  "WriteLE64 x = wlist 8 (unat x)"

definition ReadLE16 :: "bytes \<Rightarrow> u16" where
  "ReadLE16 p = word_of_nat (wval (take 2 p))"

definition ReadLE32 :: "bytes \<Rightarrow> u32" where
  "ReadLE32 p = word_of_nat (wval (take 4 p))"

definition ReadLE64 :: "bytes \<Rightarrow> u64" where
  "ReadLE64 p = word_of_nat (wval (take 8 p))"

definition WriteBE32 :: "u32 \<Rightarrow> bytes" where
  "WriteBE32 x = rev (wlist 4 (unat x))"

definition WriteBE64 :: "u64 \<Rightarrow> bytes" where
  "WriteBE64 x = rev (wlist 8 (unat x))"

definition ReadBE32 :: "bytes \<Rightarrow> u32" where
  "ReadBE32 p = word_of_nat (wval (rev (take 4 p)))"

definition ReadBE64 :: "bytes \<Rightarrow> u64" where
  "ReadBE64 p = word_of_nat (wval (rev (take 8 p)))"

lemma length_WriteLE [simp]:
  "length (WriteLE16 x) = 2" "length (WriteLE32 y) = 4" "length (WriteLE64 z) = 8"
  by (simp_all add: WriteLE16_def WriteLE32_def WriteLE64_def)

lemma length_WriteBE [simp]: "length (WriteBE32 y) = 4" "length (WriteBE64 z) = 8"
  by (simp_all add: WriteBE32_def WriteBE64_def)

lemma unat_mod_self [simp]: "unat (x :: 'a::len word) mod 2 ^ LENGTH('a) = unat x"
  by (simp add: unat_lt2p)

lemma ReadLE16_WriteLE16 [simp]: "ReadLE16 (WriteLE16 x @ r) = x"
  using unat_mod_self [of x]
  by (simp add: ReadLE16_def WriteLE16_def wval_wlist del: unat_mod_self)

lemma ReadLE32_WriteLE32 [simp]: "ReadLE32 (WriteLE32 x @ r) = x"
  using unat_mod_self [of x]
  by (simp add: ReadLE32_def WriteLE32_def wval_wlist del: unat_mod_self)

lemma ReadLE64_WriteLE64 [simp]: "ReadLE64 (WriteLE64 x @ r) = x"
  using unat_mod_self [of x]
  by (simp add: ReadLE64_def WriteLE64_def wval_wlist del: unat_mod_self)

lemma WriteLE32_ReadLE32: "length p = 4 \<Longrightarrow> WriteLE32 (ReadLE32 p) = p"
  using wval_lt [of p] wlist_wval [of p]
  by (simp add: ReadLE32_def WriteLE32_def unat_of_nat)

lemma ReadLE32_inj: "length p = 4 \<Longrightarrow> length q = 4 \<Longrightarrow> ReadLE32 p = ReadLE32 q \<Longrightarrow> p = q"
  by (metis WriteLE32_ReadLE32)

section \<open>memcpy with its bounds\<close>

text \<open>
  \<^verbatim>\<open>memcpy(dst + doff, src + soff, n)\<close>: \<open>None\<close> when an access leaves one of the two
  objects (undefined behaviour in the source; a negative \<open>n\<close> is a huge \<^verbatim>\<open>size_t\<close>).
\<close>

definition memcpy :: "'a list \<Rightarrow> int \<Rightarrow> 'a list \<Rightarrow> int \<Rightarrow> int \<Rightarrow> 'a list option" where
  "memcpy dst doff src soff n =
     (if 0 \<le> n \<and> 0 \<le> doff \<and> doff + n \<le> int (length dst) \<and> 0 \<le> soff \<and> soff + n \<le> int (length src)
      then Some (take (nat doff) dst @ take (nat n) (drop (nat soff) src) @ drop (nat (doff + n)) dst)
      else None)"

text \<open>The bytes \<open>buf[i..j)\<close>.\<close>

definition buf_slice :: "'a list \<Rightarrow> int \<Rightarrow> int \<Rightarrow> 'a list" where
  "buf_slice buf i j = take (nat (j - i)) (drop (nat i) buf)"

lemma length_memcpy: "memcpy dst doff src soff n = Some r \<Longrightarrow> length r = length dst"
  by (auto simp: memcpy_def split: if_splits)

lemma memcpy_Some [mem_simps]:
  "0 \<le> n \<Longrightarrow> 0 \<le> doff \<Longrightarrow> doff + n \<le> int (length dst) \<Longrightarrow> 0 \<le> soff \<Longrightarrow> soff + n \<le> int (length src) \<Longrightarrow>
   memcpy dst doff src soff n =
     Some (take (nat doff) dst @ take (nat n) (drop (nat soff) src) @ drop (nat (doff + n)) dst)"
  by (simp add: memcpy_def)

lemma length_buf_slice: "0 \<le> i \<Longrightarrow> i \<le> j \<Longrightarrow> j \<le> int (length buf) \<Longrightarrow> length (buf_slice buf i j) = nat (j - i)"
  by (simp add: buf_slice_def)

lemma buf_slice_append:
  "0 \<le> i \<Longrightarrow> i \<le> j \<Longrightarrow> j \<le> k \<Longrightarrow> k \<le> int (length buf) \<Longrightarrow> buf_slice buf i j @ buf_slice buf j k = buf_slice buf i k"
proof -
  assume a: "0 \<le> i" "i \<le> j" "j \<le> k" "k \<le> int (length buf)"
  define p q r where "p = nat i" and "q = nat (j - i)" and "r = nat (k - j)"
  have "nat j = p + q" "nat (k - i) = q + r" using a by (auto simp: p_def q_def r_def)
  then show ?thesis
    unfolding buf_slice_def p_def [symmetric] q_def [symmetric] r_def [symmetric]
    by (simp add: take_add add.commute)
qed

lemma buf_slice_empty [simp]: "buf_slice buf i i = []"
  by (simp add: buf_slice_def)

lemma slice_memcpy_same:
  "memcpy dst doff src soff n = Some r \<Longrightarrow> buf_slice r doff (doff + n) = buf_slice src soff (soff + n)"
  by (auto simp: memcpy_def buf_slice_def split: if_splits)

lemma buf_slice_alt: "0 \<le> i \<Longrightarrow> buf_slice buf i j = drop (nat i) (take (nat j) buf)"
proof -
  assume "0 \<le> i"
  then have "nat j - nat i = nat (j - i)" by linarith
  then show ?thesis by (simp add: buf_slice_def drop_take)
qed

lemma slice_memcpy_before:
  assumes m: "memcpy dst doff src soff n = Some r" and "0 \<le> i" and "j \<le> doff"
  shows "buf_slice r i j = buf_slice dst i j"
proof -
  from m have "r = take (nat doff) dst @ take (nat n) (drop (nat soff) src) @ drop (nat (doff + n)) dst"
    and "nat doff \<le> length dst"
    by (auto simp: memcpy_def split: if_splits)
  with assms(3) have "take (nat j) r = take (nat j) dst" by (simp add: min_def)
  with assms(2) show ?thesis by (simp add: buf_slice_alt)
qed

lemma slice_memcpy_after:
  "memcpy dst doff src soff n = Some r \<Longrightarrow> doff + n \<le> i \<Longrightarrow> buf_slice r i j = buf_slice dst i j"
proof -
  assume m: "memcpy dst doff src soff n = Some r" and i: "doff + n \<le> i"
  from m have b: "0 \<le> n" "0 \<le> doff" "doff + n \<le> int (length dst)" "0 \<le> soff" "soff + n \<le> int (length src)"
    and r: "r = take (nat doff) dst @ take (nat n) (drop (nat soff) src) @ drop (nat (doff + n)) dst"
    by (auto simp: memcpy_def split: if_splits)
  have n1: "nat (doff + n) = nat doff + nat n" using b by (simp add: nat_add_distrib)
  have l: "length (take (nat doff) dst @ take (nat n) (drop (nat soff) src)) = nat doff + nat n"
    using b by (simp add: min_def) linarith
  have "drop (nat i) r = drop (nat i) dst"
  proof -
    have "nat doff + nat n \<le> nat i" using i b n1 by linarith
    then obtain k where k: "nat i = (nat doff + nat n) + k" by (auto simp: le_iff_add)
    show ?thesis unfolding r k append_assoc [symmetric]
      by (subst drop_append) (simp only: l, simp add: n1 add.commute)
  qed
  then show ?thesis by (simp add: buf_slice_def)
qed

section \<open>Options and sums\<close>

lemma bind_Some_iff: "(Option.bind m f = Some y) \<longleftrightarrow> (\<exists>x. m = Some x \<and> f x = Some y)"
  by (cases m) auto

text \<open>Sequencing of code that can fault (\<open>None\<close>) or return early (\<open>Inl\<close>).\<close>

definition ebind :: "('e + 'a) option \<Rightarrow> ('a \<Rightarrow> ('e + 'b) option) \<Rightarrow> ('e + 'b) option" where
  "ebind m f = (case m of None \<Rightarrow> None | Some (Inl e) \<Rightarrow> Some (Inl e) | Some (Inr x) \<Rightarrow> f x)"

lemma ebind_simps [simp]:
  "ebind None f = None" "ebind (Some (Inl e)) f = Some (Inl e)" "ebind (Some (Inr x)) f = f x"
  by (simp_all add: ebind_def)

lemma ebind_assoc: "ebind (ebind m f) g = ebind m (\<lambda>x. ebind (f x) g)"
  by (auto simp: ebind_def split: option.split sum.split)

lemma ebind_eq_Inr: "ebind m f = Some (Inr y) \<longleftrightarrow> (\<exists>x. m = Some (Inr x) \<and> f x = Some (Inr y))"
  by (auto simp: ebind_def split: option.split sum.split)

lemma ebind_neq_None: "ebind m f \<noteq> None \<longleftrightarrow> m \<noteq> None \<and> (\<forall>x. m = Some (Inr x) \<longrightarrow> f x \<noteq> None)"
  by (auto simp: ebind_def split: option.split sum.split)

text \<open>\<open>eok P m\<close>: the computation does not fault, and a value that it returns satisfies \<open>P\<close>.\<close>

definition eok :: "('a \<Rightarrow> bool) \<Rightarrow> ('e + 'a) option \<Rightarrow> bool" where
  "eok P m \<longleftrightarrow> (case m of None \<Rightarrow> False | Some (Inl e) \<Rightarrow> True | Some (Inr x) \<Rightarrow> P x)"

lemma eok_simps [simp]: "\<not> eok P None" "eok P (Some (Inl e))" "eok P (Some (Inr x)) \<longleftrightarrow> P x"
  by (simp_all add: eok_def)

lemma ebind_cases [case_names fault err ret]:
  obtains "m = None" | e where "m = Some (Inl e)" | x where "m = Some (Inr x)"
  by (metis not_None_eq old.sum.exhaust)

lemma eok_ebind: "eok P m \<Longrightarrow> (\<And>x. P x \<Longrightarrow> eok Q (f x)) \<Longrightarrow> eok Q (ebind m f)"
  by (cases m rule: ebind_cases) simp_all

lemma eok_mono: "eok P m \<Longrightarrow> (\<And>x. P x \<Longrightarrow> Q x) \<Longrightarrow> eok Q m"
  by (cases m rule: ebind_cases) simp_all

lemma eok_not_None: "eok P m \<Longrightarrow> m \<noteq> None"
  by (rule notI) simp

lemma eok_Inr: "eok P m \<Longrightarrow> m = Some (Inr x) \<Longrightarrow> P x"
  by simp

end
