(* ===== verification/Loop_Buf.thy ===== *)
theory Loop_Buf
  imports Wallet_Prelude
begin

text \<open>
  \<^verbatim>\<open>CLoopBuf\<close> (\<^verbatim>\<open>libqtutils/loopbuf.cpp\<close>, \<^verbatim>\<open>include/loopbuf.h\<close>): a packet queue in a
  ring of bytes that a producer and a consumer share. A packet is stored as a four byte
  length, the sync word \<open>@@@@\<close> and its data; the positions of head and tail live in the
  header \<open>MemQueueHeader\<close> at the front of the mapped memory.

  The state of the object is the record \<open>CLoopBuf\<close>; each macro and each method of the source
  is one definition over it. A result \<open>None\<close> stands for an access outside the mapped memory
  (or through the null \<open>m_pmap\<close>), so that memory safety is a theorem and not a convention.
  The mappings that the operating system returns are parameters. Sizes and positions are C
  \<^verbatim>\<open>int\<close>s, modelled as \<open>int\<close>: \<open>lb_ok\<close> bounds the buffer by \<open>2 ^ 31\<close>, and for packets below
  \<open>2 ^ 31 - 24\<close> bytes, the range the properties speak about, no sum of the source overflows.
\<close>

section \<open>State\<close>

record MemQueueHeader =
  nHeadPos :: int
  nTailPos :: int
  nSize :: int
  nQueueNo :: int
  wReadUseFlag :: int
  wWriteUseFlag :: int

record CLoopBuf =
  m_pmap :: "MemQueueHeader option"
  m_pShmBuf :: bytes
  m_nBufSize :: int
  m_nLeftSize :: int
  m_PktHead :: bytes
  m_PopPktHead :: bytes
  LOOP_PKT_HEAD_LEN :: int
  m_nMemMapMode :: int
  m_dwLogPushSucc :: u32
  m_dwLogPushZero :: u32
  m_dwLogPopSucc :: u32
  m_dwLogPopZero :: u32

definition INTERVAL_SPACE :: int where
  "INTERVAL_SPACE = 16"

definition LEN_INT :: int where
  "LEN_INT = 4"

definition SYNCWORD :: bytes where
  "SYNCWORD = [0x40, 0x40, 0x40, 0x40]"

definition sizeof_MemQueueHeader :: int where
  "sizeof_MemQueueHeader = 20"

section \<open>The macros\<close>

definition LOOP_SET_PKT_HEAD :: "int \<Rightarrow> bytes" where
  "LOOP_SET_PKT_HEAD len = WriteLE32 (word_of_int len) @ SYNCWORD"

definition IS_PUSH_SIZE_ENOUGH :: "int \<Rightarrow> MemQueueHeader \<Rightarrow> int \<Rightarrow> CLoopBuf \<Rightarrow> bool \<times> CLoopBuf" where
  "IS_PUSH_SIZE_ENOUGH headPos h nDataLen s =
     (if headPos \<le> nTailPos h then
        (if m_nBufSize s - nTailPos h \<ge> nDataLen then (True, s)
         else let left = nDataLen - (m_nBufSize s - nTailPos h)
              in (headPos - INTERVAL_SPACE \<ge> left, s\<lparr>m_nLeftSize := left\<rparr>))
      else (headPos - nTailPos h > nDataLen + INTERVAL_SPACE, s))"

definition PUSH_DATA :: "int \<Rightarrow> bytes \<Rightarrow> int \<Rightarrow> CLoopBuf \<Rightarrow> CLoopBuf option" where
  "PUSH_DATA headPos lpData nDataLen s = do {
     h \<leftarrow> m_pmap s;
     if headPos \<le> nTailPos h then
       (if m_nBufSize s - nTailPos h \<ge> nDataLen then do {
          buf \<leftarrow> memcpy (m_pShmBuf s) (nTailPos h) lpData 0 nDataLen;
          Some (s\<lparr>m_pShmBuf := buf, m_pmap := Some (h\<lparr>nTailPos := nTailPos h + nDataLen\<rparr>)\<rparr>) }
        else do {
          let nTempSize = m_nBufSize s - nTailPos h;
          let left = nDataLen - nTempSize;
          buf1 \<leftarrow> memcpy (m_pShmBuf s) (nTailPos h) lpData 0 nTempSize;
          buf2 \<leftarrow> memcpy buf1 0 lpData nTempSize left;
          Some (s\<lparr>m_pShmBuf := buf2, m_nLeftSize := left, m_pmap := Some (h\<lparr>nTailPos := left\<rparr>)\<rparr>) })
     else do {
       buf \<leftarrow> memcpy (m_pShmBuf s) (nTailPos h) lpData 0 nDataLen;
       Some (s\<lparr>m_pShmBuf := buf, m_pmap := Some (h\<lparr>nTailPos := nTailPos h + nDataLen\<rparr>)\<rparr>) } }"

text \<open>
  The value read into \<open>nFullDataSize\<close> is a C \<^verbatim>\<open>int\<close>: four bytes, two's complement.
\<close>

definition IS_POP_SIZE_ENOUGH :: "int \<Rightarrow> MemQueueHeader \<Rightarrow> CLoopBuf \<Rightarrow> (bool \<times> int) option" where
  "IS_POP_SIZE_ENOUGH tailPos h s =
     (if nHeadPos h \<le> tailPos then
        (if nHeadPos h + LEN_INT \<le> tailPos then do {
           d \<leftarrow> memcpy (replicate 4 0) 0 (m_pShmBuf s) (nHeadPos h) LEN_INT;
           let full = sint (ReadLE32 d);
           Some (tailPos - nHeadPos h \<ge> full, full) }
         else Some (False, 0))
      else do {
        full \<leftarrow> (if m_nBufSize s - nHeadPos h \<ge> LEN_INT then do {
                  d \<leftarrow> memcpy (replicate 4 0) 0 (m_pShmBuf s) (nHeadPos h) 4;
                  Some (sint (ReadLE32 d)) }
                else if m_nBufSize s - nHeadPos h + tailPos \<ge> LEN_INT then do {
                  let nTempLen = m_nBufSize s - nHeadPos h;
                  d1 \<leftarrow> memcpy (replicate 4 0) 0 (m_pShmBuf s) (nHeadPos h) nTempLen;
                  d2 \<leftarrow> memcpy d1 nTempLen (m_pShmBuf s) 0 (LEN_INT - nTempLen);
                  Some (sint (ReadLE32 d2)) }
                else Some 0);
        Some (full > 0 \<and> m_nBufSize s - nHeadPos h + tailPos \<ge> full, full) })"

definition POP_DATA :: "int \<Rightarrow> bytes \<Rightarrow> int \<Rightarrow> CLoopBuf \<Rightarrow> (bytes \<times> CLoopBuf) option" where
  "POP_DATA tailPos lpData nDataSize s = do {
     h \<leftarrow> m_pmap s;
     if nHeadPos h \<le> tailPos then do {
       d \<leftarrow> memcpy lpData 0 (m_pShmBuf s) (nHeadPos h) nDataSize;
       Some (d, s\<lparr>m_pmap := Some (h\<lparr>nHeadPos := nHeadPos h + nDataSize\<rparr>)\<rparr>) }
     else if m_nBufSize s - nHeadPos h \<ge> nDataSize then do {
       d \<leftarrow> memcpy lpData 0 (m_pShmBuf s) (nHeadPos h) nDataSize;
       Some (d, s\<lparr>m_pmap := Some (h\<lparr>nHeadPos := nHeadPos h + nDataSize\<rparr>)\<rparr>) }
     else do {
       let nTempSize = m_nBufSize s - nHeadPos h;
       d1 \<leftarrow> memcpy lpData 0 (m_pShmBuf s) (nHeadPos h) nTempSize;
       let left = nDataSize - nTempSize;
       d2 \<leftarrow> memcpy d1 nTempSize (m_pShmBuf s) 0 left;
       Some (d2, s\<lparr>m_pmap := Some (h\<lparr>nHeadPos := left\<rparr>)\<rparr>) } }"

section \<open>Construction and the memory modes\<close>

definition new_CLoopBuf :: CLoopBuf where
  "new_CLoopBuf = \<lparr>m_pmap = None, m_pShmBuf = [], m_nBufSize = 0, m_nLeftSize = 0,
     m_PktHead = replicate 8 0, m_PopPktHead = replicate 8 0, LOOP_PKT_HEAD_LEN = 8,
     m_nMemMapMode = -1, m_dwLogPushSucc = 0, m_dwLogPushZero = 0,
     m_dwLogPopSucc = 0, m_dwLogPopZero = 0\<rparr>"

definition SetZero :: "CLoopBuf \<Rightarrow> CLoopBuf option" where
  "SetZero s = do {
     h \<leftarrow> m_pmap s;
     Some (s\<lparr>m_pmap := Some (h\<lparr>nHeadPos := 0, nTailPos := 0, nSize := m_nBufSize s, nQueueNo := 1\<rparr>)\<rparr>) }"

text \<open>
  \<open>new BYTE[memsize + sizeof(MemQueueHeader)]\<close> returns memory with unspecified contents
  (\<open>raw\<close>); a negative size is a huge \<^verbatim>\<open>size_t\<close> and \<^verbatim>\<open>new\<close> throws (\<open>None\<close>).
\<close>

definition OpenMem :: "MemQueueHeader \<times> (nat \<Rightarrow> byte) \<Rightarrow> int \<Rightarrow> bool \<Rightarrow> CLoopBuf \<Rightarrow> (bool \<times> CLoopBuf) option" where
  "OpenMem raw memsize bSetZero s =
     (if memsize + sizeof_MemQueueHeader < 0 then None
      else do {
        let s1 = s\<lparr>m_pShmBuf := map (snd raw) [0..<nat memsize], m_pmap := Some (fst raw)\<rparr>;
        if bSetZero then do {
          s2 \<leftarrow> SetZero s1;
          z \<leftarrow> memcpy (m_pShmBuf s2) 0 (replicate (nat (memsize - sizeof_MemQueueHeader)) 0) 0
                 (memsize - sizeof_MemQueueHeader);
          Some (True, s2\<lparr>m_pShmBuf := z\<rparr>) }
        else Some (True, s1) })"

text \<open>
  The mapping modes: \<open>region\<close> is what \<^verbatim>\<open>mmap\<close> returned (\<open>None\<close> for \<^verbatim>\<open>MAP_FAILED\<close>, which the
  source dereferences), \<open>shm\<close> what \<^verbatim>\<open>ftok\<close>, \<^verbatim>\<open>shmget\<close> and \<^verbatim>\<open>shmat\<close> gave (\<open>None\<close> for a
  failure, on which \<^verbatim>\<open>OpenShm\<close> returns -1). The pointer \<open>m_pmap\<close> of a fresh object is then null,
  or the invalid pointer that \<^verbatim>\<open>shmat\<close> returned; both are \<open>None\<close>.
\<close>

definition OpenShmMap :: "(MemQueueHeader \<times> bytes) option \<Rightarrow> int \<Rightarrow> bool \<Rightarrow> CLoopBuf \<Rightarrow> (bool \<times> CLoopBuf) option" where
  "OpenShmMap region memsize bSetZero s = do {
     r \<leftarrow> region;
     let s1 = s\<lparr>m_pShmBuf := snd r, m_pmap := Some (fst r)\<rparr>;
     if bSetZero then do {
       z \<leftarrow> memcpy (snd r) 0 (replicate (nat (memsize - sizeof_MemQueueHeader)) 0) 0
              (memsize - sizeof_MemQueueHeader);
       Some (True, s1\<lparr>m_pmap := Some ((fst r)\<lparr>nHeadPos := 0, nTailPos := 0, nSize := m_nBufSize s,
                         wReadUseFlag := 0, wWriteUseFlag := 0, nQueueNo := 1\<rparr>),
                      m_pShmBuf := z\<rparr>) }
     else Some (True, s1\<lparr>m_pmap := Some ((fst r)\<lparr>wReadUseFlag := 1\<rparr>)\<rparr>) }"

definition OpenShm :: "(MemQueueHeader \<times> bytes) option \<Rightarrow> int \<Rightarrow> bool \<Rightarrow> CLoopBuf \<Rightarrow> (int \<times> CLoopBuf) option" where
  "OpenShm shm memsize bSetZero s =
     (case shm of None \<Rightarrow> Some (-1, s)
      | Some r \<Rightarrow> do {
          let s1 = s\<lparr>m_pShmBuf := snd r, m_pmap := Some (fst r)\<rparr>;
          if bSetZero then do {
            s2 \<leftarrow> SetZero s1;
            z \<leftarrow> memcpy (m_pShmBuf s2) 0 (replicate (nat (memsize - sizeof_MemQueueHeader)) 0) 0
                   (memsize - sizeof_MemQueueHeader);
            Some (1, s2\<lparr>m_pShmBuf := z\<rparr>) }
          else Some (1, s1) })"

text \<open>
  The guard compares an \<^verbatim>\<open>int\<close> with a \<^verbatim>\<open>size_t\<close>, so \<open>nSize\<close> is converted to 64 bit unsigned.
\<close>

definition Init :: "MemQueueHeader \<times> (nat \<Rightarrow> byte) \<Rightarrow> (MemQueueHeader \<times> bytes) option \<Rightarrow>
    (MemQueueHeader \<times> bytes) option \<Rightarrow> int \<Rightarrow> int \<Rightarrow> bool \<Rightarrow> CLoopBuf \<Rightarrow> (bool \<times> CLoopBuf) option" where
  "Init raw region shm nSz nMemMapMode bSetZero s =
     (if uint (word_of_int nSz :: u64) < INTERVAL_SPACE + sizeof_MemQueueHeader then Some (False, s)
      else do {
        let s1 = s\<lparr>m_nMemMapMode := nMemMapMode, m_nBufSize := nSz - sizeof_MemQueueHeader\<rparr>;
        if nMemMapMode = 1 then OpenShmMap region nSz bSetZero s1
        else if nMemMapMode = 0 then OpenMem raw nSz bSetZero s1
        else do { r \<leftarrow> OpenShm shm nSz bSetZero s1; Some (True, snd r) } })"

section \<open>Push and pop\<close>

definition PushInNoblock2 :: "bytes \<Rightarrow> int \<Rightarrow> bytes \<Rightarrow> int \<Rightarrow> CLoopBuf \<Rightarrow> (int \<times> CLoopBuf) option" where
  "PushInNoblock2 lpData nDataSize packet nPkgLen s = do {
     let nFullDataSize = nDataSize + nPkgLen + LOOP_PKT_HEAD_LEN s;
     h \<leftarrow> m_pmap s;
     let headPos = nHeadPos h;
     let (bEnough, s1) = IS_PUSH_SIZE_ENOUGH headPos h nFullDataSize s;
     if \<not> bEnough then Some (0, s1\<lparr>m_dwLogPushZero := m_dwLogPushZero s1 + 1\<rparr>)
     else do {
       let s2 = s1\<lparr>m_PktHead := LOOP_SET_PKT_HEAD nFullDataSize\<rparr>;
       s3 \<leftarrow> PUSH_DATA headPos (m_PktHead s2) (LOOP_PKT_HEAD_LEN s2) s2;
       s4 \<leftarrow> PUSH_DATA headPos lpData nDataSize s3;
       s5 \<leftarrow> PUSH_DATA headPos packet nPkgLen s4;
       Some (nDataSize + nPkgLen, s5) } }"

definition PushInNoblock :: "bytes \<Rightarrow> int \<Rightarrow> CLoopBuf \<Rightarrow> (int \<times> CLoopBuf) option" where
  "PushInNoblock lpData nDataSize s = do {
     let nFullDataSize = nDataSize + LOOP_PKT_HEAD_LEN s;
     h \<leftarrow> m_pmap s;
     let headPos = nHeadPos h;
     let (bEnough, s1) = IS_PUSH_SIZE_ENOUGH headPos h nFullDataSize s;
     if \<not> bEnough then Some (0, s1\<lparr>m_dwLogPushZero := m_dwLogPushZero s1 + 1\<rparr>)
     else do {
       let s2 = s1\<lparr>m_PktHead := LOOP_SET_PKT_HEAD nFullDataSize\<rparr>;
       s3 \<leftarrow> PUSH_DATA headPos (m_PktHead s2) (LOOP_PKT_HEAD_LEN s2) s2;
       s4 \<leftarrow> PUSH_DATA headPos lpData nDataSize s3;
       Some (nDataSize, s4) } }"

text \<open>
  \<^verbatim>\<open>PushIn\<close> retries twice after a sleep when the first attempt returns 0; in the sequential
  model the sleep changes nothing.
\<close>

definition PushIn :: "bytes \<Rightarrow> int \<Rightarrow> CLoopBuf \<Rightarrow> (int \<times> CLoopBuf) option" where
  "PushIn lpData nDataSize s = do {
     (nLen, s1) \<leftarrow> PushInNoblock lpData nDataSize s;
     (nLen, s2) \<leftarrow> (if nLen = 0 then PushInNoblock lpData nDataSize s1 else Some (nLen, s1));
     if nLen = 0 then PushInNoblock lpData nDataSize s2 else Some (nLen, s2) }"

definition PushIn2 :: "bytes \<Rightarrow> int \<Rightarrow> bytes \<Rightarrow> int \<Rightarrow> CLoopBuf \<Rightarrow> (int \<times> CLoopBuf) option" where
  "PushIn2 lpData nDataSize packet nPkgLen s = do {
     (nLen, s1) \<leftarrow> PushInNoblock2 lpData nDataSize packet nPkgLen s;
     (nLen, s2) \<leftarrow> (if nLen = 0 then PushInNoblock2 lpData nDataSize packet nPkgLen s1 else Some (nLen, s1));
     if nLen = 0 then PushInNoblock2 lpData nDataSize packet nPkgLen s2 else Some (nLen, s2) }"

text \<open>\<open>lpData\<close> is the caller's buffer; the result carries its contents after the call.\<close>

definition PopOut :: "bytes \<Rightarrow> int \<Rightarrow> CLoopBuf \<Rightarrow> (int \<times> bytes \<times> CLoopBuf) option" where
  "PopOut lpData nDataBufSize s = do {
     h \<leftarrow> m_pmap s;
     let tailPos = nTailPos h;
     (bEnough, nFullDataSize) \<leftarrow> IS_POP_SIZE_ENOUGH tailPos h s;
     if \<not> bEnough then do {
       s1 \<leftarrow> (if nFullDataSize > 1024 \<and> (nFullDataSize > nDataBufSize \<or> nFullDataSize < 0)
              then SetZero s else Some s);
       Some (0, lpData, s1\<lparr>m_dwLogPopZero := m_dwLogPopZero s1 + 1\<rparr>) }
     else do {
       (hd, s1) \<leftarrow> POP_DATA tailPos (m_PopPktHead s) (LOOP_PKT_HEAD_LEN s) s;
       let s2 = s1\<lparr>m_PopPktHead := hd\<rparr>;
       if take 4 (drop 4 hd) \<noteq> SYNCWORD then do {
         s3 \<leftarrow> SetZero s2;
         Some (0, lpData, s3) }
       else do {
         let nDataSize = nFullDataSize - LOOP_PKT_HEAD_LEN s2;
         if nDataBufSize < nDataSize then Some (-1, lpData, s2)
         else do {
           (d, s3) \<leftarrow> POP_DATA tailPos lpData nDataSize s2;
           Some (nDataSize, d, s3) } } } }"

definition GetSize :: "CLoopBuf \<Rightarrow> int option" where
  "GetSize s = do {
     h \<leftarrow> m_pmap s;
     Some (if nHeadPos h \<le> nTailPos h then nTailPos h - nHeadPos h
           else m_nBufSize s - nHeadPos h + nTailPos h) }"

definition SetUnused :: "CLoopBuf \<Rightarrow> CLoopBuf option" where
  "SetUnused s = do { h \<leftarrow> m_pmap s; Some (s\<lparr>m_pmap := Some (h\<lparr>wReadUseFlag := 0\<rparr>)\<rparr>) }"

definition SetUsed :: "CLoopBuf \<Rightarrow> CLoopBuf option" where
  "SetUsed s = do { h \<leftarrow> m_pmap s; Some (s\<lparr>m_pmap := Some (h\<lparr>wReadUseFlag := 1\<rparr>)\<rparr>) }"

definition IsUsed :: "CLoopBuf \<Rightarrow> bool option" where
  "IsUsed s = do { h \<leftarrow> m_pmap s; Some (wReadUseFlag h = 1) }"

section \<open>The ring as a byte sequence\<close>

definition ring_of :: "bytes \<Rightarrow> int \<Rightarrow> int \<Rightarrow> int \<Rightarrow> bytes" where
  "ring_of buf B hp tp =
     (if hp \<le> tp then buf_slice buf hp tp else buf_slice buf hp B @ buf_slice buf 0 tp)"

definition lb_ok :: "CLoopBuf \<Rightarrow> bool" where
  "lb_ok s = (case m_pmap s of None \<Rightarrow> False
     | Some h \<Rightarrow> 0 \<le> nHeadPos h \<and> nHeadPos h \<le> m_nBufSize s \<and> 0 \<le> nTailPos h \<and> nTailPos h \<le> m_nBufSize s
         \<and> m_nBufSize s \<le> int (length (m_pShmBuf s)) \<and> m_nBufSize s < 2 ^ 31
         \<and> LOOP_PKT_HEAD_LEN s = 8 \<and> length (m_PopPktHead s) = 8)"

definition ring :: "CLoopBuf \<Rightarrow> bytes" where
  "ring s = (case m_pmap s of None \<Rightarrow> []
     | Some h \<Rightarrow> ring_of (m_pShmBuf s) (m_nBufSize s) (nHeadPos h) (nTailPos h))"

definition room :: "CLoopBuf \<Rightarrow> int \<Rightarrow> bool" where
  "room s k = (case m_pmap s of None \<Rightarrow> False
     | Some h \<Rightarrow> if nHeadPos h \<le> nTailPos h
         then k \<le> m_nBufSize s - nTailPos h \<or> k - (m_nBufSize s - nTailPos h) < nHeadPos h
         else nTailPos h + k < nHeadPos h)"

lemma lb_okE:
  assumes "lb_ok s"
  obtains h where "m_pmap s = Some h" "0 \<le> nHeadPos h" "nHeadPos h \<le> m_nBufSize s" "0 \<le> nTailPos h"
    "nTailPos h \<le> m_nBufSize s" "m_nBufSize s \<le> int (length (m_pShmBuf s))" "m_nBufSize s < 2 ^ 31"
    "LOOP_PKT_HEAD_LEN s = 8" "length (m_PopPktHead s) = 8"
  using assms by (auto simp: lb_ok_def split: option.splits)

lemma lb_okD:
  assumes "lb_ok s" and "m_pmap s = Some h"
  shows "0 \<le> nHeadPos h" "nHeadPos h \<le> m_nBufSize s" "0 \<le> nTailPos h" "nTailPos h \<le> m_nBufSize s"
    "m_nBufSize s \<le> int (length (m_pShmBuf s))" "m_nBufSize s < 2 ^ 31"
    "LOOP_PKT_HEAD_LEN s = 8" "length (m_PopPktHead s) = 8"
  using assms by (auto elim: lb_okE)

lemma length_ring_of:
  "0 \<le> hp \<Longrightarrow> hp \<le> B \<Longrightarrow> 0 \<le> tp \<Longrightarrow> tp \<le> B \<Longrightarrow> B \<le> int (length buf) \<Longrightarrow>
   int (length (ring_of buf B hp tp)) = (if hp \<le> tp then tp - hp else B - hp + tp)"
  by (auto simp: ring_of_def length_buf_slice)

lemma buf_slice_0: "buf_slice buf 0 n = take (nat n) buf"
  by (simp add: buf_slice_def)

lemma memcpy_ok:
  assumes "0 \<le> n" "0 \<le> doff" "doff + n \<le> int (length dst)" "0 \<le> soff" "soff + n \<le> int (length src)"
  obtains r where "memcpy dst doff src soff n = Some r" "length r = length dst"
    "buf_slice r doff (doff + n) = buf_slice src soff (soff + n)"
    "\<And>i j. 0 \<le> i \<Longrightarrow> j \<le> doff \<Longrightarrow> buf_slice r i j = buf_slice dst i j"
    "\<And>i j. doff + n \<le> i \<Longrightarrow> buf_slice r i j = buf_slice dst i j"
proof -
  from assms obtain r where r: "memcpy dst doff src soff n = Some r" by (auto simp: memcpy_def)
  show thesis
    by (rule that [OF r length_memcpy [OF r] slice_memcpy_same [OF r] slice_memcpy_before [OF r] slice_memcpy_after [OF r]])
qed

text \<open>
  What pushing \<open>n\<close> bytes of \<open>d\<close> guarantees: the bytes are appended to the ring, the head does not
  move, and of a room of \<open>n + m\<close> bytes \<open>m\<close> are left.
\<close>

definition push_post :: "MemQueueHeader \<Rightarrow> bytes \<Rightarrow> int \<Rightarrow> int \<Rightarrow> CLoopBuf \<Rightarrow> CLoopBuf \<Rightarrow> bool" where
  "push_post h d n m s s' \<longleftrightarrow> lb_ok s' \<and> ring s' = ring s @ take (nat n) d \<and> room s' m
     \<and> map_option nHeadPos (m_pmap s') = Some (nHeadPos h)
     \<and> m_nBufSize s' = m_nBufSize s \<and> LOOP_PKT_HEAD_LEN s' = LOOP_PKT_HEAD_LEN s"

lemma PUSH_DATA_fit:
  assumes ok: "lb_ok s" and h: "m_pmap s = Some h" and room: "room s (n + m)"
    and n: "0 \<le> n" "n \<le> int (length d)" and m: "0 \<le> m"
    and fit: "nHeadPos h \<le> nTailPos h" "n \<le> m_nBufSize s - nTailPos h"
  shows "\<exists>s'. PUSH_DATA (nHeadPos h) d n s = Some s' \<and> push_post h d n m s s'"
proof -
  let ?B = "m_nBufSize s" and ?hp = "nHeadPos h" and ?tp = "nTailPos h" and ?buf = "m_pShmBuf s"
  note bb = lb_okD [OF ok h]
  obtain r where r: "memcpy ?buf ?tp d 0 n = Some r" "length r = length ?buf"
    "buf_slice r ?tp (?tp + n) = buf_slice d 0 (0 + n)"
    "\<And>i j. 0 \<le> i \<Longrightarrow> j \<le> ?tp \<Longrightarrow> buf_slice r i j = buf_slice ?buf i j"
    by (rule memcpy_ok [of n ?tp ?buf 0 d]) (use n bb fit in auto)
  let ?s' = "s\<lparr>m_pShmBuf := r, m_pmap := Some (h\<lparr>nTailPos := ?tp + n\<rparr>)\<rparr>"
  have "buf_slice r ?hp (?tp + n) = buf_slice r ?hp ?tp @ buf_slice r ?tp (?tp + n)"
    by (rule buf_slice_append [symmetric]) (use bb fit n r(2) in auto)
  then have "ring ?s' = ring s @ take (nat n) d"
    using fit n r bb h by (simp add: ring_def ring_of_def buf_slice_0)
  then show ?thesis
    using fit h r bb n m room by (auto simp: push_post_def PUSH_DATA_def lb_ok_def room_def split: if_splits)
qed

lemma PUSH_DATA_wrap:
  assumes ok: "lb_ok s" and h: "m_pmap s = Some h" and room: "room s (n + m)"
    and n: "0 \<le> n" "n \<le> int (length d)" and m: "0 \<le> m"
    and wrap: "nHeadPos h \<le> nTailPos h" "n > m_nBufSize s - nTailPos h"
  shows "\<exists>s'. PUSH_DATA (nHeadPos h) d n s = Some s' \<and> push_post h d n m s s'"
proof -
  let ?B = "m_nBufSize s" and ?hp = "nHeadPos h" and ?tp = "nTailPos h" and ?buf = "m_pShmBuf s"
  let ?t = "?B - ?tp"
  note bb = lb_okD [OF ok h]
  have lim: "n + m - ?t < ?hp" using room h wrap m by (auto simp: room_def)
  obtain r where r: "memcpy ?buf ?tp d 0 ?t = Some r" "length r = length ?buf"
    "buf_slice r ?tp (?tp + ?t) = buf_slice d 0 (0 + ?t)"
    "\<And>i j. 0 \<le> i \<Longrightarrow> j \<le> ?tp \<Longrightarrow> buf_slice r i j = buf_slice ?buf i j"
    by (rule memcpy_ok [of ?t ?tp ?buf 0 d]) (use n bb wrap in auto)
  obtain q where q: "memcpy r 0 d ?t (n - ?t) = Some q" "length q = length r"
    "buf_slice q 0 (0 + (n - ?t)) = buf_slice d ?t (?t + (n - ?t))"
    "\<And>i j. 0 + (n - ?t) \<le> i \<Longrightarrow> buf_slice q i j = buf_slice r i j"
    by (rule memcpy_ok [of "n - ?t" 0 r ?t d]) (use n bb wrap m lim r(2) in auto)
  let ?s' = "s\<lparr>m_pShmBuf := q, m_nLeftSize := n - ?t, m_pmap := Some (h\<lparr>nTailPos := n - ?t\<rparr>)\<rparr>"
  have 1: "buf_slice q ?hp ?B = buf_slice r ?hp ?B" using q(4) [of ?hp ?B] lim m by simp
  have 2: "buf_slice r ?hp ?B = buf_slice r ?hp ?tp @ buf_slice r ?tp ?B"
    by (rule buf_slice_append [symmetric]) (use bb wrap r(2) in auto)
  have 3: "buf_slice d 0 ?t @ buf_slice d ?t n = buf_slice d 0 n"
    by (rule buf_slice_append) (use bb wrap n in auto)
  have "ring ?s' = buf_slice q ?hp ?B @ buf_slice q 0 (n - ?t)"
    using wrap lim m by (simp add: ring_def ring_of_def)
  also have "\<dots> = buf_slice ?buf ?hp ?tp @ buf_slice d 0 n"
    using 1 2 3 r(3) r(4) [of ?hp ?tp] q(3) bb by simp
  finally have "ring ?s' = ring s @ take (nat n) d"
    using wrap h by (simp add: ring_def ring_of_def buf_slice_0)
  then show ?thesis
    using wrap lim h r q bb n m by (auto simp: push_post_def PUSH_DATA_def lb_ok_def room_def Let_def)
qed

lemma PUSH_DATA_gap:
  assumes ok: "lb_ok s" and h: "m_pmap s = Some h" and room: "room s (n + m)"
    and n: "0 \<le> n" "n \<le> int (length d)" and m: "0 \<le> m" and gap: "nHeadPos h > nTailPos h"
  shows "\<exists>s'. PUSH_DATA (nHeadPos h) d n s = Some s' \<and> push_post h d n m s s'"
proof -
  let ?B = "m_nBufSize s" and ?hp = "nHeadPos h" and ?tp = "nTailPos h" and ?buf = "m_pShmBuf s"
  note bb = lb_okD [OF ok h]
  have lim: "?tp + (n + m) < ?hp" using room h gap by (simp add: room_def)
  obtain r where r: "memcpy ?buf ?tp d 0 n = Some r" "length r = length ?buf"
    "buf_slice r ?tp (?tp + n) = buf_slice d 0 (0 + n)"
    "\<And>i j. 0 \<le> i \<Longrightarrow> j \<le> ?tp \<Longrightarrow> buf_slice r i j = buf_slice ?buf i j"
    "\<And>i j. ?tp + n \<le> i \<Longrightarrow> buf_slice r i j = buf_slice ?buf i j"
    by (rule memcpy_ok [of n ?tp ?buf 0 d]) (use n bb lim m in auto)
  let ?s' = "s\<lparr>m_pShmBuf := r, m_pmap := Some (h\<lparr>nTailPos := ?tp + n\<rparr>)\<rparr>"
  have 2: "buf_slice r 0 (?tp + n) = buf_slice r 0 ?tp @ buf_slice r ?tp (?tp + n)"
    by (rule buf_slice_append [symmetric]) (use bb lim n m r(2) in auto)
  have 3: "buf_slice r ?hp ?B = buf_slice ?buf ?hp ?B" by (rule r(5)) (use lim m in simp)
  have "ring ?s' = ring s @ take (nat n) d"
    using lim m n h r(3) r(4) [of 0 ?tp] 2 3 bb by (simp add: ring_def ring_of_def buf_slice_0)
  then show ?thesis
    using lim h r bb n m by (auto simp: push_post_def PUSH_DATA_def lb_ok_def room_def)
qed

lemma PUSH_DATA_ok:
  assumes "lb_ok s" "m_pmap s = Some h" "room s (n + m)" "0 \<le> n" "n \<le> int (length d)" "0 \<le> m"
  obtains s' h' where "PUSH_DATA (nHeadPos h) d n s = Some s'" "lb_ok s'" "m_pmap s' = Some h'"
    "nHeadPos h' = nHeadPos h" "ring s' = ring s @ take (nat n) d" "room s' m"
    "m_nBufSize s' = m_nBufSize s" "LOOP_PKT_HEAD_LEN s' = LOOP_PKT_HEAD_LEN s"
proof -
  have "\<exists>s'. PUSH_DATA (nHeadPos h) d n s = Some s' \<and> push_post h d n m s s'"
    using PUSH_DATA_fit [OF assms] PUSH_DATA_wrap [OF assms] PUSH_DATA_gap [OF assms] by (meson not_le)
  then show thesis using that by (auto simp: push_post_def)
qed

definition pop_post :: "MemQueueHeader \<Rightarrow> bytes \<Rightarrow> int \<Rightarrow> CLoopBuf \<Rightarrow> bytes \<Rightarrow> CLoopBuf \<Rightarrow> bool" where
  "pop_post h d n s d' s' \<longleftrightarrow> lb_ok s' \<and> ring s' = drop (nat n) (ring s) \<and> length d' = length d
     \<and> take (nat n) d' = take (nat n) (ring s) \<and> map_option nTailPos (m_pmap s') = Some (nTailPos h)
     \<and> m_nBufSize s' = m_nBufSize s \<and> LOOP_PKT_HEAD_LEN s' = LOOP_PKT_HEAD_LEN s
     \<and> m_PopPktHead s' = m_PopPktHead s"

lemma length_ring:
  assumes "lb_ok s" and "m_pmap s = Some h"
  shows "int (length (ring s)) = (if nHeadPos h \<le> nTailPos h then nTailPos h - nHeadPos h
                                  else m_nBufSize s - nHeadPos h + nTailPos h)"
  using assms(2) length_ring_of lb_okD [OF assms] by (simp add: ring_def)

lemma POP_DATA_one:
  assumes ok: "lb_ok s" and h: "m_pmap s = Some h"
    and n: "0 \<le> n" "n \<le> int (length (ring s))" "n \<le> int (length d)"
    and one: "nHeadPos h \<le> nTailPos h \<or> n \<le> m_nBufSize s - nHeadPos h"
  shows "\<exists>d' s'. POP_DATA (nTailPos h) d n s = Some (d', s') \<and> pop_post h d n s d' s'"
proof -
  let ?B = "m_nBufSize s" and ?hp = "nHeadPos h" and ?tp = "nTailPos h" and ?buf = "m_pShmBuf s"
  note bb = lb_okD [OF ok h] and ln = n(2) [unfolded length_ring [OF ok h]]
  let ?d' = "take (nat n) (drop (nat ?hp) ?buf) @ drop (nat n) d"
  let ?s' = "s\<lparr>m_pmap := Some (h\<lparr>nHeadPos := ?hp + n\<rparr>)\<rparr>"
  have mc: "memcpy d 0 ?buf ?hp n = Some ?d'"
    using n bb ln one by (auto simp: memcpy_def split: if_splits)
  have sl: "take (nat n) (drop (nat ?hp) ?buf) = buf_slice ?buf ?hp (?hp + n)" by (simp add: buf_slice_def)
  have len: "length (buf_slice ?buf ?hp (?hp + n)) = nat n"
    using length_buf_slice [of ?hp "?hp + n" ?buf] bb n ln one by (auto split: if_splits)
  have ap: "buf_slice ?buf ?hp e = buf_slice ?buf ?hp (?hp + n) @ buf_slice ?buf (?hp + n) e"
    if "?hp + n \<le> e" "e \<le> ?B" for e
    by (rule buf_slice_append [symmetric]) (use that bb n in auto)
  have ring: "ring s = buf_slice ?buf ?hp (?hp + n) @ ring ?s'"
  proof (cases "?hp \<le> ?tp")
    case True
    then show ?thesis using ap [of ?tp] h ln n bb by (simp add: ring_def ring_of_def)
  next
    case False
    then have "\<not> ?hp + n \<le> ?tp" "?hp + n \<le> ?B" using n one by auto
    then show ?thesis using False ap [of ?B] h by (simp add: ring_def ring_of_def)
  qed
  have d': "take (nat n) ?d' = take (nat n) (ring s)" "length ?d' = length d"
    unfolding ring sl using len n by auto
  have r': "ring ?s' = drop (nat n) (ring s)" unfolding ring using len by simp
  have p': "POP_DATA ?tp d n s = Some (?d', ?s')" using mc h one by (auto simp: POP_DATA_def)
  have ok': "lb_ok ?s'" using bb n ln one h by (auto simp: lb_ok_def split: if_splits)
  show ?thesis
    by (rule exI [of _ ?d'], rule exI [of _ ?s'], unfold pop_post_def)
      (intro conjI p' ok' r' d', simp_all)
qed

lemma POP_DATA_two:
  assumes ok: "lb_ok s" and h: "m_pmap s = Some h"
    and n: "0 \<le> n" "n \<le> int (length (ring s))" "n \<le> int (length d)"
    and two: "nHeadPos h > nTailPos h" "n > m_nBufSize s - nHeadPos h"
  shows "\<exists>d' s'. POP_DATA (nTailPos h) d n s = Some (d', s') \<and> pop_post h d n s d' s'"
proof -
  let ?B = "m_nBufSize s" and ?hp = "nHeadPos h" and ?tp = "nTailPos h" and ?buf = "m_pShmBuf s"
  note bb = lb_okD [OF ok h] and ln = n(2) [unfolded length_ring [OF ok h]]
  let ?t = "?B - ?hp"
  let ?d1 = "take (nat ?t) (drop (nat ?hp) ?buf) @ drop (nat ?t) d"
  let ?d' = "take (nat ?t) (drop (nat ?hp) ?buf) @ take (nat (n - ?t)) ?buf @ drop (nat n) d"
  let ?s' = "s\<lparr>m_pmap := Some (h\<lparr>nHeadPos := n - ?t\<rparr>)\<rparr>"
  have sl: "take (nat ?t) (drop (nat ?hp) ?buf) = buf_slice ?buf ?hp ?B" by (simp add: buf_slice_def)
  have l1: "length (buf_slice ?buf ?hp ?B) = nat ?t"
    using length_buf_slice [of ?hp ?B ?buf] bb by auto
  have mc: "memcpy d 0 ?buf ?hp ?t = Some ?d1" using n bb two by (auto simp: memcpy_def)
  have nn: "nat n = nat ?t + nat (n - ?t)" using two bb by linarith
  have mc2: "memcpy ?d1 ?t ?buf 0 (n - ?t) = Some ?d'"
    using n bb two ln l1 unfolding memcpy_def sl by (auto simp: min_def nn add.commute)
  have len: "length (buf_slice ?buf ?hp ?B @ take (nat (n - ?t)) ?buf) = nat n"
    using l1 bb two ln nn by simp
  have "buf_slice ?buf 0 ?tp = buf_slice ?buf 0 (n - ?t) @ buf_slice ?buf (n - ?t) ?tp"
    by (rule buf_slice_append [symmetric]) (use two bb n ln in auto)
  then have ring: "ring s = (buf_slice ?buf ?hp ?B @ take (nat (n - ?t)) ?buf) @ ring ?s'"
    using two h ln by (simp add: ring_def ring_of_def buf_slice_0)
  have d': "take (nat n) ?d' = take (nat n) (ring s)" "length ?d' = length d"
    unfolding ring sl using len n by auto
  have r': "ring ?s' = drop (nat n) (ring s)" unfolding ring using len by simp
  have p': "POP_DATA ?tp d n s = Some (?d', ?s')"
    using mc mc2 h two by (simp add: POP_DATA_def Let_def)
  have ok': "lb_ok ?s'" using bb n ln two h by (simp add: lb_ok_def)
  show ?thesis
    by (rule exI [of _ ?d'], rule exI [of _ ?s'], unfold pop_post_def)
      (intro conjI p' ok' r' d', simp_all)
qed

lemma POP_DATA_ok:
  assumes "lb_ok s" "m_pmap s = Some h" "0 \<le> n" "n \<le> int (length (ring s))" "n \<le> int (length d)"
  obtains s' h' d' where "POP_DATA (nTailPos h) d n s = Some (d', s')" "lb_ok s'" "m_pmap s' = Some h'"
    "nTailPos h' = nTailPos h" "ring s' = drop (nat n) (ring s)" "length d' = length d"
    "take (nat n) d' = take (nat n) (ring s)"
    "m_nBufSize s' = m_nBufSize s" "LOOP_PKT_HEAD_LEN s' = LOOP_PKT_HEAD_LEN s"
    "m_PopPktHead s' = m_PopPktHead s"
proof -
  have "\<exists>d' s'. POP_DATA (nTailPos h) d n s = Some (d', s') \<and> pop_post h d n s d' s'"
    using POP_DATA_one [OF assms] POP_DATA_two [OF assms] by (meson not_le)
  then show thesis using that by (auto simp: pop_post_def)
qed

lemma ReadLE32_take: "ReadLE32 xs = ReadLE32 (take 4 xs)"
  by (simp add: ReadLE32_def)

lemma take4_ring_contiguous:
  assumes ok: "lb_ok s" and h: "m_pmap s = Some h"
    and "if nHeadPos h \<le> nTailPos h then nHeadPos h + 4 \<le> nTailPos h else m_nBufSize s - nHeadPos h \<ge> 4"
  shows "take 4 (ring s) = take 4 (drop (nat (nHeadPos h)) (m_pShmBuf s))"
proof (cases "nHeadPos h \<le> nTailPos h")
  case True
  then have "4 \<le> nat (nTailPos h - nHeadPos h)" using assms(3) by simp
  then show ?thesis using True h by (simp add: ring_def ring_of_def buf_slice_def min_def)
next
  case False
  then have "4 \<le> nat (m_nBufSize s - nHeadPos h)" using assms(3) by simp
  then show ?thesis
    using False h length_buf_slice [of "nHeadPos h" "m_nBufSize s" "m_pShmBuf s"] lb_okD [OF ok h]
    by (simp add: ring_def ring_of_def buf_slice_def min_def)
qed

lemma read_split_header:
  assumes ok: "lb_ok s" and h: "m_pmap s = Some h" and split: "nHeadPos h > nTailPos h"
    "m_nBufSize s - nHeadPos h < 4" "m_nBufSize s - nHeadPos h + nTailPos h \<ge> 4"
  shows "do { d1 \<leftarrow> memcpy (replicate 4 0) 0 (m_pShmBuf s) (nHeadPos h) (m_nBufSize s - nHeadPos h);
              d2 \<leftarrow> memcpy d1 (m_nBufSize s - nHeadPos h) (m_pShmBuf s) 0 (4 - (m_nBufSize s - nHeadPos h));
              Some (sint (ReadLE32 d2)) } = Some (sint (ReadLE32 (ring s)))"
proof -
  let ?buf = "m_pShmBuf s" and ?t = "m_nBufSize s - nHeadPos h"
  let ?hi = "buf_slice ?buf (nHeadPos h) (m_nBufSize s)"
  note bb = lb_okD [OF ok h]
  have l1: "length ?hi = nat ?t"
    using length_buf_slice [of "nHeadPos h" "m_nBufSize s" ?buf] bb by auto
  have e4: "4 - nat ?t = nat (4 - ?t)" "nat ?t \<le> 4" using split bb by linarith+
  have "memcpy (replicate 4 0) 0 ?buf (nHeadPos h) ?t = Some (?hi @ replicate (nat (4 - ?t)) 0)"
    using bb split e4 by (simp add: memcpy_def buf_slice_def)
  moreover have "memcpy (?hi @ replicate (nat (4 - ?t)) 0) ?t ?buf 0 (4 - ?t) = Some (?hi @ take (nat (4 - ?t)) ?buf)"
    using bb split e4 l1 by (simp add: memcpy_def)
  moreover have "take 4 (ring s) = ?hi @ take (nat (4 - ?t)) ?buf"
    using h split l1 e4 bb by (simp add: ring_def ring_of_def buf_slice_0 min_def)
  ultimately show ?thesis using ReadLE32_take [of "ring s"] by simp
qed

lemma IS_POP_SIZE_ENOUGH_ok:
  assumes ok: "lb_ok s" and h: "m_pmap s = Some h"
  shows "IS_POP_SIZE_ENOUGH (nTailPos h) h s =
    Some (if length (ring s) < 4 then (False, 0)
          else let full = sint (ReadLE32 (ring s))
               in ((nHeadPos h \<le> nTailPos h \<or> full > 0) \<and> full \<le> int (length (ring s)), full))"
proof -
  note bb = lb_okD [OF ok h] and ln = length_ring [OF ok h]
    and rd = ReadLE32_take [of "ring s"] ReadLE32_take [of "drop (nat (nHeadPos h)) (m_pShmBuf s)"]
  consider "nHeadPos h \<le> nTailPos h"
    | "nHeadPos h > nTailPos h" "m_nBufSize s - nHeadPos h \<ge> 4"
    | "nHeadPos h > nTailPos h" "m_nBufSize s - nHeadPos h < 4" "m_nBufSize s - nHeadPos h + nTailPos h \<ge> 4"
    | "nHeadPos h > nTailPos h" "m_nBufSize s - nHeadPos h < 4" "m_nBufSize s - nHeadPos h + nTailPos h < 4"
    by linarith
  then show ?thesis
  proof cases
    case 1
    then show ?thesis using ln bb rd take4_ring_contiguous [OF ok h]
      by (auto simp: IS_POP_SIZE_ENOUGH_def memcpy_def LEN_INT_def Let_def)
  next
    case 2
    then show ?thesis using ln bb rd take4_ring_contiguous [OF ok h]
      by (auto simp: IS_POP_SIZE_ENOUGH_def memcpy_def LEN_INT_def Let_def)
  next
    case 3
    then show ?thesis using read_split_header [OF ok h 3] ln
      by (simp add: IS_POP_SIZE_ENOUGH_def LEN_INT_def Let_def)
  next
    case 4
    then show ?thesis using ln bb by (simp add: IS_POP_SIZE_ENOUGH_def LEN_INT_def)
  qed
qed

section \<open>Packets\<close>

definition enc_pkt :: "bytes \<Rightarrow> bytes" where
  "enc_pkt p = LOOP_SET_PKT_HEAD (int (length p) + 8) @ p"

definition lb_rep :: "CLoopBuf \<Rightarrow> bytes list \<Rightarrow> bool" where
  "lb_rep s ps \<longleftrightarrow> lb_ok s \<and> ring s = concat (map enc_pkt ps)"

lemma length_PKT_HEAD [simp]: "length (LOOP_SET_PKT_HEAD n) = 8"
  by (simp add: LOOP_SET_PKT_HEAD_def SYNCWORD_def)

lemma length_enc_pkt [simp]: "length (enc_pkt p) = length p + 8"
  by (simp add: enc_pkt_def)

lemma room_of_enough:
  assumes "lb_ok s" "m_pmap s = Some h" "IS_PUSH_SIZE_ENOUGH (nHeadPos h) h n s = (True, s1)"
  shows "room s n" "lb_ok s1" "m_pmap s1 = Some h" "ring s1 = ring s" "room s1 n"
    "m_nBufSize s1 = m_nBufSize s" "LOOP_PKT_HEAD_LEN s1 = LOOP_PKT_HEAD_LEN s"
  using assms
  by (auto simp: IS_PUSH_SIZE_ENOUGH_def room_def lb_ok_def ring_def INTERVAL_SPACE_def Let_def
      split: if_splits)

lemma not_enough:
  assumes ok: "lb_ok s" and h: "m_pmap s = Some h" and e: "IS_PUSH_SIZE_ENOUGH (nHeadPos h) h n s = (False, s1)"
  shows "lb_ok (s1\<lparr>m_dwLogPushZero := z\<rparr>)" "ring (s1\<lparr>m_dwLogPushZero := z\<rparr>) = ring s"
    "m_nBufSize s1 = m_nBufSize s" "int (length (ring s)) + n + INTERVAL_SPACE \<ge> m_nBufSize s"
proof -
  show "int (length (ring s)) + n + INTERVAL_SPACE \<ge> m_nBufSize s"
    using e length_ring [OF ok h]
    by (auto simp: IS_PUSH_SIZE_ENOUGH_def INTERVAL_SPACE_def Let_def split: if_splits)
  show "lb_ok (s1\<lparr>m_dwLogPushZero := z\<rparr>)" "ring (s1\<lparr>m_dwLogPushZero := z\<rparr>) = ring s"
    "m_nBufSize s1 = m_nBufSize s"
    using assms by (auto simp: IS_PUSH_SIZE_ENOUGH_def lb_ok_def ring_def Let_def split: if_splits)
qed

lemma push_header:
  assumes ok: "lb_ok s" and h: "m_pmap s = Some h" and n: "0 \<le> n"
    and e: "IS_PUSH_SIZE_ENOUGH (nHeadPos h) h (n + 8) s = (True, s1)"
  obtains s3 h3 where
    "PUSH_DATA (nHeadPos h) (LOOP_SET_PKT_HEAD (n + 8)) 8 (s1\<lparr>m_PktHead := LOOP_SET_PKT_HEAD (n + 8)\<rparr>) = Some s3"
    "lb_ok s3" "m_pmap s3 = Some h3" "nHeadPos h3 = nHeadPos h"
    "ring s3 = ring s @ LOOP_SET_PKT_HEAD (n + 8)" "room s3 n" "m_nBufSize s3 = m_nBufSize s"
    "LOOP_PKT_HEAD_LEN s1 = 8"
proof -
  note ro = room_of_enough [OF ok h e]
  let ?s2 = "s1\<lparr>m_PktHead := LOOP_SET_PKT_HEAD (n + 8)\<rparr>"
  have s2: "lb_ok ?s2" "m_pmap ?s2 = Some h" "ring ?s2 = ring s" "room ?s2 (8 + n)" "m_nBufSize ?s2 = m_nBufSize s"
    using ro by (auto simp: lb_ok_def ring_def room_def split: option.splits)
  show thesis
    by (rule PUSH_DATA_ok [OF s2(1,2,4), of "LOOP_SET_PKT_HEAD (n + 8)"])
      (use s2 n ro lb_okD(7) [OF ok h] in \<open>auto intro: that\<close>)
qed

lemma PushInNoblock_cases:
  assumes rep: "lb_rep s ps" and n: "length d = nat n" "0 \<le> n"
  obtains (pushed) s' where "PushInNoblock d n s = Some (n, s')" "lb_rep s' (ps @ [d])"
      "m_nBufSize s' = m_nBufSize s"
  | (full) s' where "PushInNoblock d n s = Some (0, s')" "lb_rep s' ps" "m_nBufSize s' = m_nBufSize s"
      "int (length (ring s)) + n + 8 + INTERVAL_SPACE \<ge> m_nBufSize s"
proof -
  from rep have ok: "lb_ok s" and rg: "ring s = concat (map enc_pkt ps)" by (auto simp: lb_rep_def)
  from ok obtain h where h: "m_pmap s = Some h" and pl: "LOOP_PKT_HEAD_LEN s = 8" by (auto elim: lb_okE)
  obtain b s1 where e: "IS_PUSH_SIZE_ENOUGH (nHeadPos h) h (n + 8) s = (b, s1)" by fastforce
  show thesis
  proof (cases b)
    case False
    then have e': "IS_PUSH_SIZE_ENOUGH (nHeadPos h) h (n + 8) s = (False, s1)" using e by simp
    note ne = not_enough [OF ok h e']
    show thesis
      by (intro full [of "s1\<lparr>m_dwLogPushZero := m_dwLogPushZero s1 + 1\<rparr>"])
        (use ne h e False pl rg in \<open>auto simp: PushInNoblock_def lb_rep_def\<close>)
  next
    case True
    then have e': "IS_PUSH_SIZE_ENOUGH (nHeadPos h) h (n + 8) s = (True, s1)" using e by simp
    obtain s3 h3 where s3:
      "PUSH_DATA (nHeadPos h) (LOOP_SET_PKT_HEAD (n + 8)) 8 (s1\<lparr>m_PktHead := LOOP_SET_PKT_HEAD (n + 8)\<rparr>) = Some s3"
      "lb_ok s3" "m_pmap s3 = Some h3" "nHeadPos h3 = nHeadPos h" "ring s3 = ring s @ LOOP_SET_PKT_HEAD (n + 8)"
      "room s3 n" "m_nBufSize s3 = m_nBufSize s" "LOOP_PKT_HEAD_LEN s1 = 8"
      by (rule push_header [OF ok h _ e']) (use n in auto)
    obtain s4 h4 where s4: "PUSH_DATA (nHeadPos h3) d n s3 = Some s4" "lb_ok s4" "m_pmap s4 = Some h4"
      "ring s4 = ring s3 @ take (nat n) d" "m_nBufSize s4 = m_nBufSize s3"
      by (rule PUSH_DATA_ok [OF s3(2,3), of n 0 d]) (use s3 n in auto)
    have "ring s4 = concat (map enc_pkt (ps @ [d]))" using s4(4) s3(5) rg n by (simp add: enc_pkt_def)
    with True show thesis
      by (intro pushed [of s4]) (use h e pl s3 s4 in \<open>auto simp: PushInNoblock_def lb_rep_def\<close>)
  qed
qed

lemma PushInNoblock2_cases:
  assumes rep: "lb_rep s ps" and n: "length d = nat n" "0 \<le> n" and m: "length p = nat m" "0 \<le> m"
  obtains (pushed) s' where "PushInNoblock2 d n p m s = Some (n + m, s')" "lb_rep s' (ps @ [d @ p])"
      "m_nBufSize s' = m_nBufSize s"
  | (full) s' where "PushInNoblock2 d n p m s = Some (0, s')" "lb_rep s' ps" "m_nBufSize s' = m_nBufSize s"
      "int (length (ring s)) + (n + m) + 8 + INTERVAL_SPACE \<ge> m_nBufSize s"
proof -
  from rep have ok: "lb_ok s" and rg: "ring s = concat (map enc_pkt ps)" by (auto simp: lb_rep_def)
  from ok obtain h where h: "m_pmap s = Some h" and pl: "LOOP_PKT_HEAD_LEN s = 8" by (auto elim: lb_okE)
  obtain b s1 where e: "IS_PUSH_SIZE_ENOUGH (nHeadPos h) h (n + m + 8) s = (b, s1)" by fastforce
  show thesis
  proof (cases b)
    case False
    then have e': "IS_PUSH_SIZE_ENOUGH (nHeadPos h) h (n + m + 8) s = (False, s1)" using e by simp
    note ne = not_enough [OF ok h e']
    show thesis
      by (intro full [of "s1\<lparr>m_dwLogPushZero := m_dwLogPushZero s1 + 1\<rparr>"])
        (use ne h e False pl rg in \<open>auto simp: PushInNoblock2_def lb_rep_def\<close>)
  next
    case True
    then have e': "IS_PUSH_SIZE_ENOUGH (nHeadPos h) h (n + m + 8) s = (True, s1)" using e by simp
    obtain s3 h3 where s3:
      "PUSH_DATA (nHeadPos h) (LOOP_SET_PKT_HEAD (n + m + 8)) 8 (s1\<lparr>m_PktHead := LOOP_SET_PKT_HEAD (n + m + 8)\<rparr>) = Some s3"
      "lb_ok s3" "m_pmap s3 = Some h3" "nHeadPos h3 = nHeadPos h" "ring s3 = ring s @ LOOP_SET_PKT_HEAD (n + m + 8)"
      "room s3 (n + m)" "m_nBufSize s3 = m_nBufSize s" "LOOP_PKT_HEAD_LEN s1 = 8"
      by (rule push_header [OF ok h _ e']) (use n m in auto)
    obtain s4 h4 where s4: "PUSH_DATA (nHeadPos h3) d n s3 = Some s4" "lb_ok s4" "m_pmap s4 = Some h4"
      "nHeadPos h4 = nHeadPos h3" "ring s4 = ring s3 @ take (nat n) d" "room s4 m" "m_nBufSize s4 = m_nBufSize s3"
      by (rule PUSH_DATA_ok [OF s3(2,3), of n m d]) (use s3 n m in auto)
    obtain s5 h5 where s5: "PUSH_DATA (nHeadPos h4) p m s4 = Some s5" "lb_ok s5" "m_pmap s5 = Some h5"
      "ring s5 = ring s4 @ take (nat m) p" "m_nBufSize s5 = m_nBufSize s4"
      by (rule PUSH_DATA_ok [OF s4(2,3), of m 0 p]) (use s4 m in auto)
    have "ring s5 = concat (map enc_pkt (ps @ [d @ p]))"
      using s5(4) s4(5) s3(5) rg n m by (simp add: enc_pkt_def nat_add_distrib)
    with True show thesis
      by (intro pushed [of s5]) (use h e pl s3 s4 s5 in \<open>auto simp: PushInNoblock2_def lb_rep_def\<close>)
  qed
qed

lemma PopOut_Nil:
  assumes rep: "lb_rep s []"
  shows "PopOut buf cap s = Some (0, buf, s\<lparr>m_dwLogPopZero := m_dwLogPopZero s + 1\<rparr>)"
    and "lb_rep (s\<lparr>m_dwLogPopZero := m_dwLogPopZero s + 1\<rparr>) []"
proof -
  from rep have ok: "lb_ok s" and rg: "ring s = []" by (auto simp: lb_rep_def)
  from ok obtain h where h: "m_pmap s = Some h" by (auto elim: lb_okE)
  show "PopOut buf cap s = Some (0, buf, s\<lparr>m_dwLogPopZero := m_dwLogPopZero s + 1\<rparr>)"
    using IS_POP_SIZE_ENOUGH_ok [OF ok h] rg h by (simp add: PopOut_def)
  show "lb_rep (s\<lparr>m_dwLogPopZero := m_dwLogPopZero s + 1\<rparr>) []"
    using rep by (auto simp: lb_rep_def lb_ok_def ring_def split: option.splits)
qed

lemma sint_len_word: "0 \<le> n \<Longrightarrow> n < 2 ^ 31 \<Longrightarrow> sint (word_of_int n :: u32) = n"
  by (simp add: sint_sbintrunc' signed_take_bit_int_eq_self)

lemma pop_header:
  assumes rep: "lb_rep s (p # ps)" and h: "m_pmap s = Some h"
  obtains s1 h1 hd where "IS_POP_SIZE_ENOUGH (nTailPos h) h s = Some (True, int (length p) + 8)"
    "POP_DATA (nTailPos h) (m_PopPktHead s) 8 s = Some (hd, s1)" "take 4 (drop 4 hd) = SYNCWORD"
    "lb_ok (s1\<lparr>m_PopPktHead := hd\<rparr>)" "m_pmap s1 = Some h1" "nTailPos h1 = nTailPos h"
    "ring (s1\<lparr>m_PopPktHead := hd\<rparr>) = p @ concat (map enc_pkt ps)" "m_nBufSize s1 = m_nBufSize s"
    "LOOP_PKT_HEAD_LEN s1 = 8" "LOOP_PKT_HEAD_LEN s = 8"
proof -
  from rep have ok: "lb_ok s" and rg: "ring s = enc_pkt p @ concat (map enc_pkt ps)" by (auto simp: lb_rep_def)
  note bb = lb_okD [OF ok h]
  have "int (length (ring s)) \<le> m_nBufSize s" using length_ring [OF ok h] bb by auto
  then have lt: "int (length p) + 8 < 2 ^ 31" using rg bb by simp
  have full: "sint (ReadLE32 (ring s)) = int (length p) + 8"
    using lt sint_len_word [of "int (length p) + 8"] by (simp add: rg enc_pkt_def LOOP_SET_PKT_HEAD_def)
  have en: "IS_POP_SIZE_ENOUGH (nTailPos h) h s = Some (True, int (length p) + 8)"
    using IS_POP_SIZE_ENOUGH_ok [OF ok h] full rg by simp
  obtain s1 h1 hd where s1: "POP_DATA (nTailPos h) (m_PopPktHead s) 8 s = Some (hd, s1)" "lb_ok s1" "m_pmap s1 = Some h1"
    "nTailPos h1 = nTailPos h" "ring s1 = drop (nat 8) (ring s)" "length hd = length (m_PopPktHead s)"
    "take (nat 8) hd = take (nat 8) (ring s)" "m_nBufSize s1 = m_nBufSize s" "LOOP_PKT_HEAD_LEN s1 = LOOP_PKT_HEAD_LEN s"
    "m_PopPktHead s1 = m_PopPktHead s"
    by (rule POP_DATA_ok [OF ok h, of 8 "m_PopPktHead s"]) (use rg bb in auto)
  have hd: "hd = LOOP_SET_PKT_HEAD (int (length p) + 8)"
    using s1(6,7) bb rg by (simp add: enc_pkt_def)
  show thesis
  proof (rule that [OF en s1(1) _ _ s1(3,4) _ s1(8)])
    show "take 4 (drop 4 hd) = SYNCWORD" by (simp add: hd LOOP_SET_PKT_HEAD_def SYNCWORD_def)
    show "lb_ok (s1\<lparr>m_PopPktHead := hd\<rparr>)"
      using s1 bb by (simp add: lb_ok_def)
    show "ring (s1\<lparr>m_PopPktHead := hd\<rparr>) = p @ concat (map enc_pkt ps)"
      using s1(3,5) rg by (simp add: ring_def enc_pkt_def)
  qed (use s1(9) bb in auto)
qed

lemma PopOut_Cons:
  assumes rep: "lb_rep s (p # ps)" and cap: "int (length p) \<le> cap" "cap \<le> int (length buf)"
  obtains s' buf' where "PopOut buf cap s = Some (int (length p), buf', s')" "lb_rep s' ps"
    "take (length p) buf' = p" "length buf' = length buf" "m_nBufSize s' = m_nBufSize s"
proof -
  from rep obtain h where h: "m_pmap s = Some h" by (auto simp: lb_rep_def elim: lb_okE)
  obtain s1 h1 hd where s1: "IS_POP_SIZE_ENOUGH (nTailPos h) h s = Some (True, int (length p) + 8)"
    "POP_DATA (nTailPos h) (m_PopPktHead s) 8 s = Some (hd, s1)" "take 4 (drop 4 hd) = SYNCWORD"
    "lb_ok (s1\<lparr>m_PopPktHead := hd\<rparr>)" "m_pmap s1 = Some h1" "nTailPos h1 = nTailPos h"
    "ring (s1\<lparr>m_PopPktHead := hd\<rparr>) = p @ concat (map enc_pkt ps)" "m_nBufSize s1 = m_nBufSize s"
    "LOOP_PKT_HEAD_LEN s1 = 8" "LOOP_PKT_HEAD_LEN s = 8"
    by (rule pop_header [OF rep h])
  obtain s3 h3 d where s3: "POP_DATA (nTailPos h1) buf (int (length p)) (s1\<lparr>m_PopPktHead := hd\<rparr>) = Some (d, s3)"
    "lb_ok s3" "m_pmap s3 = Some h3" "ring s3 = concat (map enc_pkt ps)" "length d = length buf"
    "take (length p) d = p" "m_nBufSize s3 = m_nBufSize s"
    by (rule POP_DATA_ok [OF s1(4), of h1 "int (length p)" buf]) (use s1 cap in auto)
  show thesis
    by (rule that [of d s3]) (use h s1 s3 cap in \<open>auto simp: PopOut_def lb_rep_def\<close>)
qed

text \<open>A caller's buffer that is too small: the header is consumed, the data stay.\<close>

lemma PopOut_short:
  assumes rep: "lb_rep s (p # ps)" and cap: "cap < int (length p)"
  obtains s' where "PopOut buf cap s = Some (-1, buf, s')" "lb_ok s'" "ring s' = p @ concat (map enc_pkt ps)"
proof -
  from rep obtain h where h: "m_pmap s = Some h" by (auto simp: lb_rep_def elim: lb_okE)
  show thesis
    by (rule pop_header [OF rep h], rule that) (use h cap in \<open>auto simp: PopOut_def\<close>)
qed

lemma PushIn_empty:
  assumes rep: "lb_rep s ps" and spare: "int (length (ring s)) + 3 * 8 + INTERVAL_SPACE < m_nBufSize s"
  obtains s' where "PushIn [] 0 s = Some (0, s')" "lb_rep s' (ps @ [[], [], []])"
proof -
  have one: "\<exists>s'. PushInNoblock [] 0 t = Some (0, s') \<and> lb_rep s' (qs @ [[]]) \<and> m_nBufSize s' = m_nBufSize t"
    if "lb_rep t qs" "int (length (concat (map enc_pkt qs))) + 8 + INTERVAL_SPACE < m_nBufSize t" for t qs
    by (rule PushInNoblock_cases [OF that(1), of "[]" 0]) (use that in \<open>auto simp: lb_rep_def\<close>)
  have rg: "ring s = concat (map enc_pkt ps)" using rep by (simp add: lb_rep_def)
  obtain s1 where s1: "PushInNoblock [] 0 s = Some (0, s1)" "lb_rep s1 (ps @ [[]])" "m_nBufSize s1 = m_nBufSize s"
    using one [OF rep] spare rg by auto
  obtain s2 where s2: "PushInNoblock [] 0 s1 = Some (0, s2)" "lb_rep s2 (ps @ [[], []])" "m_nBufSize s2 = m_nBufSize s"
    using one [OF s1(2)] s1(3) spare rg by auto
  obtain s3 where s3: "PushInNoblock [] 0 s2 = Some (0, s3)" "lb_rep s3 (ps @ [[], [], []])"
    using one [OF s2(2)] s2(3) spare rg by auto
  show thesis by (rule that [OF _ s3(2)]) (use s1 s2 s3 in \<open>simp add: PushIn_def\<close>)
qed

section \<open>The queue contract\<close>

text \<open>
  What a client of a bounded packet queue relies on: a push either appends the packet or
  leaves the contents alone, it succeeds whenever the packet \<open>fits\<close>, and a pop removes the
  oldest packet. \<open>run\<close> executes any interleaving of pushes and pops and records the packets
  the queue accepted and those it delivered.
\<close>

datatype 'p qop = Push 'p | Pop

fun run :: "('p \<Rightarrow> 'q \<Rightarrow> (bool \<times> 'q) option) \<Rightarrow> ('q \<Rightarrow> ('p option \<times> 'q) option) \<Rightarrow> 'p qop list \<Rightarrow> 'q
    \<Rightarrow> ('p list \<times> 'p list \<times> 'q) option" where
  "run push pop [] q = Some ([], [], q)"
| "run push pop (Push p # ops) q = do {
     (b, q1) \<leftarrow> push p q;
     (acc, out, q2) \<leftarrow> run push pop ops q1;
     Some ((if b then p # acc else acc), out, q2) }"
| "run push pop (Pop # ops) q = do {
     (r, q1) \<leftarrow> pop q;
     (acc, out, q2) \<leftarrow> run push pop ops q1;
     Some (acc, (case r of None \<Rightarrow> out | Some p \<Rightarrow> p # out), q2) }"

locale packet_queue =
  fixes rep :: "'q \<Rightarrow> 'p list \<Rightarrow> bool"
    and valid :: "'p \<Rightarrow> bool"
    and fits :: "'p \<Rightarrow> 'q \<Rightarrow> bool"
    and push :: "'p \<Rightarrow> 'q \<Rightarrow> (bool \<times> 'q) option"
    and pop :: "'q \<Rightarrow> ('p option \<times> 'q) option"
  assumes push_law: "rep q ps \<Longrightarrow> valid p \<Longrightarrow>
      \<exists>b q'. push p q = Some (b, q') \<and> rep q' (if b then ps @ [p] else ps) \<and> (fits p q \<longrightarrow> b)"
    and pop_empty: "rep q [] \<Longrightarrow> \<exists>q'. pop q = Some (None, q') \<and> rep q' []"
    and pop_head: "rep q (p # ps) \<Longrightarrow> \<exists>q'. pop q = Some (Some p, q') \<and> rep q' ps"
begin

lemma run_fifo:
  assumes "rep q ps" and "\<forall>p. Push p \<in> set ops \<longrightarrow> valid p"
  shows "\<exists>acc out q' ps'. run push pop ops q = Some (acc, out, q') \<and> rep q' ps' \<and> ps @ acc = out @ ps'"
  using assms
proof (induction ops arbitrary: q ps)
  case (Cons op ops)
  show ?case
  proof (cases op)
    case (Push p)
    then obtain b q1 where q1: "push p q = Some (b, q1)" "rep q1 (if b then ps @ [p] else ps)"
      using push_law [OF Cons.prems(1), of p] Cons.prems(2) by auto
    then show ?thesis using Cons.IH [OF q1(2)] Cons.prems(2) Push by fastforce
  next
    case Pop
    then show ?thesis
    proof (cases ps)
      case Nil
      then obtain q1 where "pop q = Some (None, q1)" "rep q1 []" using pop_empty Cons.prems(1) by auto
      then show ?thesis using Cons.IH [of q1 "[]"] Cons.prems(2) Pop Nil by fastforce
    next
      case ne: (Cons p qs)
      then obtain q1 where "pop q = Some (Some p, q1)" "rep q1 qs" using pop_head Cons.prems(1) by blast
      then show ?thesis using Cons.IH [of q1 qs] Cons.prems(2) Pop ne by fastforce
    qed
  qed
qed auto

lemma run_drain:
  "rep q ps \<Longrightarrow> \<exists>q'. run push pop (replicate (length ps) Pop) q = Some ([], ps, q') \<and> rep q' []"
proof (induction ps arbitrary: q)
  case (Cons p ps)
  then obtain q1 where "pop q = Some (Some p, q1)" "rep q1 ps" using pop_head by blast
  then show ?case using Cons.IH [of q1] by auto
qed auto

end

text \<open>
  \<open>CLoopBuf\<close> as such a queue: a push is \<open>PushInNoblock\<close>, accepted when it returns a non-zero
  size; a pop hands \<open>PopOut\<close> a buffer of \<open>cap\<close> bytes. Packets are not empty: for an empty one
  the return value does not tell success from failure.
\<close>

definition lb_push :: "bytes \<Rightarrow> CLoopBuf \<Rightarrow> (bool \<times> CLoopBuf) option" where
  "lb_push d s = map_option (\<lambda>(r, s'). (r \<noteq> 0, s')) (PushInNoblock d (int (length d)) s)"

definition lb_pop :: "int \<Rightarrow> CLoopBuf \<Rightarrow> (bytes option \<times> CLoopBuf) option" where
  "lb_pop cap s = map_option (\<lambda>(r, d, s'). (if r > 0 then Some (take (nat r) d) else None, s'))
     (PopOut (replicate (nat cap) 0) cap s)"

definition lb_fits :: "bytes \<Rightarrow> CLoopBuf \<Rightarrow> bool" where
  "lb_fits d s \<longleftrightarrow> (\<exists>k. GetSize s = Some k \<and> k + int (length d) + 8 + INTERVAL_SPACE < m_nBufSize s)"

definition lb_queue :: "int \<Rightarrow> CLoopBuf \<Rightarrow> bytes list \<Rightarrow> bool" where
  "lb_queue cap s ps \<longleftrightarrow> lb_rep s ps \<and> [] \<notin> set ps \<and> m_nBufSize s \<le> cap"

lemma GetSize_ring:
  assumes ok: "lb_ok s"
  shows "GetSize s = Some (int (length (ring s)))"
proof -
  from ok obtain h where h: "m_pmap s = Some h" by (rule lb_okE)
  then show ?thesis using length_ring [OF ok h] by (simp add: GetSize_def)
qed

lemma lb_rep_packet_le: "lb_rep s ps \<Longrightarrow> p \<in> set ps \<Longrightarrow> int (length p) \<le> m_nBufSize s"
proof -
  assume rep: "lb_rep s ps" and p: "p \<in> set ps"
  from rep obtain h where ok: "lb_ok s" and h: "m_pmap s = Some h" by (auto simp: lb_rep_def elim: lb_okE)
  have "length p \<le> length (concat (map enc_pkt ps))"
    using p by (auto dest!: split_list)
  moreover have "int (length (ring s)) \<le> m_nBufSize s" using length_ring [OF ok h] lb_okD [OF ok h] by auto
  ultimately show ?thesis using rep by (simp add: lb_rep_def)
qed

interpretation lbq: packet_queue "lb_queue cap" "\<lambda>d. d \<noteq> []" lb_fits lb_push "lb_pop cap" for cap
proof unfold_locales
  fix s ps and d :: bytes
  assume q: "lb_queue cap s ps" and d: "d \<noteq> []"
  then have rep: "lb_rep s ps" by (simp add: lb_queue_def)
  then have gs: "GetSize s = Some (int (length (ring s)))" using GetSize_ring by (simp add: lb_rep_def)
  show "\<exists>b s'. lb_push d s = Some (b, s') \<and> lb_queue cap s' (if b then ps @ [d] else ps) \<and> (lb_fits d s \<longrightarrow> b)"
    by (rule PushInNoblock_cases [OF rep, of d "int (length d)"])
      (use q d gs in \<open>auto simp: lb_push_def lb_queue_def lb_fits_def\<close>)
next
  fix s
  assume "lb_queue cap s []"
  then show "\<exists>s'. lb_pop cap s = Some (None, s') \<and> lb_queue cap s' []"
    using PopOut_Nil [of s] by (simp add: lb_pop_def lb_queue_def)
next
  fix s p ps
  assume q: "lb_queue cap s (p # ps)"
  then have rep: "lb_rep s (p # ps)" by (simp add: lb_queue_def)
  have le: "int (length p) \<le> cap" using lb_rep_packet_le [OF rep, of p] q by (simp add: lb_queue_def)
  show "\<exists>s'. lb_pop cap s = Some (Some p, s') \<and> lb_queue cap s' ps"
    by (rule PopOut_Cons [OF rep le, of "replicate (nat cap) 0"])
      (use q le in \<open>auto simp: lb_pop_def lb_queue_def\<close>)
qed

lemma Init_rep:
  assumes "36 \<le> nSz" "nSz < 2 ^ 31"
  obtains s where "Init raw region shm nSz 0 True new_CLoopBuf = Some (True, s)" "lb_rep s []"
    "m_nBufSize s = nSz - 20"
proof -
  have "uint (word_of_int nSz :: u64) = nSz"
    using assms by (simp add: uint_word_of_int)
  moreover obtain z where "memcpy (map (snd raw) [0..<nat nSz]) 0 (replicate (nat (nSz - 20)) 0) 0 (nSz - 20) = Some z"
      "length z = nat nSz"
    by (rule memcpy_ok [of "nSz - 20" 0 "map (snd raw) [0..<nat nSz]" 0 "replicate (nat (nSz - 20)) 0"])
      (use assms in auto)
  ultimately show thesis
    using assms
    by (intro that) (auto simp: Init_def OpenMem_def SetZero_def new_CLoopBuf_def INTERVAL_SPACE_def
        sizeof_MemQueueHeader_def lb_rep_def lb_ok_def ring_def ring_of_def buf_slice_def)
qed

lemma PushInNoblock_lb_fits:
  assumes rep: "lb_rep s ps"
  obtains (pushed) s' where "PushInNoblock d (int (length d)) s = Some (int (length d), s')" "lb_rep s' (ps @ [d])"
  | (full) s' where "PushInNoblock d (int (length d)) s = Some (0, s')" "lb_rep s' ps" "\<not> lb_fits d s"
proof -
  have "GetSize s = Some (int (length (ring s)))" using rep GetSize_ring by (simp add: lb_rep_def)
  then have "\<not> lb_fits d s" if "int (length (ring s)) + int (length d) + 8 + INTERVAL_SPACE \<ge> m_nBufSize s"
    using that by (simp add: lb_fits_def)
  then show thesis
    by (metis PushInNoblock_cases [OF rep, of d "int (length d)"] pushed full nat_int of_nat_0_le_iff)
qed

section \<open>A sample queue\<close>

definition zero_header :: MemQueueHeader where
  "zero_header = \<lparr>nHeadPos = 0, nTailPos = 0, nSize = 0, nQueueNo = 0, wReadUseFlag = 0, wWriteUseFlag = 0\<rparr>"

definition sample_loopbuf :: CLoopBuf where
  "sample_loopbuf = snd (the (Init (zero_header, \<lambda>_. 0) None None 100 0 True new_CLoopBuf))"

lemma sample_loopbuf_rep: "lb_rep sample_loopbuf []" "m_nBufSize sample_loopbuf = 80"
  by (rule Init_rep [of 100 "(zero_header, \<lambda>_. 0)" None None]; simp add: sample_loopbuf_def)+

lemma sample_loopbuf_one:
  obtains s where "lb_rep s [[1, 2, 3]]" "m_nBufSize s = 80"
  by (rule PushInNoblock_cases [OF sample_loopbuf_rep(1), of "[1, 2, 3]" 3])
    (use sample_loopbuf_rep in \<open>auto simp: lb_rep_def INTERVAL_SPACE_def\<close>)

section \<open>Properties\<close>



text \<open>
  C33. \<^verbatim>\<open>PushIn\<close> of a non-empty packet: it returns the packet's length after appending it once, or 0
  with the contents unchanged; the latter only when the bytes in use, the packet, its header
  and the reserved gap of 16 bytes do not fit the buffer.
\<close>

theorem PushIn_spec:
  assumes rep: "lb_rep s ps" and d: "d \<noteq> []" "length d < 2 ^ 31 - 24"
  shows "\<exists>s'. (PushIn d (int (length d)) s = Some (int (length d), s') \<and> lb_rep s' (ps @ [d]))
    \<or> (PushIn d (int (length d)) s = Some (0, s') \<and> lb_rep s' ps \<and> \<not> lb_fits d s)"
proof -
  consider s1 where "PushInNoblock d (int (length d)) s = Some (int (length d), s1)" "lb_rep s1 (ps @ [d])"
    | s1 where "PushInNoblock d (int (length d)) s = Some (0, s1)" "lb_rep s1 ps" "\<not> lb_fits d s"
    by (rule PushInNoblock_lb_fits [OF rep])
  then show ?thesis
  proof cases
    case (2 s1)
    show ?thesis
    proof (rule PushInNoblock_lb_fits [OF 2(2), of d])
      fix s2
      assume s2: "PushInNoblock d (int (length d)) s1 = Some (0, s2)" "lb_rep s2 ps"
      show ?thesis by (rule PushInNoblock_lb_fits [OF s2(2), of d]) (use 2 s2 in \<open>auto simp: PushIn_def\<close>)
    qed (use 2 d in \<open>auto simp: PushIn_def\<close>)
  qed (use d in \<open>auto simp: PushIn_def\<close>)
qed

theorem PushIn_spec_witness:
  "\<exists>s'. (PushIn [7, 8] 2 sample_loopbuf = Some (2, s') \<and> lb_rep s' [[7, 8]])
    \<or> (PushIn [7, 8] 2 sample_loopbuf = Some (0, s') \<and> lb_rep s' [] \<and> \<not> lb_fits [7, 8] sample_loopbuf)"
  using PushIn_spec [OF sample_loopbuf_rep(1), of "[7, 8]"] by simp

text \<open>
  C35. \<^verbatim>\<open>PopOut\<close> on every well-formed queue: 0 on an empty one; the oldest packet and its length
  when the caller's buffer holds it. When it does not, the call returns -1 although the
  packet's header has been consumed, so the ring no longer starts at a packet boundary.
\<close>

theorem PopOut_spec:
  assumes "lb_rep s ps" and "cap \<le> int (length buf)"
  shows "\<exists>r buf' s'. PopOut buf cap s = Some (r, buf', s') \<and> length buf' = length buf \<and>
    (case ps of [] \<Rightarrow> r = 0 \<and> lb_rep s' []
     | p # qs \<Rightarrow> if int (length p) \<le> cap
                 then r = int (length p) \<and> take (length p) buf' = p \<and> lb_rep s' qs
                 else r = -1 \<and> buf' = buf \<and> ring s' = p @ concat (map enc_pkt qs))"
proof (cases ps)
  case Nil
  then show ?thesis using PopOut_Nil(1) [of s buf cap] PopOut_Nil(2) [of s] assms by simp
next
  case (Cons p qs)
  have rep: "lb_rep s (p # qs)" using assms Cons by simp
  show ?thesis
  proof (cases "int (length p) \<le> cap")
    case True
    show ?thesis by (rule PopOut_Cons [OF rep True assms(2)]) (use True Cons in auto)
  next
    case False
    then have "cap < int (length p)" by simp
    then show ?thesis by (rule PopOut_short [OF rep, of cap buf]) (use False Cons in auto)
  qed
qed

theorem PopOut_spec_witness:
  "\<exists>s r buf' s'. lb_rep s [[1, 2, 3]] \<and> PopOut (replicate 2 0) 2 s = Some (r, buf', s')
     \<and> r = -1 \<and> ring s' = [1, 2, 3]"
proof -
  obtain s where s: "lb_rep s [[1, 2, 3]]" by (rule sample_loopbuf_one)
  then show ?thesis using PopOut_spec [OF s, of 2 "replicate 2 0"] by auto
qed

text \<open>
  C40. \<^verbatim>\<open>PushIn\<close> of an empty packet: the success value 0 of \<^verbatim>\<open>PushInNoblock\<close> is taken for a full queue
  and the call is repeated, so that with room for it the packet is queued three times.
\<close>

theorem PushIn_empty_thrice:
  assumes "lb_rep s ps" and "int (length (ring s)) + 3 * 8 + INTERVAL_SPACE < m_nBufSize s"
  shows "\<exists>s'. PushIn [] 0 s = Some (0, s') \<and> lb_rep s' (ps @ [[], [], []])"
  by (rule PushIn_empty [OF assms]) auto

theorem PushIn_empty_thrice_witness:
  "\<exists>s'. PushIn [] 0 sample_loopbuf = Some (0, s') \<and> lb_rep s' ([] @ [[], [], []])"
  by (rule PushIn_empty_thrice [OF sample_loopbuf_rep(1)])
    (use sample_loopbuf_rep in \<open>simp add: lb_rep_def INTERVAL_SPACE_def\<close>)

end
