(* ===== verification/Arith_Uint256.thy ===== *)
theory Arith_Uint256
  imports Wallet_Prelude
begin

text \<open>
  \<^verbatim>\<open>base_uint<256>\<close> and \<^verbatim>\<open>arith_uint256\<close> (\<^verbatim>\<open>libwallet/arith_uint256.h\<close> and \<^verbatim>\<open>.cpp\<close>): 256 bit
  unsigned arithmetic on eight 32 bit limbs, least significant first, with the compact
  difficulty encoding.

  A \<^verbatim>\<open>base_uint\<close> is the list \<open>pn\<close> of its limbs; the in-place operators return the new limbs.
  Each loop of the source is a recursion over the limbs in the order in which the loop visits
  them, carries are 64 bit words as in the source. \<open>wval\<close> reads the limbs as a number, and the
  lemmas show that every operator computes on that number modulo \<open>2 ^ 256\<close>.
\<close>

type_synonym base_uint = "u32 list"

definition WIDTH :: nat where
  "WIDTH = 256 div 32"

section \<open>Construction, bitwise operators, assignment from 64 bits\<close>

definition base_uint_zero :: base_uint where
  "base_uint_zero = replicate WIDTH 0"

definition base_uint_of :: "u64 \<Rightarrow> base_uint" where
  "base_uint_of b = ucast b # ucast (drop_bit 32 b) # replicate (WIDTH - 2) 0"

definition op_not :: "base_uint \<Rightarrow> bool" where
  "op_not pn = list_all (\<lambda>w. w = 0) pn"

definition op_compl :: "base_uint \<Rightarrow> base_uint" where
  "op_compl pn = map (\<lambda>w. NOT w) pn"

definition op_xor :: "base_uint \<Rightarrow> base_uint \<Rightarrow> base_uint" where
  "op_xor pn b = map2 (XOR) pn b"

definition op_and :: "base_uint \<Rightarrow> base_uint \<Rightarrow> base_uint" where
  "op_and pn b = map2 (AND) pn b"

definition op_or :: "base_uint \<Rightarrow> base_uint \<Rightarrow> base_uint" where
  "op_or pn b = map2 (OR) pn b"

definition op_xor64 :: "base_uint \<Rightarrow> u64 \<Rightarrow> base_uint" where
  "op_xor64 pn b = pn[0 := pn ! 0 XOR ucast b, 1 := pn ! 1 XOR ucast (drop_bit 32 b)]"

definition op_or64 :: "base_uint \<Rightarrow> u64 \<Rightarrow> base_uint" where
  "op_or64 pn b = pn[0 := pn ! 0 OR ucast b, 1 := pn ! 1 OR ucast (drop_bit 32 b)]"

definition GetLow64 :: "base_uint \<Rightarrow> u64" where
  "GetLow64 pn = ucast (pn ! 0) OR push_bit 32 (ucast (pn ! 1))"

section \<open>Increment, decrement, addition, subtraction\<close>

text \<open>The loops run while the limb wraps and there is a next limb.\<close>

fun op_inc :: "base_uint \<Rightarrow> base_uint" where
  "op_inc [] = []"
| "op_inc (w # ws) = (if w + 1 = 0 \<and> ws \<noteq> [] then (w + 1) # op_inc ws else (w + 1) # ws)"

fun op_dec :: "base_uint \<Rightarrow> base_uint" where
  "op_dec [] = []"
| "op_dec (w # ws) = (if w - 1 = - 1 \<and> ws \<noteq> [] then (w - 1) # op_dec ws else (w - 1) # ws)"

fun add_loop :: "u64 \<Rightarrow> base_uint \<Rightarrow> base_uint \<Rightarrow> base_uint" where
  "add_loop carry (p # pn) (b # bs) =
     (let n = carry + ucast p + ucast b
      in ucast (n AND 0xffffffff) # add_loop (drop_bit 32 n) pn bs)"
| "add_loop carry pn bs = pn"

definition op_add :: "base_uint \<Rightarrow> base_uint \<Rightarrow> base_uint" where
  "op_add pn b = add_loop 0 pn b"

definition op_neg :: "base_uint \<Rightarrow> base_uint" where
  "op_neg pn = op_inc (map (\<lambda>w. NOT w) pn)"

definition op_sub :: "base_uint \<Rightarrow> base_uint \<Rightarrow> base_uint" where
  "op_sub pn b = op_add pn (op_neg b)"

definition op_add64 :: "base_uint \<Rightarrow> u64 \<Rightarrow> base_uint" where
  "op_add64 pn b64 = op_add pn (base_uint_of b64)"

definition op_sub64 :: "base_uint \<Rightarrow> u64 \<Rightarrow> base_uint" where
  "op_sub64 pn b64 = op_add pn (op_neg (base_uint_of b64))"

section \<open>Multiplication\<close>

fun mul32_loop :: "u64 \<Rightarrow> u32 \<Rightarrow> base_uint \<Rightarrow> base_uint" where
  "mul32_loop carry b32 [] = []"
| "mul32_loop carry b32 (p # pn) =
     (let n = carry + ucast b32 * ucast p
      in ucast (n AND 0xffffffff) # mul32_loop (drop_bit 32 n) b32 pn)"

definition op_mul32 :: "base_uint \<Rightarrow> u32 \<Rightarrow> base_uint" where
  "op_mul32 pn b32 = mul32_loop 0 b32 pn"

text \<open>
  The inner loop works on the limbs from \<open>j\<close> upwards, as long as there are some; the outer
  loop runs over the limbs of the left operand.
\<close>

fun mul_inner :: "u64 \<Rightarrow> u32 \<Rightarrow> base_uint \<Rightarrow> base_uint \<Rightarrow> base_uint" where
  "mul_inner carry aj (p # pn) (b # bs) =
     (let n = carry + ucast p + ucast aj * ucast b
      in ucast (n AND 0xffffffff) # mul_inner (drop_bit 32 n) aj pn bs)"
| "mul_inner carry aj pn bs = pn"

fun mul_outer :: "base_uint \<Rightarrow> base_uint \<Rightarrow> nat \<Rightarrow> base_uint \<Rightarrow> base_uint" where
  "mul_outer [] b j pn = pn"
| "mul_outer (aj # a) b j pn = mul_outer a b (Suc j) (take j pn @ mul_inner 0 aj (drop j pn) b)"

definition op_mul :: "base_uint \<Rightarrow> base_uint \<Rightarrow> base_uint" where
  "op_mul pn b = mul_outer pn b 0 base_uint_zero"

section \<open>Shifts\<close>

definition shl_step :: "base_uint \<Rightarrow> nat \<Rightarrow> nat \<Rightarrow> nat \<Rightarrow> base_uint \<Rightarrow> base_uint" where
  "shl_step a k shift i pn =
     (let pn1 = (if i + k + 1 < WIDTH \<and> shift \<noteq> 0
                 then pn[i + k + 1 := pn ! (i + k + 1) OR drop_bit (32 - shift) (a ! i)] else pn)
      in if i + k < WIDTH then pn1[i + k := pn1 ! (i + k) OR push_bit shift (a ! i)] else pn1)"

definition op_shl :: "base_uint \<Rightarrow> nat \<Rightarrow> base_uint" where
  "op_shl a shift = fold (shl_step a (shift div 32) (shift mod 32)) [0..<WIDTH] base_uint_zero"

definition shr_step :: "base_uint \<Rightarrow> nat \<Rightarrow> nat \<Rightarrow> nat \<Rightarrow> base_uint \<Rightarrow> base_uint" where
  "shr_step a k shift i pn =
     (let pn1 = (if i \<ge> k + 1 \<and> shift \<noteq> 0
                 then pn[i - k - 1 := pn ! (i - k - 1) OR push_bit (32 - shift) (a ! i)] else pn)
      in if i \<ge> k then pn1[i - k := pn1 ! (i - k) OR drop_bit shift (a ! i)] else pn1)"

definition op_shr :: "base_uint \<Rightarrow> nat \<Rightarrow> base_uint" where
  "op_shr a shift = fold (shr_step a (shift div 32) (shift mod 32)) [0..<WIDTH] base_uint_zero"

section \<open>Comparison, number of bits\<close>

fun compare_loop :: "base_uint \<Rightarrow> base_uint \<Rightarrow> int" where
  "compare_loop (p # pn) (b # bs) = (if p < b then - 1 else if p > b then 1 else compare_loop pn bs)"
| "compare_loop pn bs = 0"

definition CompareTo :: "base_uint \<Rightarrow> base_uint \<Rightarrow> int" where
  "CompareTo pn b = compare_loop (rev pn) (rev b)"

definition EqualTo :: "base_uint \<Rightarrow> u64 \<Rightarrow> bool" where
  "EqualTo pn b \<longleftrightarrow> list_all (\<lambda>w. w = 0) (drop 2 pn) \<and> ucast (pn ! 1) = drop_bit 32 b
     \<and> ucast (pn ! 0) = b AND 0xffffffff"

fun top_bit :: "nat \<Rightarrow> u32 \<Rightarrow> nat" where
  "top_bit 0 w = 1"
| "top_bit (Suc b) w = (if w AND push_bit (Suc b) 1 \<noteq> 0 then Suc b + 1 else top_bit b w)"

fun bits_loop :: "base_uint \<Rightarrow> nat" where
  "bits_loop [] = 0"
| "bits_loop (w # ws) = (if w \<noteq> 0 then 32 * length ws + top_bit 31 w else bits_loop ws)"

definition bits :: "base_uint \<Rightarrow> nat" where
  "bits pn = bits_loop (rev pn)"

section \<open>Division\<close>

definition div_step :: "nat \<Rightarrow> base_uint \<times> base_uint \<times> base_uint \<Rightarrow> base_uint \<times> base_uint \<times> base_uint" where
  "div_step shift st = (case st of (pn, num, dv) \<Rightarrow>
     if CompareTo num dv \<ge> 0
     then (pn[shift div 32 := pn ! (shift div 32) OR push_bit (shift mod 32) 1], op_sub num dv, op_shr dv 1)
     else (pn, num, op_shr dv 1))"

fun div_loop :: "nat \<Rightarrow> base_uint \<times> base_uint \<times> base_uint \<Rightarrow> base_uint \<times> base_uint \<times> base_uint" where
  "div_loop 0 st = div_step 0 st"
| "div_loop (Suc shift) st = div_loop shift (div_step (Suc shift) st)"

text \<open>The exception \<^verbatim>\<open>uint_error\<close> is \<open>Inl\<close> with its message.\<close>

definition op_div :: "base_uint \<Rightarrow> base_uint \<Rightarrow> string + base_uint" where
  "op_div num b =
     (let num_bits = bits num; div_bits = bits b
      in if div_bits = 0 then Inl ''Division by zero''
         else if div_bits > num_bits then Inr base_uint_zero
         else let shift = num_bits - div_bits
              in Inr (fst (div_loop shift (base_uint_zero, num, op_shl b shift))))"

section \<open>The compact encoding\<close>

definition SetCompact :: "u32 \<Rightarrow> base_uint \<times> bool \<times> bool" where
  "SetCompact nCompact =
     (let nSize = unat (drop_bit 24 nCompact);
          nWord0 = nCompact AND 0x007fffff;
          nWord = (if nSize \<le> 3 then drop_bit (8 * (3 - nSize)) nWord0 else nWord0);
          r = (if nSize \<le> 3 then base_uint_of (ucast nWord)
               else op_shl (base_uint_of (ucast nWord)) (8 * (nSize - 3)))
      in (r, nWord \<noteq> 0 \<and> nCompact AND 0x00800000 \<noteq> 0,
          nWord \<noteq> 0 \<and> (nSize > 34 \<or> (nWord > 0xff \<and> nSize > 33) \<or> (nWord > 0xffff \<and> nSize > 32))))"

text \<open>The assertions of \<^verbatim>\<open>GetCompact\<close> are kept: a failing one is \<open>None\<close>.\<close>

definition GetCompact_word :: "base_uint \<Rightarrow> nat \<Rightarrow> u32" where
  "GetCompact_word pn nSize =
     (if nSize \<le> 3 then ucast (push_bit (8 * (3 - nSize)) (GetLow64 pn))
      else ucast (GetLow64 (op_shr pn (8 * (nSize - 3)))))"

definition GetCompact :: "base_uint \<Rightarrow> bool \<Rightarrow> u32 option" where
  "GetCompact pn fNegative =
     (let nSize0 = (bits pn + 7) div 8;
          nCompact0 = GetCompact_word pn nSize0;
          (nCompact1, nSize) = (if nCompact0 AND 0x00800000 \<noteq> 0 then (drop_bit 8 nCompact0, nSize0 + 1)
                                else (nCompact0, nSize0))
      in if nCompact1 AND NOT 0x007fffff \<noteq> 0 \<or> nSize \<ge> 256 then None
         else let nCompact2 = nCompact1 OR push_bit 24 (word_of_nat nSize)
              in Some (nCompact2 OR (if fNegative \<and> nCompact2 AND 0x007fffff \<noteq> 0 then 0x00800000 else 0)))"

section \<open>Conversion to and from uint256\<close>

definition ArithToUint256 :: "base_uint \<Rightarrow> bytes" where
  "ArithToUint256 a = concat (map WriteLE32 a)"

definition UintToArith256 :: "bytes \<Rightarrow> base_uint" where
  "UintToArith256 a = map (\<lambda>x. ReadLE32 (drop (x * 4) a)) [0..<WIDTH]"

section \<open>Limbs and carries\<close>

lemma ucast_and_mask32: "(ucast (n AND 0xffffffff :: u64) :: u32) = ucast n"
proof -
  have m: "(0xffffffff :: u64) = mask 32" by (simp add: mask_eq_exp_minus_1)
  show ?thesis unfolding m by (auto intro!: bit_eqI simp: bit_simps)
qed

lemma unat_ucast32_64 [simp]: "unat (ucast (x :: u32) :: u64) = unat x"
  using unat_lt2p [of x] by (simp add: unsigned_ucast_eq take_bit_nat_eq_self)

lemma unat_ucast64_32: "unat (ucast (n :: u64) :: u32) = unat n mod 2 ^ 32"
  by (simp add: unsigned_ucast_eq take_bit_eq_mod)

lemma limb_split: "unat (ucast n :: u32) + 2 ^ 32 * unat (drop_bit 32 (n :: u64)) = unat n"
  by (simp add: unat_ucast64_32 unat_shr)

lemma carry_lt: "unat (drop_bit 32 (n :: u64)) < 2 ^ 32"
  using unat_lt2p [of n] by (simp add: unat_shr less_mult_imp_div_less)

text \<open>One step of a carry loop: the low word is emitted, the rest is carried.\<close>

lemma carry_step:
  "(unat (ucast n :: u32) + 2 ^ 32 * ((unat (drop_bit 32 (n :: u64)) + r) mod 2 ^ (32 * k)))
   = (unat n + 2 ^ 32 * r) mod 2 ^ (32 * Suc k)"
proof -
  have "(unat n + 2 ^ 32 * r) mod (2 ^ 32 * 2 ^ (32 * k))
      = 2 ^ 32 * ((unat n + 2 ^ 32 * r) div 2 ^ 32 mod 2 ^ (32 * k)) + (unat n + 2 ^ 32 * r) mod 2 ^ 32"
    by (rule mod_mult2_eq)
  then show ?thesis
    by (simp add: unat_ucast64_32 unat_shr power_add algebra_simps)
qed

lemma unat_sum3: "unat (c :: u64) < 2 ^ 32 \<Longrightarrow> unat (c + ucast (p :: u32) + ucast (b :: u32)) = unat c + unat p + unat b"
  using unat_lt2p [of p] unat_lt2p [of b] by (simp add: unat_word_ariths)

lemma unat_mul32: "unat (ucast (a :: u32) * ucast (b :: u32) :: u64) = unat a * unat b" 
proof -
  have "unat a * unat b < 2 ^ 32 * 2 ^ 32"
    using unat_lt2p [of a] unat_lt2p [of b] by (intro mult_strict_mono) auto
  then show ?thesis by (simp add: unat_word_ariths)
qed

lemma mul32_bound: "unat (a :: u32) * unat (b :: u32) \<le> (2 ^ 32 - 1) * (2 ^ 32 - 1)"
  using unat_lt2p [of a] unat_lt2p [of b] by (intro mult_le_mono) auto

lemma unat_muladd: 
  "unat (c :: u64) < 2 ^ 32 \<Longrightarrow> unat (c + ucast (a :: u32) * ucast (b :: u32)) = unat c + unat a * unat b"
  using mul32_bound [of a b] by (simp add: unat_word_ariths(1) unat_mul32)

lemma unat_muladd2: 
  "unat (c :: u64) < 2 ^ 32 \<Longrightarrow>
   unat (c + ucast (p :: u32) + ucast (a :: u32) * ucast (b :: u32)) = unat c + unat p + unat a * unat b"
  using mul32_bound [of a b] unat_lt2p [of p] by (simp add: unat_word_ariths(1) unat_mul32)

lemma length_add_loop [simp]: "length (add_loop c xs ys) = length xs"
  by (induction c xs ys rule: add_loop.induct) (auto simp: Let_def)

lemma wval_add_loop:
  "length xs = length ys \<Longrightarrow> unat c < 2 ^ 32 \<Longrightarrow>
   wval (add_loop c xs ys) = (unat c + wval xs + wval ys) mod 2 ^ (32 * length xs)"
proof (induction c xs ys rule: add_loop.induct)
  case (1 c p pn b bs)
  let ?n = "c + ucast p + ucast b :: u64"
  have "wval (add_loop c (p # pn) (b # bs)) =
      unat (ucast ?n :: u32) + 2 ^ 32 * ((unat (drop_bit 32 ?n) + (wval pn + wval bs)) mod 2 ^ (32 * length pn))"
    using 1 carry_lt [of ?n] by (simp add: Let_def ucast_and_mask32 add.assoc)
  also have "\<dots> = (unat ?n + 2 ^ 32 * (wval pn + wval bs)) mod 2 ^ (32 * Suc (length pn))"
    by (rule carry_step)
  also have "unat ?n + 2 ^ 32 * (wval pn + wval bs) = unat c + wval (p # pn) + wval (b # bs)"
    using 1(3) by (simp add: unat_sum3)
  finally show ?case by simp
qed auto

lemma length_mul32_loop [simp]: "length (mul32_loop c b xs) = length xs"
  by (induction xs arbitrary: c) (auto simp: Let_def)

lemma wval_mul32_loop:
  "unat c < 2 ^ 32 \<Longrightarrow> wval (mul32_loop c b xs) = (unat c + unat b * wval xs) mod 2 ^ (32 * length xs)"
proof (induction xs arbitrary: c)
  case (Cons p pn)
  let ?n = "c + ucast b * ucast p :: u64"
  have "wval (mul32_loop c b (p # pn)) =
      unat (ucast ?n :: u32) + 2 ^ 32 * ((unat (drop_bit 32 ?n) + unat b * wval pn) mod 2 ^ (32 * length pn))"
    using Cons carry_lt [of ?n] by (simp add: Let_def ucast_and_mask32)
  also have "\<dots> = (unat ?n + 2 ^ 32 * (unat b * wval pn)) mod 2 ^ (32 * Suc (length pn))"
    by (rule carry_step)
  also have "unat ?n + 2 ^ 32 * (unat b * wval pn) = unat c + unat b * wval (p # pn)"
    unfolding unat_muladd [OF Cons.prems] by (simp add: distrib_left mult.left_commute)
  finally show ?case by simp
qed auto

lemma length_mul_inner [simp]: "length (mul_inner c a xs ys) = length xs"
  by (induction c a xs ys rule: mul_inner.induct) (auto simp: Let_def)

lemma wval_mul_inner:
  "length xs \<le> length ys \<Longrightarrow> unat c < 2 ^ 32 \<Longrightarrow>
   wval (mul_inner c a xs ys) = (unat c + wval xs + unat a * wval ys) mod 2 ^ (32 * length xs)"
proof (induction c a xs ys rule: mul_inner.induct)
  case (1 c a p pn b bs)
  let ?n = "c + ucast p + ucast a * ucast b :: u64"
  have "wval (mul_inner c a (p # pn) (b # bs)) =
      unat (ucast ?n :: u32) + 2 ^ 32 * ((unat (drop_bit 32 ?n) + (wval pn + unat a * wval bs)) mod 2 ^ (32 * length pn))"
    using 1 carry_lt [of ?n] by (simp add: Let_def ucast_and_mask32 add.assoc)
  also have "\<dots> = (unat ?n + 2 ^ 32 * (wval pn + unat a * wval bs)) mod 2 ^ (32 * Suc (length pn))"
    by (rule carry_step)
  also have "unat ?n + 2 ^ 32 * (wval pn + unat a * wval bs) = unat c + wval (p # pn) + unat a * wval (b # bs)"
    unfolding unat_muladd2 [OF 1(3)] by (simp add: distrib_left mult.left_commute)
  finally show ?case by simp
qed auto

lemma length_mul_outer [simp]: "j + length a \<le> length pn \<Longrightarrow> length (mul_outer a b j pn) = length pn"
  by (induction a b j pn rule: mul_outer.induct) auto

lemma wval_mul_row:
  assumes "j \<le> length pn" "length pn \<le> length b"
  shows "wval (take j pn @ mul_inner 0 aj (drop j pn) b) mod 2 ^ (32 * length pn)
    = (wval pn + 2 ^ (32 * j) * (unat aj * wval b)) mod 2 ^ (32 * length pn)"
proof -
  let ?J = "2 ^ (32 * j) :: nat" and ?K = "2 ^ (32 * (length pn - j)) :: nat"
  have JK: "?J * ?K = 2 ^ (32 * length pn)" using assms by (simp flip: power_add add: algebra_simps)
  have split: "wval pn = wval (take j pn) + ?J * wval (drop j pn)"
    using wval_append [of "take j pn" "drop j pn"] assms by (simp add: min_def)
  have "wval (take j pn @ mul_inner 0 aj (drop j pn) b)
      = wval (take j pn) + ?J * ((wval (drop j pn) + unat aj * wval b) mod ?K)"
    using assms by (simp add: wval_append wval_mul_inner min_def)
  also have "?J * ((wval (drop j pn) + unat aj * wval b) mod ?K)
      = (?J * wval (drop j pn) + ?J * (unat aj * wval b)) mod (?J * ?K)"
    by (simp add: mult_mod_right distrib_left)
  finally show ?thesis unfolding JK split by (simp add: mod_add_right_eq add.assoc)
qed

lemma wval_mul_outer_mod:
  "j + length a \<le> length pn \<Longrightarrow> length pn \<le> length b \<Longrightarrow>
   wval (mul_outer a b j pn) mod 2 ^ (32 * length pn)
   = (wval pn + 2 ^ (32 * j) * (wval a * wval b)) mod 2 ^ (32 * length pn)"
proof (induction a b j pn rule: mul_outer.induct)
  case (2 aj a b j pn)
  let ?row = "take j pn @ mul_inner 0 aj (drop j pn) b" and ?M = "2 ^ (32 * length pn) :: nat"
  have len: "length ?row = length pn" using 2(2) by simp
  have "wval (mul_outer (aj # a) b j pn) mod ?M = (wval ?row + 2 ^ (32 * Suc j) * (wval a * wval b)) mod ?M"
    using 2(1) [unfolded len] 2(2,3) by simp
  also have "\<dots> = (wval ?row mod ?M + 2 ^ (32 * Suc j) * (wval a * wval b)) mod ?M"
    by (rule mod_add_left_eq [symmetric])
  also have "\<dots> = (wval pn + 2 ^ (32 * j) * (unat aj * wval b) + 2 ^ (32 * Suc j) * (wval a * wval b)) mod ?M"
    using 2(2,3) by (subst wval_mul_row) (simp_all add: mod_add_left_eq)
  also have "wval pn + 2 ^ (32 * j) * (unat aj * wval b) + 2 ^ (32 * Suc j) * (wval a * wval b)
      = wval pn + 2 ^ (32 * j) * (wval (aj # a) * wval b)"
    by (simp add: power_add distrib_left distrib_right mult.assoc)
  finally show ?case .
qed simp

lemma wval_lt32: "wval (ws :: u32 list) < 2 ^ (32 * length ws)"
  using wval_lt [of ws] by simp

lemma length_op_inc [simp]: "length (op_inc ws) = length ws"
  by (induction ws) auto

lemma length_op_dec [simp]: "length (op_dec ws) = length ws"
  by (induction ws) auto

lemma unat_plus_1: "unat ((w :: u32) + 1) = (if w + 1 = 0 then 0 else unat w + 1)"
  by (metis One_nat_def add.commute add_0_right plus_1_eq_Suc unatSuc unat_0)

lemma wval_op_inc: "ws \<noteq> [] \<Longrightarrow> wval (op_inc ws) = (wval ws + 1) mod 2 ^ (32 * length ws)"
proof (induction ws)
  case (Cons w ws)
  have lt: "wval (op_inc (w # ws)) < 2 ^ (32 * length (w # ws))"
    using wval_lt32 [of "op_inc (w # ws)"] by (simp only: length_op_inc)
  have w: "w + 1 = 0 \<Longrightarrow> unat w = 2 ^ 32 - 1"
    by (simp add: eq_neg_iff_add_eq_0 [symmetric] unsigned_minus_1_eq_mask mask_eq_exp_minus_1)
  show ?case
  proof (cases "w + 1 = 0 \<and> ws \<noteq> []")
    case True
    have "wval (op_inc (w # ws)) = 2 ^ 32 * ((wval ws + 1) mod 2 ^ (32 * length ws))"
      using True Cons.IH by simp
    also have "\<dots> = (2 ^ 32 * (wval ws + 1)) mod 2 ^ (32 * length (w # ws))"
      by (simp add: mult_mod_right power_add)
    also have "2 ^ 32 * (wval ws + 1) = wval (w # ws) + 1" using w True by simp
    finally show ?thesis .
  next
    case False
    then consider "w + 1 = 0" "ws = []" | "w + 1 \<noteq> 0" by auto
    then show ?thesis
    proof cases
      case 1
      then show ?thesis using w by simp
    next
      case 2
      then have "wval (op_inc (w # ws)) = wval (w # ws) + 1" by (simp add: unat_plus_1)
      then show ?thesis using lt by simp
    qed
  qed
qed simp

lemma wval_compl: "wval (map (\<lambda>w. NOT w) ws :: u32 list) + wval ws + 1 = 2 ^ (32 * length ws)"
proof (induction ws)
  case (Cons w ws)
  have "unat (NOT w) = unat (- 1 - w)" unfolding not_eq_complement by (rule arg_cong [OF minus_diff_commute])
  also have "\<dots> = 2 ^ 32 - 1 - unat w"
    by (simp add: unat_sub unsigned_minus_1_eq_mask mask_eq_exp_minus_1)
  finally have "unat (NOT w) + unat w + 1 = 2 ^ 32" using unat_lt2p [of w] by simp
  moreover have "2 ^ (32 * length (w # ws)) = 2 ^ 32 * (wval (map (\<lambda>w. NOT w) ws) + wval ws + 1)"
    unfolding Cons.IH by (simp add: power_add)
  ultimately show ?case by simp
qed simp

lemma length_op [simp]:
  "length (op_neg ws) = length ws" "length (op_add a b) = length a" "length (op_sub a b) = length a"
  "length (op_mul32 a c) = length a"
  by (simp_all add: op_neg_def op_add_def op_sub_def op_mul32_def)

lemma wval_op_neg: "ws \<noteq> [] \<Longrightarrow> wval (op_neg ws) = (2 ^ (32 * length ws) - wval ws) mod 2 ^ (32 * length ws)"
proof -
  assume "ws \<noteq> []"
  moreover have "2 ^ (32 * length ws) - wval ws = wval (map (\<lambda>w. NOT w) ws) + 1" using wval_compl [of ws] by simp
  ultimately show ?thesis using wval_op_inc [of "map (\<lambda>w. NOT w) ws"] by (simp add: op_neg_def)
qed

lemma wval_op_add: "length a = length b \<Longrightarrow> wval (op_add a b) = (wval a + wval b) mod 2 ^ (32 * length a)"
  by (simp add: op_add_def wval_add_loop)

lemma wval_op_sub:
  assumes "length a = length b" "a \<noteq> []"
  shows "wval (op_sub a b) = (wval a + (2 ^ (32 * length a) - wval b)) mod 2 ^ (32 * length a)"
proof -
  have "b \<noteq> []" using assms by auto
  then show ?thesis
    using assms wval_op_neg [of b] wval_op_add [of a "op_neg b"]
    by (simp add: op_sub_def mod_add_right_eq)
qed

lemma wval_op_sub_le:
  assumes "length a = length b" "a \<noteq> []" "wval b \<le> wval a"
  shows "wval (op_sub a b) = wval a - wval b"
proof -
  let ?M = "2 ^ (32 * length a) :: nat"
  have b: "wval b \<le> ?M" using wval_lt32 [of b] assms(1) by simp
  have "wval a + (?M - wval b) = (wval a - wval b) + ?M" using assms(3) b by simp
  moreover have "wval a - wval b < ?M" using wval_lt32 [of a] by simp
  ultimately show ?thesis using wval_op_sub [OF assms(1,2)] by simp
qed

lemma wval_base_uint_zero [simp]: "wval base_uint_zero = 0" "length base_uint_zero = 8"
  by (simp_all add: base_uint_zero_def WIDTH_def)

lemma wval_op_mul:
  assumes "length a = 8" "length b = 8"
  shows "wval (op_mul a b) = wval a * wval b mod 2 ^ 256"
proof -
  have "length (op_mul a b) = 8" using assms by (simp add: op_mul_def)
  then have "wval (op_mul a b) < 2 ^ 256" using wval_lt32 [of "op_mul a b"] by simp
  then have "wval (op_mul a b) = wval (op_mul a b) mod 2 ^ 256" by simp
  also have "\<dots> = wval a * wval b mod 2 ^ 256"
    using wval_mul_outer_mod [of 0 a base_uint_zero b] assms by (simp add: op_mul_def)
  finally show ?thesis .
qed

lemma wval_op_mul32: "wval (op_mul32 a c) = wval a * unat c mod 2 ^ (32 * length a)"
  by (simp add: op_mul32_def wval_mul32_loop mult.commute)

lemma length_base_uint_of [simp]: "length (base_uint_of b) = 8"
  by (simp add: base_uint_of_def WIDTH_def)

lemma wval_base_uint_of [simp]: "wval (base_uint_of b) = unat b"
proof -
  have "unat (ucast (drop_bit 32 b) :: u32) = unat (drop_bit 32 b)"
    using carry_lt [of b] by (simp add: unat_ucast64_32)
  then show ?thesis using limb_split [of b] by (simp add: base_uint_of_def)
qed

section \<open>Shifts\<close>

text \<open>The bits of a limb list are the bits of the number it reads as.\<close>

lemma length_shl_step [simp]: "length (shl_step a k s i pn) = length pn"
  by (simp add: shl_step_def Let_def)

lemma length_fold_shl [simp]: "length (fold (shl_step a k s) is pn) = length pn"
  by (induction "is" arbitrary: pn) auto

lemma length_shr_step [simp]: "length (shr_step a k s i pn) = length pn"
  by (simp add: shr_step_def Let_def)

lemma length_fold_shr [simp]: "length (fold (shr_step a k s) is pn) = length pn"
  by (induction "is" arbitrary: pn) auto

lemma length_op_shift [simp]: "length (op_shl a n) = 8" "length (op_shr a n) = 8"
  by (simp_all add: op_shl_def op_shr_def)

lemma shl_step_nth:
  "length pn = 8 \<Longrightarrow> m < 8 \<Longrightarrow> shl_step a k s i pn ! m =
     pn ! m OR (if m = i + k then push_bit s (a ! i) else 0)
       OR (if s \<noteq> 0 \<and> m = i + k + 1 then drop_bit (32 - s) (a ! i) else 0)"
  by (auto simp: shl_step_def WIDTH_def Let_def nth_list_update)

lemma shr_step_nth:
  "length pn = 8 \<Longrightarrow> m < 8 \<Longrightarrow> i < 8 \<Longrightarrow> shr_step a k s i pn ! m =
     pn ! m OR (if m + k = i then drop_bit s (a ! i) else 0)
       OR (if s \<noteq> 0 \<and> m + k + 1 = i then push_bit (32 - s) (a ! i) else 0)"
  by (auto simp: shr_step_def Let_def nth_list_update)

lemma fold_shl_nth:
  "m < 8 \<Longrightarrow> fold (shl_step a k s) [0..<n] base_uint_zero ! m =
     (if k \<le> m \<and> m - k < n then push_bit s (a ! (m - k)) else 0) OR
     (if s \<noteq> 0 \<and> k + 1 \<le> m \<and> m - k - 1 < n then drop_bit (32 - s) (a ! (m - k - 1)) else 0)"
proof (induction n)
  case (Suc n)
  consider "m = n + k" | "m = n + k + 1" | "m \<noteq> n + k" "m \<noteq> n + k + 1" by blast
  then show ?case
  proof cases
    case 3
    then have "(k \<le> m \<and> m - k < Suc n) = (k \<le> m \<and> m - k < n)"
      "(k + 1 \<le> m \<and> m - k - 1 < Suc n) = (k + 1 \<le> m \<and> m - k - 1 < n)" by auto
    then show ?thesis using 3 Suc by (simp add: shl_step_nth)
  qed (use Suc in \<open>auto simp: shl_step_nth or.commute\<close>)
qed (simp add: base_uint_zero_def WIDTH_def)

lemma fold_shr_nth:
  "m < 8 \<Longrightarrow> n \<le> 8 \<Longrightarrow> fold (shr_step a k s) [0..<n] base_uint_zero ! m =
     (if m + k < n then drop_bit s (a ! (m + k)) else 0) OR
     (if s \<noteq> 0 \<and> m + k + 1 < n then push_bit (32 - s) (a ! (m + k + 1)) else 0)"
proof (induction n)
  case (Suc n)
  consider "m + k = n" | "m + k + 1 = n" | "m + k \<noteq> n" "m + k + 1 \<noteq> n" by blast
  then show ?case
  proof cases
    case 3
    then have "(m + k < Suc n) = (m + k < n)" "(m + k + 1 < Suc n) = (m + k + 1 < n)" by auto
    then show ?thesis using 3 Suc by (simp add: shr_step_nth)
  qed (use Suc in \<open>auto simp: shr_step_nth or.commute\<close>)
qed (simp add: base_uint_zero_def WIDTH_def)

lemma bit_fold_shl:
  "m < 8 \<Longrightarrow> b < 32 \<Longrightarrow> s < 32 \<Longrightarrow> bit (fold (shl_step a k s) [0..<WIDTH] base_uint_zero ! m) b =
     (k \<le> m \<and> s \<le> b \<and> bit (a ! (m - k)) (b - s) \<or> s \<noteq> 0 \<and> k + 1 \<le> m \<and> bit (a ! (m - k - 1)) (b + 32 - s))"
  by (subst fold_shl_nth) (auto simp: WIDTH_def bit_simps add.commute)

lemma bit_fold_shr:
  "m < 8 \<Longrightarrow> b < 32 \<Longrightarrow> s < 32 \<Longrightarrow> bit (fold (shr_step a k s) [0..<WIDTH] base_uint_zero ! m) b =
     (m + k < 8 \<and> bit (a ! (m + k)) (b + s) \<or>
      s \<noteq> 0 \<and> m + k + 1 < 8 \<and> 32 - s \<le> b \<and> bit (a ! (m + k + 1)) (b - (32 - s)))"
  by (subst fold_shr_nth) (auto simp: WIDTH_def bit_simps add.commute)

lemma limb_div_mod: "b < 32 \<Longrightarrow> i = 32 * m + b \<Longrightarrow> i div 32 = m \<and> i mod 32 = b" for i :: nat
  by auto

lemma limb_sub_le:
  fixes n i :: nat
  assumes "n mod 32 \<le> i mod 32"
  shows "(n \<le> i) = (n div 32 \<le> i div 32)"
    "n \<le> i \<Longrightarrow> (i - n) div 32 = i div 32 - n div 32 \<and> (i - n) mod 32 = i mod 32 - n mod 32"
proof -
  have i: "i = 32 * (i div 32) + i mod 32" and n: "n = 32 * (n div 32) + n mod 32"
    and lt: "i mod 32 < 32" "n mod 32 < 32" by simp_all
  show iff: "(n \<le> i) = (n div 32 \<le> i div 32)" using i n lt assms by linarith
  assume "n \<le> i"
  then have "i - n = 32 * (i div 32 - n div 32) + (i mod 32 - n mod 32)"
    using i n iff assms by (simp add: diff_mult_distrib2)
  moreover have "i mod 32 - n mod 32 < 32" using lt by linarith
  ultimately show "(i - n) div 32 = i div 32 - n div 32 \<and> (i - n) mod 32 = i mod 32 - n mod 32"
    by (rule limb_div_mod [rotated])
qed

lemma limb_sub_gt:
  fixes n i :: nat
  assumes "i mod 32 < n mod 32"
  shows "(n \<le> i) = (n div 32 + 1 \<le> i div 32)"
    "n \<le> i \<Longrightarrow> (i - n) div 32 = i div 32 - n div 32 - 1 \<and> (i - n) mod 32 = i mod 32 + 32 - n mod 32"
proof -
  have i: "i = 32 * (i div 32) + i mod 32" and n: "n = 32 * (n div 32) + n mod 32"
    and lt: "i mod 32 < 32" "n mod 32 < 32" by simp_all
  show iff: "(n \<le> i) = (n div 32 + 1 \<le> i div 32)" using i n lt assms by linarith
  assume le: "n \<le> i"
  then obtain d where d: "i div 32 = n div 32 + 1 + d" using iff by (auto simp: le_iff_add)
  then have "i - n = 32 * d + (i mod 32 + 32 - n mod 32)"
    using i n lt le by linarith
  moreover have "i mod 32 + 32 - n mod 32 < 32" using assms by linarith
  ultimately have "(i - n) div 32 = d \<and> (i - n) mod 32 = i mod 32 + 32 - n mod 32"
    by (rule limb_div_mod [rotated])
  moreover have "d = i div 32 - n div 32 - 1" using d by simp
  ultimately show "(i - n) div 32 = i div 32 - n div 32 - 1 \<and> (i - n) mod 32 = i mod 32 + 32 - n mod 32"
    by simp
qed

lemma bit_word_ge32: "n \<ge> 32 \<Longrightarrow> \<not> bit (w :: u32) n"
  by (auto dest: bit_imp_le_length)

lemma wval_op_shl:
  assumes "length a = 8"
  shows "wval (op_shl a n) = wval a * 2 ^ n mod 2 ^ 256"
proof -
  have "wval (op_shl a n) = take_bit 256 (push_bit n (wval a))"
  proof (rule bit_eqI)
    fix i :: nat
    let ?k = "n div 32" and ?s = "n mod 32" and ?m = "i div 32" and ?b = "i mod 32"
    show "bit (wval (op_shl a n)) i = bit (take_bit 256 (push_bit n (wval a))) i"
    proof (cases "i < 256")
      case True
      then have m: "?m < 8" by simp
      have "bit (wval (op_shl a n)) i = bit (op_shl a n ! ?m) ?b" using m by (simp add: bit_wval)
      also have "\<dots> = (?k \<le> ?m \<and> ?s \<le> ?b \<and> bit (a ! (?m - ?k)) (?b - ?s)
          \<or> ?s \<noteq> 0 \<and> ?k + 1 \<le> ?m \<and> bit (a ! (?m - ?k - 1)) (?b + 32 - ?s))"
        unfolding op_shl_def by (rule bit_fold_shl [OF m]) simp_all
      also have "\<dots> = (n \<le> i \<and> bit (a ! ((i - n) div 32)) ((i - n) mod 32))"
      proof (cases "?s \<le> ?b")
        case True
        then show ?thesis using limb_sub_le [of n i] by (auto simp: bit_word_ge32)
      next
        case False
        then show ?thesis using limb_sub_gt [of i n] by auto
      qed
      finally show ?thesis using True assms by (auto simp: bit_simps bit_wval)
    next
      case False
      then have "\<not> ?m < 8" by linarith
      with False show ?thesis by (simp add: bit_wval bit_simps)
    qed
  qed
  then show ?thesis by (simp add: push_bit_eq_mult take_bit_eq_mod)
qed

lemma limb_add:
  fixes i n :: nat
  shows "i mod 32 + n mod 32 < 32 \<Longrightarrow> (i + n) div 32 = i div 32 + n div 32 \<and> (i + n) mod 32 = i mod 32 + n mod 32"
    "32 \<le> i mod 32 + n mod 32 \<Longrightarrow> (i + n) div 32 = i div 32 + n div 32 + 1 \<and> (i + n) mod 32 = i mod 32 + n mod 32 - 32"
proof -
  have aux: "32 * x + p = q \<Longrightarrow> 32 * y + r = t \<Longrightarrow> q + t = 32 * (x + y) + (p + r)" for x y p q r t :: nat by simp
  have aux2: "32 \<le> r \<Longrightarrow> q = 32 * x + r \<Longrightarrow> q = 32 * (x + 1) + (r - 32)" for q r x :: nat by simp
  have sum: "i + n = 32 * (i div 32 + n div 32) + (i mod 32 + n mod 32)"
    using aux [OF mult_div_mod_eq mult_div_mod_eq] .
  have lt: "i mod 32 < 32" "n mod 32 < 32" by simp_all
  show "(i + n) div 32 = i div 32 + n div 32 \<and> (i + n) mod 32 = i mod 32 + n mod 32"
    if "i mod 32 + n mod 32 < 32"
    using that sum by (rule limb_div_mod)
  show "(i + n) div 32 = i div 32 + n div 32 + 1 \<and> (i + n) mod 32 = i mod 32 + n mod 32 - 32"
    if "32 \<le> i mod 32 + n mod 32"
    by (rule limb_div_mod [OF _ aux2 [OF that sum]]) (use that lt in linarith)
qed

lemma wval_op_shr:
  assumes "length a = 8"
  shows "wval (op_shr a n) = wval a div 2 ^ n"
proof -
  have "wval (op_shr a n) = drop_bit n (wval a)"
  proof (rule bit_eqI)
    fix i :: nat
    let ?k = "n div 32" and ?s = "n mod 32" and ?m = "i div 32" and ?b = "i mod 32"
    show "bit (wval (op_shr a n)) i = bit (drop_bit n (wval a)) i"
    proof (cases "?m < 8")
      case m: True
      have "bit (wval (op_shr a n)) i = bit (op_shr a n ! ?m) ?b" using m by (simp add: bit_wval)
      also have "\<dots> = (?m + ?k < 8 \<and> bit (a ! (?m + ?k)) (?b + ?s)
          \<or> ?s \<noteq> 0 \<and> ?m + ?k + 1 < 8 \<and> 32 - ?s \<le> ?b \<and> bit (a ! (?m + ?k + 1)) (?b - (32 - ?s)))"
        unfolding op_shr_def by (rule bit_fold_shr [OF m]) simp_all
      also have "\<dots> = ((i + n) div 32 < 8 \<and> bit (a ! ((i + n) div 32)) ((i + n) mod 32))"
      proof (cases "?b + ?s < 32")
        case True
        then have "\<not> 32 - ?s \<le> ?b" by linarith
        then show ?thesis using limb_add(1) [OF True] by simp
      next
        case False
        then have "32 - ?s \<le> ?b" "?b - (32 - ?s) = ?b + ?s - 32" "?s \<noteq> 0"
          using mod_less_divisor [of 32 i] by linarith+
        then show ?thesis using limb_add(2) [of i n] False by (simp add: bit_word_ge32)
      qed
      finally show ?thesis using assms by (simp add: bit_simps bit_wval add.commute)
    next
      case False
      then have "\<not> (n + i) div 32 < 8" by linarith
      with False show ?thesis using assms by (simp add: bit_simps bit_wval)
    qed
  qed
  then show ?thesis by (simp add: drop_bit_eq_div)
qed

section \<open>Comparison and bit length\<close>

lemma wval_rev_Cons: "wval (rev (w # ws) :: u32 list) = wval (rev ws) + 2 ^ (32 * length ws) * unat w"
  by (simp add: wval_append)

lemma compare_loop_wval:
  "length xs = length ys \<Longrightarrow> compare_loop xs ys =
     (if wval (rev xs) < wval (rev ys) then - 1 else if wval (rev xs) > wval (rev ys) then 1 else 0)"
proof (induction xs ys rule: compare_loop.induct)
  case (1 p pn b bs)
  then have len: "length pn = length bs" by simp
  let ?B = "2 ^ (32 * length bs) :: nat"
  have lt: "wval (rev pn) < ?B" "wval (rev bs) < ?B" using wval_lt32 [of "rev pn"] wval_lt32 [of "rev bs"] len by simp_all
  have gt: "x + ?B * unat (q :: u32) < y + ?B * unat r" if "unat q < unat r" "x < ?B" for x y q r
  proof -
    have "x + ?B * unat q < ?B * (unat q + 1)" using that by simp
    also have "\<dots> \<le> ?B * unat r" using that by (intro mult_le_mono2) simp
    finally show ?thesis by simp
  qed
  consider "unat p < unat b" | "unat b < unat p" | "unat p = unat b" by linarith
  then show ?case
  proof cases
    case 1
    then show ?thesis using gt [OF 1 lt(1)] len by (simp add: wval_append word_less_nat_alt)
  next
    case 2
    then show ?thesis using gt [OF 2 lt(2), of "wval (rev pn)"] len by (simp add: wval_append word_less_nat_alt)
  next
    case 3
    then show ?thesis using "1.IH" len by (simp add: wval_append word_less_nat_alt)
  qed
qed auto

lemma CompareTo_wval:
  "length a = length b \<Longrightarrow> CompareTo a b = (if wval a < wval b then - 1 else if wval a > wval b then 1 else 0)"
  by (simp add: CompareTo_def compare_loop_wval)

lemma and_push_bit_1: "w AND push_bit k 1 \<noteq> 0 \<longleftrightarrow> bit (w :: u32) k"
  by (simp add: push_bit_eq_mult and_exp_eq_0_iff_not_bit)

lemma top_bit_range:
  "n < 32 \<Longrightarrow> w \<noteq> 0 \<Longrightarrow> unat w < 2 ^ Suc n \<Longrightarrow>
   2 ^ (top_bit n w - 1) \<le> unat w \<and> unat w < 2 ^ top_bit n w \<and> 1 \<le> top_bit n w \<and> top_bit n w \<le> Suc n"
proof (induction n)
  case 0
  then show ?case by (cases "unat w") (auto simp: unat_eq_0)
next
  case (Suc n)
  have "unat w div 2 ^ Suc n < 2" using Suc.prems(3) by (intro less_mult_imp_div_less) simp
  moreover have "bit w (Suc n) = odd (unat w div 2 ^ Suc n)" unfolding bit_iff_odd [symmetric, of "unat w"] by (simp add: bit_unsigned_iff)
  ultimately have b: "bit w (Suc n) = (2 ^ Suc n \<le> unat w)"
    using div_greater_zero_iff [of "unat w" "2 ^ Suc n"] by (auto simp: less_2_cases_iff simp del: power_Suc)
  have t: "top_bit (Suc n) w = (if 2 ^ Suc n \<le> unat w then Suc (Suc n) else top_bit n w)"
    unfolding top_bit.simps and_push_bit_1 b by simp
  show ?case
  proof (cases "2 ^ Suc n \<le> unat w")
    case True
    then show ?thesis unfolding t using Suc.prems(3) by simp
  next
    case False
    then show ?thesis unfolding t using Suc.IH Suc.prems by simp
  qed
qed

lemma bits_loop_range:
  "(wval (rev ws) = 0 \<longrightarrow> bits_loop ws = 0) \<and>
   (wval (rev ws) \<noteq> 0 \<longrightarrow> 1 \<le> bits_loop ws \<and> 2 ^ (bits_loop ws - 1) \<le> wval (rev ws) \<and> wval (rev ws) < 2 ^ bits_loop ws)"
proof (induction ws)
  case (Cons w ws)
  show ?case
  proof (cases "w = 0")
    case True
    then show ?thesis using Cons by (simp add: wval_append)
  next
    case False
    let ?t = "top_bit 31 w" and ?B = "2 ^ (32 * length ws) :: nat"
    have t: "2 ^ (?t - 1) \<le> unat w" "unat w + 1 \<le> 2 ^ ?t" "1 \<le> ?t"
      using top_bit_range [of 31 w] False unat_lt2p [of w] by auto
    have lt: "wval (rev ws) < ?B" using wval_lt32 [of "rev ws"] by simp
    have v: "wval (rev (w # ws)) = wval (rev ws) + ?B * unat w" by (simp add: wval_append)
    have "?B * 2 ^ (?t - 1) \<le> ?B * unat w" using t by simp
    then have lo: "2 ^ (32 * length ws + ?t - 1) \<le> wval (rev (w # ws))"
      using t(3) unfolding v by (simp flip: power_add)
    have "wval (rev (w # ws)) < ?B * (unat w + 1)" using lt unfolding v by simp
    also have "\<dots> \<le> ?B * 2 ^ ?t" using t(2) by (intro mult_le_mono2)
    finally have hi: "wval (rev (w # ws)) < 2 ^ (32 * length ws + ?t)" by (simp add: power_add)
    have "wval (rev (w # ws)) \<noteq> 0" using lo by (metis le_zero_eq power_not_zero zero_neq_numeral)
    then show ?thesis using lo hi t(3) False by simp
  qed
qed simp

lemma bits_0_iff: "bits ws = 0 \<longleftrightarrow> wval ws = 0"
  using bits_loop_range [of "rev ws"] by (auto simp: bits_def)

lemma bits_range:
  "wval ws \<noteq> 0 \<Longrightarrow> 2 ^ (bits ws - 1) \<le> wval ws \<and> wval ws < 2 ^ bits ws"
  using bits_loop_range [of "rev ws"] by (simp add: bits_def)

lemma wval_lt_bits: "wval ws < 2 ^ bits ws"
  using bits_range [of ws] bits_0_iff [of ws] by (cases "wval ws = 0") auto

lemma bits_le: "wval ws < 2 ^ n \<Longrightarrow> bits ws \<le> n"
proof (cases "wval ws = 0")
  case False
  assume "wval ws < 2 ^ n"
  then have "2 ^ (bits ws - 1) < (2 :: nat) ^ n" using bits_range [OF False] by linarith
  then have "bits ws - 1 < n" by (rule power_less_imp_less_exp [rotated]) simp
  then show ?thesis by simp
qed (use bits_0_iff [of ws] in simp)

section \<open>Division\<close>

text \<open>
  The invariant of the loop before the step for \<open>shift\<close>: the divisor is \<open>b\<close> shifted by \<open>shift\<close>
  without loss, the quotient so far has only bits above \<open>shift\<close>, and quotient and
  remainder still account for the dividend.
\<close>

definition div_inv :: "nat \<Rightarrow> nat \<Rightarrow> nat \<Rightarrow> base_uint \<times> base_uint \<times> base_uint \<Rightarrow> bool" where
  "div_inv a b k st = (case st of (q, num, dv) \<Rightarrow>
     length q = 8 \<and> length num = 8 \<and> length dv = 8
     \<and> wval q * b + wval num = a \<and> wval num < b * 2 ^ k \<and> 2 ^ k dvd wval q)"

lemma wval_set_bit:
  fixes q :: base_uint
  assumes "length q = 8" "n < 256" "2 ^ Suc n dvd wval q"
  shows "wval (q[n div 32 := q ! (n div 32) OR push_bit (n mod 32) 1]) = wval q + 2 ^ n"
proof -
  let ?q = "q[n div 32 := q ! (n div 32) OR push_bit (n mod 32) 1]"
  have nb: "\<not> bit (wval q) n" 
    using assms(3) by (auto simp: bit_iff_odd dvd_def)
  have "wval ?q = wval q OR push_bit n 1"
  proof (rule bit_eqI)
    fix i :: nat
    have "i = n \<longleftrightarrow> i div 32 = n div 32 \<and> i mod 32 = n mod 32" by (metis div_mult_mod_eq)
    then show "bit (wval ?q) i = bit (wval q OR push_bit n 1) i"
      using assms(1,2) by (auto simp: bit_wval bit_simps nth_list_update)
  qed
  also have "\<dots> = wval q + push_bit n 1"
    by (rule disjunctive_add [symmetric]) (use nb in \<open>auto simp: bit_simps\<close>)
  finally show ?thesis by (simp add: push_bit_eq_mult)
qed

lemma div_step_inv:
  assumes inv: "div_inv a b (Suc n) st" and dv: "wval (snd (snd st)) = b * 2 ^ n" and n: "n < 256"
  shows "div_inv a b n (div_step n st)" "wval (snd (snd (div_step n st))) = b * 2 ^ n div 2"
proof -
  obtain q num d where st: "st = (q, num, d)" by (cases st)
  from inv have len: "length q = 8" "length num = 8" "length d = 8"
    and sum: "wval q * b + wval num = a" and lt: "wval num < b * 2 ^ Suc n" and dvd: "2 ^ Suc n dvd wval q"
    by (auto simp: div_inv_def st)
  have d: "wval d = b * 2 ^ n" using dv st by simp
  have dvd': "2 ^ n dvd wval q" using dvd by (metis dvd_trans le_imp_power_dvd le_Suc_eq order_refl)
  show "wval (snd (snd (div_step n st))) = b * 2 ^ n div 2"
    using len d by (simp add: div_step_def st wval_op_shr)
  show "div_inv a b n (div_step n st)"
  proof (cases "wval d \<le> wval num")
    case True
    have sub: "wval (op_sub num d) = wval num - wval d"
      by (rule wval_op_sub_le) (use len True in auto)
    have "(wval q + 2 ^ n) * b + (wval num - b * 2 ^ n) = a"
      using sum True d by (simp add: algebra_simps)
    moreover have "wval num - b * 2 ^ n < b * 2 ^ n" using lt by simp
    moreover have "2 ^ n dvd wval q + 2 ^ n" using dvd' by simp
    ultimately show ?thesis
      using True len wval_set_bit [OF len(1) n dvd] sub d
      by (simp add: div_step_def div_inv_def st CompareTo_wval)
  next
    case False
    then show ?thesis using len sum d dvd' by (simp add: div_step_def div_inv_def st CompareTo_wval)
  qed
qed

lemma div_loop_inv:
  "div_inv a b (Suc n) st \<Longrightarrow> wval (snd (snd st)) = b * 2 ^ n \<Longrightarrow> n < 256 \<Longrightarrow> div_inv a b 0 (div_loop n st)"
proof (induction n arbitrary: st)
  case 0
  then show ?case using div_step_inv(1) [of a b 0 st] by simp
next
  case (Suc n)
  show ?case
    using Suc.IH [OF div_step_inv(1) [OF Suc.prems]] div_step_inv(2) [OF Suc.prems] Suc.prems(3) by simp
qed

lemma op_div_correct:
  assumes len: "length a = 8" "length b = 8"
  shows "wval b = 0 \<Longrightarrow> op_div a b = Inl ''Division by zero''"
    and "wval b \<noteq> 0 \<Longrightarrow> \<exists>q. op_div a b = Inr q \<and> length q = 8 \<and> wval q = wval a div wval b"
proof -
  show "wval b = 0 \<Longrightarrow> op_div a b = Inl ''Division by zero''" by (simp add: op_div_def bits_0_iff)
  assume nz: "wval b \<noteq> 0"
  show "\<exists>q. op_div a b = Inr q \<and> length q = 8 \<and> wval q = wval a div wval b"
  proof (cases "bits b > bits a")
    case True
    then have "wval a < 2 ^ (bits b - 1)"
      using wval_lt_bits [of a] power_increasing [of "bits a" "bits b - 1" "2 :: nat"] by linarith
    then have "wval a < wval b" using bits_range [OF nz] by linarith
    then show ?thesis using True nz by (simp add: op_div_def bits_0_iff Let_def)
  next
    case False
    let ?s = "bits a - bits b"
    have le: "bits a \<le> 256" using bits_le [of a 256] wval_lt32 [of a] len by simp
    have b1: "1 \<le> bits b" using nz bits_0_iff [of b] by linarith
    have "wval b * 2 ^ ?s < 2 ^ bits b * 2 ^ ?s" using wval_lt_bits [of b] by simp
    also have "\<dots> = 2 ^ bits a" using False by (simp flip: power_add)
    also have "\<dots> \<le> 2 ^ 256" using le by (rule power_increasing) simp
    finally have dv: "wval (op_shl b ?s) = wval b * 2 ^ ?s" using len by (simp add: wval_op_shl)
    have "wval a < 2 ^ bits a" by (rule wval_lt_bits)
    also have "\<dots> = 2 ^ (bits b - 1) * 2 ^ Suc ?s" using False b1 by (simp flip: power_add power_Suc)
    also have "\<dots> \<le> wval b * 2 ^ Suc ?s" using bits_range [OF nz] by simp
    finally have "div_inv (wval a) (wval b) (Suc ?s) (base_uint_zero, a, op_shl b ?s)"
      using len by (simp add: div_inv_def)
    then have "div_inv (wval a) (wval b) 0 (div_loop ?s (base_uint_zero, a, op_shl b ?s))"
      by (rule div_loop_inv) (use dv le b1 in auto)
    then obtain q num d where q: "div_loop ?s (base_uint_zero, a, op_shl b ?s) = (q, num, d)" "length q = 8"
      "wval q * wval b + wval num = wval a" "wval num < wval b"
      by (auto simp: div_inv_def split: prod.splits)
    have "wval q = wval a div wval b"
      by (rule div_nat_eqI [symmetric]) (use q(3,4) in \<open>auto simp: mult.commute\<close>)
    then show ?thesis using q False nz by (simp add: op_div_def bits_0_iff Let_def)
  qed
qed

section \<open>The compact encoding\<close>

text \<open>The value a compact number denotes: the mantissa scaled by the exponent, unbounded.\<close>

definition compact_value :: "u32 \<Rightarrow> nat" where
  "compact_value c = (unat c mod 2 ^ 23) * 256 ^ (unat c div 2 ^ 24) div 256 ^ 3"

lemma and_7fffff: "(c :: u32) AND 0x007fffff = take_bit 23 c"
proof -
  have "(0x007fffff :: u32) = mask 23" by (simp add: mask_eq_exp_minus_1)
  then show ?thesis by (simp add: take_bit_eq_mask)
qed

lemma and_800000: "(c :: u32) AND 0x00800000 \<noteq> 0 \<longleftrightarrow> bit c 23"
proof -
  have "(0x00800000 :: u32) = 2 ^ 23" by simp
  then show ?thesis by (simp only: and_exp_eq_0_iff_not_bit not_not)
qed

lemma scale_le3: "n \<le> 3 \<Longrightarrow> m * 256 ^ n div 256 ^ 3 = m div 2 ^ (8 * (3 - n))" for m n :: nat
proof -
  assume "n \<le> 3"
  then have e: "(256 :: nat) ^ 3 = 256 ^ (3 - n) * 256 ^ n" by (simp only: flip: power_add) simp
  have "m * 256 ^ n div (256 ^ (3 - n) * 256 ^ n) = m div 256 ^ (3 - n)" by simp
  then show ?thesis by (simp only: e [symmetric]) (simp add: power_mult)
qed

lemma scale_gt3: "n > 3 \<Longrightarrow> m * 256 ^ n div 256 ^ 3 = m * 2 ^ (8 * (n - 3))" for m n :: nat
proof -
  assume "n > 3"
  then have e: "(256 :: nat) ^ n = 256 ^ (n - 3) * 256 ^ 3" by (simp only: flip: power_add) simp
  have "m * 256 ^ n div 256 ^ 3 = (m * 256 ^ (n - 3)) * 256 ^ 3 div 256 ^ 3" by (simp only: e mult.assoc)
  also have "\<dots> = m * 256 ^ (n - 3)" by (rule nonzero_mult_div_cancel_right) simp
  finally show ?thesis by (simp add: power_mult)
qed

lemma compact_value_cases:
  shows compact_value_le3: "unat c div 2 ^ 24 \<le> 3 \<Longrightarrow> compact_value c = (unat c mod 2 ^ 23) div 2 ^ (8 * (3 - unat c div 2 ^ 24))"
    and compact_value_gt3: "unat c div 2 ^ 24 > 3 \<Longrightarrow> compact_value c = (unat c mod 2 ^ 23) * 2 ^ (8 * (unat c div 2 ^ 24 - 3))"
  unfolding compact_value_def by (rule scale_le3 scale_gt3, assumption)+

lemma compact_overflow:
  fixes m n :: nat
  assumes "m < 2 ^ 23" "m \<noteq> 0" "n > 3"
  shows "(n > 34 \<or> m > 0xff \<and> n > 33 \<or> m > 0xffff \<and> n > 32) \<longleftrightarrow> m * 2 ^ (8 * (n - 3)) \<ge> 2 ^ 256"
proof -
  consider "n > 34" | "n = 34" | "n = 33" | "n \<le> 32" by linarith
  then show ?thesis
  proof cases
    case 1
    then have "(2 :: nat) ^ 256 \<le> 2 ^ (8 * (n - 3))" by (intro power_increasing) auto
    also have "\<dots> \<le> m * 2 ^ (8 * (n - 3))" using assms(2) by simp
    finally show ?thesis using 1 by simp
  next
    case 4
    then have "(2 :: nat) ^ (8 * (n - 3)) \<le> 2 ^ 232" by (intro power_increasing) auto
    then have "m * 2 ^ (8 * (n - 3)) \<le> 2 ^ 23 * 2 ^ 232" using assms(1) by (intro mult_le_mono) auto
    then show ?thesis using 4 by simp
  qed auto
qed

lemma SetCompact_value:
  "SetCompact c = (r, neg, ovf) \<Longrightarrow> length r = 8 \<and> wval r = compact_value c mod 2 ^ 256
     \<and> (ovf \<longleftrightarrow> compact_value c \<ge> 2 ^ 256) \<and> (neg \<longleftrightarrow> bit c 23 \<and> compact_value c \<noteq> 0)"
proof -
  assume s: "SetCompact c = (r, neg, ovf)"
  let ?n = "unat c div 2 ^ 24" and ?m = "unat c mod 2 ^ 23"
  have n: "unat (drop_bit 24 c) = ?n" by (rule unat_shr)
  have m: "unat (c AND 0x007fffff) = ?m" by (simp add: and_7fffff unat_take_bit)
  show ?thesis
  proof (cases "?n \<le> 3")
    case True
    let ?w = "drop_bit (8 * (3 - ?n)) (c AND 0x007fffff)"
    have w: "unat ?w = compact_value c" unfolding unat_shr m compact_value_le3 [OF True] ..
    then have nz: "?w \<noteq> 0 \<longleftrightarrow> compact_value c \<noteq> 0" by (metis unat_eq_0)
    have lt: "compact_value c < 2 ^ 256" using unat_lt2p [of ?w] w by simp
    have e: "r = base_uint_of (ucast ?w)" "neg = (?w \<noteq> 0 \<and> c AND 0x00800000 \<noteq> 0)"
      "ovf = (?w \<noteq> 0 \<and> (?n > 34 \<or> ?w > 0xff \<and> ?n > 33 \<or> ?w > 0xffff \<and> ?n > 32))"
      using s unfolding SetCompact_def Let_def n if_P [OF True] by (simp_all only: prod.inject)
    show ?thesis unfolding e and_800000 nz using True lt w by auto
  next
    case False
    let ?w = "c AND 0x007fffff"
    have v: "compact_value c = unat ?w * 2 ^ (8 * (?n - 3))" using False compact_value_gt3 [of c] m by simp
    have cmp: "?w > 0xff \<longleftrightarrow> unat ?w > 0xff" "?w > 0xffff \<longleftrightarrow> unat ?w > 0xffff"
      by (simp_all add: word_less_nat_alt)
    have nz: "?w \<noteq> 0 \<longleftrightarrow> compact_value c \<noteq> 0" unfolding v by (simp add: unat_eq_0)
    have ov: "(?w \<noteq> 0 \<and> (?n > 34 \<or> ?w > 0xff \<and> ?n > 33 \<or> ?w > 0xffff \<and> ?n > 32)) \<longleftrightarrow> compact_value c \<ge> 2 ^ 256"
    proof (cases "?w = 0")
      case True
      then show ?thesis unfolding v by simp
    next
      case nz: False
      have "unat ?w \<noteq> 0" using nz by (simp only: unat_eq_0 not_False_eq_True)
      moreover have "unat ?w < 2 ^ 23" unfolding m by simp
      ultimately show ?thesis
        using compact_overflow [of "unat ?w" ?n] False nz unfolding v cmp by (simp only: not_le not_False_eq_True simp_thms)
    qed
    have e: "r = op_shl (base_uint_of (ucast ?w)) (8 * (?n - 3))" "neg = (?w \<noteq> 0 \<and> c AND 0x00800000 \<noteq> 0)"
      "ovf = (?w \<noteq> 0 \<and> (?n > 34 \<or> ?w > 0xff \<and> ?n > 33 \<or> ?w > 0xffff \<and> ?n > 32))"
      using s unfolding SetCompact_def Let_def n if_not_P [OF False] by (simp_all only: prod.inject)
    have "length r = 8" "wval r = compact_value c mod 2 ^ 256" unfolding e(1) using v by (simp_all add: wval_op_shl)
    moreover have "ovf \<longleftrightarrow> compact_value c \<ge> 2 ^ 256" using e(3) ov by (rule trans)
    moreover have "neg \<longleftrightarrow> bit c 23 \<and> compact_value c \<noteq> 0" using e(2) and_800000 [of c] nz by blast
    ultimately show ?thesis by blast
  qed
qed

lemma unat_GetLow64: "length pn = 8 \<Longrightarrow> unat (GetLow64 pn) = wval pn mod 2 ^ 64"
proof -
  assume len: "length pn = 8"
  have hi: "unat (push_bit 32 (ucast (pn ! 1)) :: u64) = 2 ^ 32 * unat (pn ! 1)"
    unfolding unat_shl using unat_lt2p [of "pn ! 1"] by simp
  have "GetLow64 pn = ucast (pn ! 0) + push_bit 32 (ucast (pn ! 1))"
    unfolding GetLow64_def by (rule disjunctive_add [symmetric]) (auto simp: bit_simps dest: bit_imp_le_length)
  then have low: "unat (GetLow64 pn) = unat (pn ! 0) + 2 ^ 32 * unat (pn ! 1)"
    using unat_lt2p [of "pn ! 0"] unat_lt2p [of "pn ! 1"] by (simp add: unat_word_ariths(1) hi del: One_nat_def)
  have split: "pn = [pn ! 0, pn ! 1] @ drop 2 pn"
    using len by (cases pn; cases "tl pn") (auto simp: numeral_2_eq_2)
  have "wval pn = unat (pn ! 0) + 2 ^ 32 * unat (pn ! 1) + 2 ^ 64 * wval (drop 2 pn)"
    by (subst split) (simp add: wval_append)
  then show ?thesis using low unat_lt2p [of "GetLow64 pn"] by simp
qed

lemma compact_mantissa:
  assumes len: "length pn = 8"
  defines "k \<equiv> (bits pn + 7) div 8"
  defines "c \<equiv> GetCompact_word pn k"
  shows "unat c = wval pn * 256 ^ 3 div 256 ^ k" "unat c < 2 ^ 24"
proof -
  have "bits pn \<le> 8 * k" unfolding k_def by linarith
  then have "(2 :: nat) ^ bits pn \<le> 2 ^ (8 * k)" by (rule power_increasing) simp
  then have x: "wval pn < 2 ^ (8 * k)" using wval_lt_bits [of pn] by linarith
  have "unat c = wval pn * 256 ^ 3 div 256 ^ k \<and> unat c < 2 ^ 24"
  proof (cases "k \<le> 3")
    case True
    then have e: "(256 :: nat) ^ 3 = 256 ^ (3 - k) * 256 ^ k" by (simp only: flip: power_add) simp
    have "wval pn * 2 ^ (8 * (3 - k)) < 2 ^ (8 * k) * 2 ^ (8 * (3 - k))" using x by simp
    also have "\<dots> = 2 ^ (8 * k + 8 * (3 - k))" by (simp only: power_add)
    also have "8 * k + 8 * (3 - k) = 24" using True by simp
    finally have lt: "wval pn * 2 ^ (8 * (3 - k)) < 2 ^ 24" .
    have "2 ^ (8 * k) \<le> (2 :: nat) ^ 64" using True by (intro power_increasing) auto
    then have "wval pn < 2 ^ 64" using x by linarith
    then have "unat (GetLow64 pn) = wval pn" using len by (simp add: unat_GetLow64)
    then have "unat c = wval pn * 2 ^ (8 * (3 - k))"
      unfolding c_def GetCompact_word_def if_P [OF True] unat_ucast64_32 unat_shl using lt by simp
    moreover have "wval pn * 256 ^ 3 div 256 ^ k = wval pn * 2 ^ (8 * (3 - k))"
      unfolding e by (simp add: power_mult mult.assoc [symmetric])
    ultimately show ?thesis using lt by simp
  next
    case False
    let ?y = "wval pn div 2 ^ (8 * (k - 3))"
    have "8 * k = 24 + 8 * (k - 3)" using False by simp
    then have "(2 :: nat) ^ (8 * k) = 2 ^ 24 * 2 ^ (8 * (k - 3))" by (simp only: power_add)
    then have lt: "?y < 2 ^ 24" using x by (intro less_mult_imp_div_less) simp
    have "unat c = ?y" using False lt len by (simp add: c_def GetCompact_word_def unat_ucast64_32 unat_GetLow64 wval_op_shr)
    moreover have "wval pn * 256 ^ 3 div 256 ^ k = ?y"
    proof -
      have e: "(256 :: nat) ^ k = 256 ^ (k - 3) * 256 ^ 3" using False by (simp only: flip: power_add) simp
      have "wval pn * 256 ^ 3 div (256 ^ (k - 3) * 256 ^ 3) = wval pn div 256 ^ (k - 3)"
        by (rule div_mult_mult2) simp
      then show ?thesis by (simp only: e power_mult) simp
    qed
    ultimately show ?thesis using lt by simp
  qed
  then show "unat c = wval pn * 256 ^ 3 div 256 ^ k" "unat c < 2 ^ 24" by blast+
qed

lemma compact_pack:
  fixes c1 :: u32 and sgn :: bool
  assumes c1: "unat c1 < 2 ^ 23" and n: "n < 256"
  defines "c \<equiv> c1 OR push_bit 24 (word_of_nat n) OR (if sgn then 0x00800000 else 0)"
  shows "unat c div 2 ^ 24 = n" "unat c mod 2 ^ 23 = unat c1" "bit c 23 = sgn"
proof -
  have s: "(0x00800000 :: u32) = push_bit 23 1" by simp
  have un: "unat (word_of_nat n :: u32) = n" using n by (simp add: unat_of_nat)
  then have "unat (word_of_nat n :: u32) < 2 ^ 8" using n by simp
  note ln = bit_lt [OF this] and lc = bit_lt [OF c1]
  have "drop_bit 24 c = word_of_nat n"
  proof (rule bit_eqI)
    fix i
    show "bit (drop_bit 24 c) i = bit (word_of_nat n :: u32) i"
      unfolding c_def s using lc [of "24 + i"] ln [of i]
      by (cases sgn) (auto simp: bit_or_iff bit_drop_bit_eq bit_push_bit_iff bit_1_iff bit_take_bit_iff)
  qed
  then have "unat (drop_bit 24 c) = n" using un by simp
  then show "unat c div 2 ^ 24 = n" by (simp only: unat_shr)
  have "take_bit 23 c = c1"
  proof (rule bit_eqI)
    fix i
    show "bit (take_bit 23 c) i = bit c1 i"
      unfolding c_def s using lc [of i]
      by (cases sgn) (auto simp: bit_or_iff bit_push_bit_iff bit_1_iff bit_take_bit_iff)
  qed
  then show "unat c mod 2 ^ 23 = unat c1" by (metis unat_take_bit)
  show "bit c 23 = sgn"
    unfolding c_def s using lc [of 23] by (cases sgn) (auto simp: bit_or_iff bit_push_bit_iff bit_1_iff)
qed

lemma compact_normal:
  assumes len: "length pn = 8" and nz: "wval pn \<noteq> 0"
  defines "k \<equiv> (bits pn + 7) div 8"
  defines "c \<equiv> GetCompact_word pn k"
  shows "\<exists>c1. (if c AND 0x00800000 \<noteq> 0 then (drop_bit 8 c, k + 1) else (c, k)) = (c1, bits pn div 8 + 1)
    \<and> unat c1 < 2 ^ 23 \<and> unat c1 = wval pn * 256 ^ 3 div 256 ^ (bits pn div 8 + 1)"
proof -
  note mant = compact_mantissa [OF len, folded k_def, folded c_def]
  note range = bits_range [OF nz]
  have b1: "1 \<le> bits pn" using bits_0_iff [of pn] nz by linarith
  have pow: "(256 :: nat) ^ k = 2 ^ (8 * k)" by (simp add: power_mult)
  have top: "bit c 23 \<longleftrightarrow> bits pn = 8 * k"
  proof -
    have "bit c 23 \<longleftrightarrow> 2 ^ 23 \<le> wval pn * 256 ^ 3 div 256 ^ k" using bit_top [of c 23] mant by simp
    also have "\<dots> \<longleftrightarrow> 2 ^ (8 * k) \<le> 2 * wval pn"
      unfolding pow by (subst less_eq_div_iff_mult_less_eq) auto
    also have "\<dots> \<longleftrightarrow> bits pn = 8 * k"
    proof (cases "bits pn = 8 * k")
      case True
      then have "(2 :: nat) ^ (8 * k) = 2 * 2 ^ (bits pn - 1)" using b1 by (simp flip: power_Suc)
      then show ?thesis using True range by linarith
    next
      case False
      then have "Suc (bits pn) \<le> 8 * k" unfolding k_def by linarith
      then have "(2 :: nat) ^ Suc (bits pn) \<le> 2 ^ (8 * k)" by (rule power_increasing) simp
      then show ?thesis using False range by simp
    qed
    finally show ?thesis .
  qed
  show ?thesis
  proof (cases "bits pn = 8 * k")
    case True
    then have "k + 1 = bits pn div 8 + 1" by simp
    moreover have "unat (drop_bit 8 c) = wval pn * 256 ^ 3 div 256 ^ (k + 1)"
      unfolding unat_shr mant(1) by (simp add: div_mult2_eq [symmetric] mult.commute)
    moreover have "unat (drop_bit 8 c) < 2 ^ 23"
      unfolding unat_shr using mant(2) by (intro less_mult_imp_div_less) simp
    ultimately show ?thesis using True top by (simp only: and_800000) simp
  next
    case False
    then have "k = bits pn div 8 + 1" unfolding k_def by linarith
    moreover have "unat c < 2 ^ 23" using False top bit_top [of c 23] mant(2) by simp
    ultimately show ?thesis using False top mant(1) by (simp only: and_800000) simp
  qed
qed

lemma scale_round:
  fixes x n :: nat
  shows "x * 256 ^ 3 div 256 ^ n * 256 ^ n div 256 ^ 3 = x div 256 ^ (n - 3) * 256 ^ (n - 3)"
proof (cases "n \<le> 3")
  case True
  then have e: "(256 :: nat) ^ 3 = 256 ^ (3 - n) * 256 ^ n" by (simp only: flip: power_add) simp
  have "x * 256 ^ 3 div 256 ^ n * 256 ^ n = x * 256 ^ 3"
    unfolding e by (simp add: mult.assoc [symmetric])
  then show ?thesis using True by simp
next
  case False
  then have e: "(256 :: nat) ^ n = 256 ^ (n - 3) * 256 ^ 3" by (simp only: flip: power_add) simp
  have "x * 256 ^ 3 div 256 ^ n = x div 256 ^ (n - 3)" unfolding e by (rule div_mult_mult2) simp
  then show ?thesis using False scale_gt3 [of n "x div 256 ^ (n - 3)"] by (simp only: power_mult) simp
qed

lemma GetCompact_value:
  assumes len: "length pn = 8"
  defines "e \<equiv> bits pn div 8 - 2"
  shows "\<exists>c. GetCompact pn neg = Some c \<and> compact_value c = wval pn div 256 ^ e * 256 ^ e
    \<and> (bit c 23 \<longleftrightarrow> neg \<and> wval pn \<noteq> 0)"
proof (cases "wval pn = 0")
  case True
  then have "bits pn = 0" by (simp add: bits_0_iff)
  moreover have "GetLow64 pn = 0" using unat_GetLow64 [OF len] True by (simp add: unat_eq_0)
  ultimately show ?thesis using True by (simp add: GetCompact_def GetCompact_word_def compact_value_def)
next
  case False
  let ?n = "bits pn div 8 + 1"
  let ?k = "(bits pn + 7) div 8"
  obtain c1 where c1: "(if GetCompact_word pn ?k AND 0x00800000 \<noteq> 0 then (drop_bit 8 (GetCompact_word pn ?k), ?k + 1)
      else (GetCompact_word pn ?k, ?k)) = (c1, ?n)"
    "unat c1 < 2 ^ 23" "unat c1 = wval pn * 256 ^ 3 div 256 ^ ?n"
    using compact_normal [OF len False] by blast
  have n: "?n < 256" using bits_le [of pn 256] wval_lt32 [of pn] len by simp
  have le: "8 * ?n \<le> bits pn - 1 + 24"
    using times_div_less_eq_dividend [of 8 "bits pn"] by simp
  have "(256 :: nat) ^ ?n = 2 ^ (8 * ?n)" by (simp only: power_mult) simp
  also have "\<dots> \<le> 2 ^ (bits pn - 1 + 24)" by (rule power_increasing [OF le]) simp
  also have "\<dots> \<le> wval pn * 256 ^ 3" using bits_range [OF False] by (simp add: power_add)
  finally have "0 < unat c1" unfolding c1(3) by (simp only: div_greater_zero_iff zero_less_power)
  then have nz: "unat c1 \<noteq> 0" by simp
  have "(c1 AND 0x007fffff) AND NOT 0x007fffff = 0" by (simp add: and.assoc)
  then have as: "c1 AND NOT 0x007fffff = 0" using take_bit_self [OF c1(2)] by (simp only: and_7fffff)
  let ?c2 = "c1 OR push_bit 24 (word_of_nat ?n)"
  have "unat (?c2 AND 0x007fffff) = unat c1"
    unfolding and_7fffff unat_take_bit using compact_pack(2) [OF c1(2) n, of False] by simp
  then have mant: "?c2 AND 0x007fffff \<noteq> 0" using nz by (metis unat_0)
  let ?c = "?c2 OR (if neg then 0x00800000 else 0)"
  have "GetCompact pn neg = Some ?c"
    unfolding GetCompact_def Let_def c1(1) prod.case using as n mant by simp
  moreover have "compact_value ?c = wval pn div 256 ^ e * 256 ^ e"
    using compact_pack [OF c1(2) n, of neg] scale_round [of "wval pn" ?n]
    unfolding compact_value_def or.assoc c1(3) e_def by simp
  moreover have "bit ?c 23 \<longleftrightarrow> neg \<and> wval pn \<noteq> 0"
    using compact_pack(3) [OF c1(2) n, of neg] False unfolding or.assoc by simp
  ultimately show ?thesis by blast
qed

section \<open>Conversion\<close>

lemma length_ArithToUint256 [simp]: "length (ArithToUint256 a) = 4 * length a"
  by (induction a) (simp_all add: ArithToUint256_def)

lemma drop_ArithToUint256: "i \<le> length a \<Longrightarrow> drop (i * 4) (ArithToUint256 a) = ArithToUint256 (drop i a)"
proof (induction i arbitrary: a)
  case (Suc i)
  then obtain w ws where "a = w # ws" by (cases a) auto
  with Suc show ?case by (simp add: ArithToUint256_def)
qed simp

lemma UintToArith256_ArithToUint256: "length a = 8 \<Longrightarrow> UintToArith256 (ArithToUint256 a) = a"
proof (rule nth_equalityI)
  fix i
  assume len: "length a = 8" and "i < length (UintToArith256 (ArithToUint256 a))"
  then have i: "i < 8" by (simp add: UintToArith256_def WIDTH_def)
  then have "drop i a = a ! i # drop (Suc i) a" using len by (simp add: Cons_nth_drop_Suc)
  then have "ReadLE32 (drop (i * 4) (ArithToUint256 a)) = a ! i"
    using len i by (simp add: drop_ArithToUint256) (simp add: ArithToUint256_def)
  then show "UintToArith256 (ArithToUint256 a) ! i = a ! i"
    using i by (simp add: UintToArith256_def WIDTH_def)
qed (simp add: UintToArith256_def WIDTH_def)

section \<open>Properties\<close>

lemma int_mod_sub: "b \<le> m \<Longrightarrow> int ((a + (m - b)) mod m) = (int a - int b) mod int m"
proof -
  assume "b \<le> m"
  then have "int (a + (m - b)) = (int a - int b) + int m" by simp
  then show ?thesis unfolding zmod_int by (simp only: mod_add_self2)
qed

text \<open>
  C10. The limb arithmetic computes in the integers modulo \<open>2 ^ 256\<close>: addition, negation,
  subtraction and both multiplications, with their carries in 64 bit words, shifts across limb
  boundaries by any amount, and the comparison.
\<close>

theorem arith_uint256_correct:
  assumes "length a = 8" "length b = 8"
  shows "wval (op_add a b) = (wval a + wval b) mod 2 ^ 256
    \<and> int (wval (op_neg a)) = - int (wval a) mod 2 ^ 256
    \<and> int (wval (op_sub a b)) = (int (wval a) - int (wval b)) mod 2 ^ 256
    \<and> wval (op_mul a b) = wval a * wval b mod 2 ^ 256
    \<and> wval (op_mul32 a c) = wval a * unat c mod 2 ^ 256
    \<and> wval (op_shl a n) = wval a * 2 ^ n mod 2 ^ 256
    \<and> wval (op_shr a n) = wval a div 2 ^ n
    \<and> CompareTo a b = sgn (int (wval a) - int (wval b))"
proof -
  have ne: "a \<noteq> []" using assms by auto
  have le: "wval a \<le> 2 ^ 256" "wval b \<le> 2 ^ 256" using wval_lt32 [of a] wval_lt32 [of b] assms by simp_all
  have "int (wval (op_neg a)) = - int (wval a) mod 2 ^ 256"
    using wval_op_neg [OF ne] int_mod_sub [OF le(1), of 0] assms by simp
  moreover have "int (wval (op_sub a b)) = (int (wval a) - int (wval b)) mod 2 ^ 256"
    using wval_op_sub [of a b] ne assms int_mod_sub [OF le(2), of "wval a"] by simp
  moreover have "CompareTo a b = sgn (int (wval a) - int (wval b))"
    using assms by (simp add: CompareTo_wval sgn_if)
  ultimately show ?thesis
    using assms by (simp add: wval_op_add wval_op_mul wval_op_mul32 wval_op_shl wval_op_shr)
qed

theorem arith_uint256_correct_witness:
  "wval (op_mul (replicate 8 0xffffffff) (base_uint_of 0xffffffffffffffff))
    = wval (replicate 8 (0xffffffff :: u32)) * wval (base_uint_of 0xffffffffffffffff) mod 2 ^ 256"
  using arith_uint256_correct [of "replicate 8 0xffffffff" "base_uint_of 0xffffffffffffffff"]
  by (simp only: length_replicate length_base_uint_of)

text \<open>
  C15. Long division: a zero divisor raises \<^verbatim>\<open>uint_error\<close>; otherwise the shift and subtract loop ends
  with the integer quotient.
\<close>

theorem op_div_spec:
  assumes "length a = 8" "length b = 8"
  shows "case op_div a b of Inl e \<Rightarrow> wval b = 0 \<and> e = ''Division by zero''
    | Inr q \<Rightarrow> wval b \<noteq> 0 \<and> length q = 8 \<and> wval q = wval a div wval b"
  using op_div_correct [OF assms] by (cases "wval b = 0") auto

theorem op_div_spec_witness:
  "case op_div (replicate 8 0xffffffff) (base_uint_of 10) of Inl e \<Rightarrow> wval (base_uint_of 10) = 0 \<and> e = ''Division by zero''
    | Inr q \<Rightarrow> wval (base_uint_of 10) \<noteq> 0 \<and> length q = 8 \<and> wval q = wval (replicate 8 (0xffffffff :: u32)) div wval (base_uint_of 10)"
  by (rule op_div_spec) simp_all

text \<open>
  C37. \<^verbatim>\<open>SetCompact\<close> decodes a compact number to its value modulo \<open>2 ^ 256\<close>; its overflow flag is set
  exactly when the value does not fit 256 bits and its sign flag exactly for a non-zero value
  with the sign bit.
\<close>

theorem SetCompact_spec:
  "case SetCompact c of (r, neg, ovf) \<Rightarrow> length r = 8 \<and> wval r = compact_value c mod 2 ^ 256
     \<and> (ovf \<longleftrightarrow> compact_value c \<ge> 2 ^ 256) \<and> (neg \<longleftrightarrow> bit c 23 \<and> compact_value c \<noteq> 0)"
  using SetCompact_value [of c] by (cases "SetCompact c") auto

text \<open>
  C28. Round trip of the compact encoding: \<^verbatim>\<open>GetCompact\<close> never violates its assertions, and decoding its
  result gives the number back with all but its leading two to three bytes cleared, without
  overflow, and with the sign asked for unless the number is zero.
\<close>

theorem compact_roundtrip:
  assumes len: "length pn = 8"
  defines "e \<equiv> bits pn div 8 - 2"
  shows "\<exists>c r. GetCompact pn neg = Some c \<and> SetCompact c = (r, neg \<and> wval pn \<noteq> 0, False)
    \<and> wval r = wval pn div 256 ^ e * 256 ^ e"
proof -
  obtain c where c: "GetCompact pn neg = Some c" "compact_value c = wval pn div 256 ^ e * 256 ^ e"
    "bit c 23 \<longleftrightarrow> neg \<and> wval pn \<noteq> 0"
    using GetCompact_value [OF len, of neg] by (auto simp: e_def)
  have "compact_value c \<le> wval pn" unfolding c(2) by simp
  then have lt: "compact_value c < 2 ^ 256" using wval_lt32 [of pn] len by simp
  have nz: "compact_value c \<noteq> 0 \<longleftrightarrow> wval pn \<noteq> 0"
  proof
    assume "wval pn \<noteq> 0"
    then have "2 ^ (bits pn - 1) \<le> wval pn" "1 \<le> bits pn" using bits_range [of pn] bits_0_iff [of pn] by auto
    moreover have "8 * e \<le> bits pn - 1" unfolding e_def using times_div_less_eq_dividend [of 8 "bits pn"] calculation(2) by simp
    then have "256 ^ e \<le> (2 :: nat) ^ (bits pn - 1)" using power_increasing [of "8 * e" "bits pn - 1" "2 :: nat"] by (simp add: power_mult)
    ultimately have "256 ^ e \<le> wval pn" by linarith
    then show "compact_value c \<noteq> 0" unfolding c(2) by (simp add: div_eq_0_iff)
  qed (use \<open>compact_value c \<le> wval pn\<close> in simp)
  obtain r ng ov where s: "SetCompact c = (r, ng, ov)" by (cases "SetCompact c")
  show ?thesis using SetCompact_value [OF s] s c lt nz by auto
qed

theorem compact_roundtrip_witness:
  "\<exists>c r. GetCompact (base_uint_of 0x123456789a) True = Some c \<and>
     SetCompact c = (r, True \<and> wval (base_uint_of 0x123456789a) \<noteq> 0, False)
     \<and> wval r = wval (base_uint_of 0x123456789a) div 256 ^ (bits (base_uint_of 0x123456789a) div 8 - 2)
         * 256 ^ (bits (base_uint_of 0x123456789a) div 8 - 2)"
  by (rule compact_roundtrip) simp

end
