(* ===== verification/Script.thy ===== *)
theory Script
  imports Wallet_Prelude
begin

text \<open>
  \<^verbatim>\<open>libwallet/script/script.h\<close> and \<^verbatim>\<open>script.cpp\<close>: opcodes, script numbers, script construction
  and parsing, and the queries on scripts.

  A script is the list of its bytes. An iterator \<^verbatim>\<open>pc\<close> into a script is the suffix of bytes
  that it still has to read, so that \<^verbatim>\<open>pc == end()\<close> is the empty list. \<^verbatim>\<open>GetOp2\<close> returns
  \<open>None\<close> for false, and otherwise the opcode, its immediate data and the advanced iterator.
  The \<^verbatim>\<open>int64_t\<close> in a \<^verbatim>\<open>CScriptNum\<close> is an \<open>int\<close>; where the source asserts that an operation
  stays in range, the assertion is kept.
\<close>

section \<open>Limits and opcodes\<close>

definition MAX_SCRIPT_ELEMENT_SIZE :: nat where
  "MAX_SCRIPT_ELEMENT_SIZE = 520"

definition MAX_OPS_PER_SCRIPT :: nat where
  "MAX_OPS_PER_SCRIPT = 201"

definition MAX_PUBKEYS_PER_MULTISIG :: nat where
  "MAX_PUBKEYS_PER_MULTISIG = 20"

definition MAX_SCRIPT_SIZE :: nat where
  "MAX_SCRIPT_SIZE = 10000"

definition LOCKTIME_THRESHOLD :: int where
  "LOCKTIME_THRESHOLD = 500000000"

text \<open>The enumeration \<^verbatim>\<open>opcodetype\<close>; an opcode read from a script is one byte.\<close>

abbreviation (input) OP_0 :: byte where
  "OP_0 \<equiv> 0x00"

abbreviation (input) OP_FALSE :: byte where
  "OP_FALSE \<equiv> OP_0"

abbreviation (input) OP_PUSHDATA1 :: byte where
  "OP_PUSHDATA1 \<equiv> 0x4c"

abbreviation (input) OP_PUSHDATA2 :: byte where
  "OP_PUSHDATA2 \<equiv> 0x4d"

abbreviation (input) OP_PUSHDATA4 :: byte where
  "OP_PUSHDATA4 \<equiv> 0x4e"

abbreviation (input) OP_1NEGATE :: byte where
  "OP_1NEGATE \<equiv> 0x4f"

abbreviation (input) OP_RESERVED :: byte where
  "OP_RESERVED \<equiv> 0x50"

abbreviation (input) OP_1 :: byte where
  "OP_1 \<equiv> 0x51"

abbreviation (input) OP_TRUE :: byte where
  "OP_TRUE \<equiv> OP_1"

abbreviation (input) OP_2 :: byte where
  "OP_2 \<equiv> 0x52"

abbreviation (input) OP_3 :: byte where
  "OP_3 \<equiv> 0x53"

abbreviation (input) OP_4 :: byte where
  "OP_4 \<equiv> 0x54"

abbreviation (input) OP_5 :: byte where
  "OP_5 \<equiv> 0x55"

abbreviation (input) OP_6 :: byte where
  "OP_6 \<equiv> 0x56"

abbreviation (input) OP_7 :: byte where
  "OP_7 \<equiv> 0x57"

abbreviation (input) OP_8 :: byte where
  "OP_8 \<equiv> 0x58"

abbreviation (input) OP_9 :: byte where
  "OP_9 \<equiv> 0x59"

abbreviation (input) OP_10 :: byte where
  "OP_10 \<equiv> 0x5a"

abbreviation (input) OP_11 :: byte where
  "OP_11 \<equiv> 0x5b"

abbreviation (input) OP_12 :: byte where
  "OP_12 \<equiv> 0x5c"

abbreviation (input) OP_13 :: byte where
  "OP_13 \<equiv> 0x5d"

abbreviation (input) OP_14 :: byte where
  "OP_14 \<equiv> 0x5e"

abbreviation (input) OP_15 :: byte where
  "OP_15 \<equiv> 0x5f"

abbreviation (input) OP_16 :: byte where
  "OP_16 \<equiv> 0x60"

abbreviation (input) OP_NOP :: byte where
  "OP_NOP \<equiv> 0x61"

abbreviation (input) OP_VER :: byte where
  "OP_VER \<equiv> 0x62"

abbreviation (input) OP_IF :: byte where
  "OP_IF \<equiv> 0x63"

abbreviation (input) OP_NOTIF :: byte where
  "OP_NOTIF \<equiv> 0x64"

abbreviation (input) OP_VERIF :: byte where
  "OP_VERIF \<equiv> 0x65"

abbreviation (input) OP_VERNOTIF :: byte where
  "OP_VERNOTIF \<equiv> 0x66"

abbreviation (input) OP_ELSE :: byte where
  "OP_ELSE \<equiv> 0x67"

abbreviation (input) OP_ENDIF :: byte where
  "OP_ENDIF \<equiv> 0x68"

abbreviation (input) OP_VERIFY :: byte where
  "OP_VERIFY \<equiv> 0x69"

abbreviation (input) OP_RETURN :: byte where
  "OP_RETURN \<equiv> 0x6a"

abbreviation (input) OP_TOALTSTACK :: byte where
  "OP_TOALTSTACK \<equiv> 0x6b"

abbreviation (input) OP_FROMALTSTACK :: byte where
  "OP_FROMALTSTACK \<equiv> 0x6c"

abbreviation (input) OP_2DROP :: byte where
  "OP_2DROP \<equiv> 0x6d"

abbreviation (input) OP_2DUP :: byte where
  "OP_2DUP \<equiv> 0x6e"

abbreviation (input) OP_3DUP :: byte where
  "OP_3DUP \<equiv> 0x6f"

abbreviation (input) OP_2OVER :: byte where
  "OP_2OVER \<equiv> 0x70"

abbreviation (input) OP_2ROT :: byte where
  "OP_2ROT \<equiv> 0x71"

abbreviation (input) OP_2SWAP :: byte where
  "OP_2SWAP \<equiv> 0x72"

abbreviation (input) OP_IFDUP :: byte where
  "OP_IFDUP \<equiv> 0x73"

abbreviation (input) OP_DEPTH :: byte where
  "OP_DEPTH \<equiv> 0x74"

abbreviation (input) OP_DROP :: byte where
  "OP_DROP \<equiv> 0x75"

abbreviation (input) OP_DUP :: byte where
  "OP_DUP \<equiv> 0x76"

abbreviation (input) OP_NIP :: byte where
  "OP_NIP \<equiv> 0x77"

abbreviation (input) OP_OVER :: byte where
  "OP_OVER \<equiv> 0x78"

abbreviation (input) OP_PICK :: byte where
  "OP_PICK \<equiv> 0x79"

abbreviation (input) OP_ROLL :: byte where
  "OP_ROLL \<equiv> 0x7a"

abbreviation (input) OP_ROT :: byte where
  "OP_ROT \<equiv> 0x7b"

abbreviation (input) OP_SWAP :: byte where
  "OP_SWAP \<equiv> 0x7c"

abbreviation (input) OP_TUCK :: byte where
  "OP_TUCK \<equiv> 0x7d"

abbreviation (input) OP_CAT :: byte where
  "OP_CAT \<equiv> 0x7e"

abbreviation (input) OP_SUBSTR :: byte where
  "OP_SUBSTR \<equiv> 0x7f"

abbreviation (input) OP_LEFT :: byte where
  "OP_LEFT \<equiv> 0x80"

abbreviation (input) OP_RIGHT :: byte where
  "OP_RIGHT \<equiv> 0x81"

abbreviation (input) OP_SIZE :: byte where
  "OP_SIZE \<equiv> 0x82"

abbreviation (input) OP_INVERT :: byte where
  "OP_INVERT \<equiv> 0x83"

abbreviation (input) OP_AND :: byte where
  "OP_AND \<equiv> 0x84"

abbreviation (input) OP_OR :: byte where
  "OP_OR \<equiv> 0x85"

abbreviation (input) OP_XOR :: byte where
  "OP_XOR \<equiv> 0x86"

abbreviation (input) OP_EQUAL :: byte where
  "OP_EQUAL \<equiv> 0x87"

abbreviation (input) OP_EQUALVERIFY :: byte where
  "OP_EQUALVERIFY \<equiv> 0x88"

abbreviation (input) OP_RESERVED1 :: byte where
  "OP_RESERVED1 \<equiv> 0x89"

abbreviation (input) OP_RESERVED2 :: byte where
  "OP_RESERVED2 \<equiv> 0x8a"

abbreviation (input) OP_1ADD :: byte where
  "OP_1ADD \<equiv> 0x8b"

abbreviation (input) OP_1SUB :: byte where
  "OP_1SUB \<equiv> 0x8c"

abbreviation (input) OP_2MUL :: byte where
  "OP_2MUL \<equiv> 0x8d"

abbreviation (input) OP_2DIV :: byte where
  "OP_2DIV \<equiv> 0x8e"

abbreviation (input) OP_NEGATE :: byte where
  "OP_NEGATE \<equiv> 0x8f"

abbreviation (input) OP_ABS :: byte where
  "OP_ABS \<equiv> 0x90"

abbreviation (input) OP_NOT :: byte where
  "OP_NOT \<equiv> 0x91"

abbreviation (input) OP_0NOTEQUAL :: byte where
  "OP_0NOTEQUAL \<equiv> 0x92"

abbreviation (input) OP_ADD :: byte where
  "OP_ADD \<equiv> 0x93"

abbreviation (input) OP_SUB :: byte where
  "OP_SUB \<equiv> 0x94"

abbreviation (input) OP_MUL :: byte where
  "OP_MUL \<equiv> 0x95"

abbreviation (input) OP_DIV :: byte where
  "OP_DIV \<equiv> 0x96"

abbreviation (input) OP_MOD :: byte where
  "OP_MOD \<equiv> 0x97"

abbreviation (input) OP_LSHIFT :: byte where
  "OP_LSHIFT \<equiv> 0x98"

abbreviation (input) OP_RSHIFT :: byte where
  "OP_RSHIFT \<equiv> 0x99"

abbreviation (input) OP_BOOLAND :: byte where
  "OP_BOOLAND \<equiv> 0x9a"

abbreviation (input) OP_BOOLOR :: byte where
  "OP_BOOLOR \<equiv> 0x9b"

abbreviation (input) OP_NUMEQUAL :: byte where
  "OP_NUMEQUAL \<equiv> 0x9c"

abbreviation (input) OP_NUMEQUALVERIFY :: byte where
  "OP_NUMEQUALVERIFY \<equiv> 0x9d"

abbreviation (input) OP_NUMNOTEQUAL :: byte where
  "OP_NUMNOTEQUAL \<equiv> 0x9e"

abbreviation (input) OP_LESSTHAN :: byte where
  "OP_LESSTHAN \<equiv> 0x9f"

abbreviation (input) OP_GREATERTHAN :: byte where
  "OP_GREATERTHAN \<equiv> 0xa0"

abbreviation (input) OP_LESSTHANOREQUAL :: byte where
  "OP_LESSTHANOREQUAL \<equiv> 0xa1"

abbreviation (input) OP_GREATERTHANOREQUAL :: byte where
  "OP_GREATERTHANOREQUAL \<equiv> 0xa2"

abbreviation (input) OP_MIN :: byte where
  "OP_MIN \<equiv> 0xa3"

abbreviation (input) OP_MAX :: byte where
  "OP_MAX \<equiv> 0xa4"

abbreviation (input) OP_WITHIN :: byte where
  "OP_WITHIN \<equiv> 0xa5"

abbreviation (input) OP_RIPEMD160 :: byte where
  "OP_RIPEMD160 \<equiv> 0xa6"

abbreviation (input) OP_SHA1 :: byte where
  "OP_SHA1 \<equiv> 0xa7"

abbreviation (input) OP_SHA256 :: byte where
  "OP_SHA256 \<equiv> 0xa8"

abbreviation (input) OP_HASH160 :: byte where
  "OP_HASH160 \<equiv> 0xa9"

abbreviation (input) OP_HASH256 :: byte where
  "OP_HASH256 \<equiv> 0xaa"

abbreviation (input) OP_CODESEPARATOR :: byte where
  "OP_CODESEPARATOR \<equiv> 0xab"

abbreviation (input) OP_CHECKSIG :: byte where
  "OP_CHECKSIG \<equiv> 0xac"

abbreviation (input) OP_CHECKSIGVERIFY :: byte where
  "OP_CHECKSIGVERIFY \<equiv> 0xad"

abbreviation (input) OP_CHECKMULTISIG :: byte where
  "OP_CHECKMULTISIG \<equiv> 0xae"

abbreviation (input) OP_CHECKMULTISIGVERIFY :: byte where
  "OP_CHECKMULTISIGVERIFY \<equiv> 0xaf"

abbreviation (input) OP_NOP1 :: byte where
  "OP_NOP1 \<equiv> 0xb0"

abbreviation (input) OP_CHECKLOCKTIMEVERIFY :: byte where
  "OP_CHECKLOCKTIMEVERIFY \<equiv> 0xb1"

abbreviation (input) OP_NOP2 :: byte where
  "OP_NOP2 \<equiv> OP_CHECKLOCKTIMEVERIFY"

abbreviation (input) OP_CHECKSEQUENCEVERIFY :: byte where
  "OP_CHECKSEQUENCEVERIFY \<equiv> 0xb2"

abbreviation (input) OP_NOP3 :: byte where
  "OP_NOP3 \<equiv> OP_CHECKSEQUENCEVERIFY"

abbreviation (input) OP_NOP4 :: byte where
  "OP_NOP4 \<equiv> 0xb3"

abbreviation (input) OP_NOP5 :: byte where
  "OP_NOP5 \<equiv> 0xb4"

abbreviation (input) OP_NOP6 :: byte where
  "OP_NOP6 \<equiv> 0xb5"

abbreviation (input) OP_NOP7 :: byte where
  "OP_NOP7 \<equiv> 0xb6"

abbreviation (input) OP_NOP8 :: byte where
  "OP_NOP8 \<equiv> 0xb7"

abbreviation (input) OP_NOP9 :: byte where
  "OP_NOP9 \<equiv> 0xb8"

abbreviation (input) OP_NOP10 :: byte where
  "OP_NOP10 \<equiv> 0xb9"

abbreviation (input) OP_SMALLINTEGER :: byte where
  "OP_SMALLINTEGER \<equiv> 0xfa"

abbreviation (input) OP_PUBKEYS :: byte where
  "OP_PUBKEYS \<equiv> 0xfb"

abbreviation (input) OP_PUBKEYHASH :: byte where
  "OP_PUBKEYHASH \<equiv> 0xfd"

abbreviation (input) OP_PUBKEY :: byte where
  "OP_PUBKEY \<equiv> 0xfe"

abbreviation (input) OP_INVALIDOPCODE :: byte where
  "OP_INVALIDOPCODE \<equiv> 0xff"

text \<open>The enumerators in the order of the declaration.\<close>

definition opcodetype :: "byte list" where
  "opcodetype =
     [OP_0, OP_FALSE, OP_PUSHDATA1, OP_PUSHDATA2, OP_PUSHDATA4, OP_1NEGATE, OP_RESERVED, OP_1, OP_TRUE,
      OP_2, OP_3, OP_4, OP_5, OP_6, OP_7, OP_8, OP_9, OP_10, OP_11, OP_12, OP_13, OP_14, OP_15, OP_16,
      OP_NOP, OP_VER, OP_IF, OP_NOTIF, OP_VERIF, OP_VERNOTIF, OP_ELSE, OP_ENDIF, OP_VERIFY, OP_RETURN,
      OP_TOALTSTACK, OP_FROMALTSTACK, OP_2DROP, OP_2DUP, OP_3DUP, OP_2OVER, OP_2ROT, OP_2SWAP, OP_IFDUP,
      OP_DEPTH, OP_DROP, OP_DUP, OP_NIP, OP_OVER, OP_PICK, OP_ROLL, OP_ROT, OP_SWAP, OP_TUCK, OP_CAT,
      OP_SUBSTR, OP_LEFT, OP_RIGHT, OP_SIZE, OP_INVERT, OP_AND, OP_OR, OP_XOR, OP_EQUAL, OP_EQUALVERIFY,
      OP_RESERVED1, OP_RESERVED2, OP_1ADD, OP_1SUB, OP_2MUL, OP_2DIV, OP_NEGATE, OP_ABS, OP_NOT,
      OP_0NOTEQUAL, OP_ADD, OP_SUB, OP_MUL, OP_DIV, OP_MOD, OP_LSHIFT, OP_RSHIFT, OP_BOOLAND, OP_BOOLOR,
      OP_NUMEQUAL, OP_NUMEQUALVERIFY, OP_NUMNOTEQUAL, OP_LESSTHAN, OP_GREATERTHAN, OP_LESSTHANOREQUAL,
      OP_GREATERTHANOREQUAL, OP_MIN, OP_MAX, OP_WITHIN, OP_RIPEMD160, OP_SHA1, OP_SHA256, OP_HASH160,
      OP_HASH256, OP_CODESEPARATOR, OP_CHECKSIG, OP_CHECKSIGVERIFY, OP_CHECKMULTISIG,
      OP_CHECKMULTISIGVERIFY, OP_NOP1, OP_CHECKLOCKTIMEVERIFY, OP_NOP2, OP_CHECKSEQUENCEVERIFY, OP_NOP3,
      OP_NOP4, OP_NOP5, OP_NOP6, OP_NOP7, OP_NOP8, OP_NOP9, OP_NOP10, OP_SMALLINTEGER, OP_PUBKEYS,
      OP_PUBKEYHASH, OP_PUBKEY, OP_INVALIDOPCODE]"

definition op_names :: "(byte \<times> string) list" where
  "op_names =
    [(OP_0, ''0''),
     (OP_PUSHDATA1, ''OP_PUSHDATA1''),
     (OP_PUSHDATA2, ''OP_PUSHDATA2''),
     (OP_PUSHDATA4, ''OP_PUSHDATA4''),
     (OP_1NEGATE, ''-1''),
     (OP_RESERVED, ''OP_RESERVED''),
     (OP_1, ''1''),
     (OP_2, ''2''),
     (OP_3, ''3''),
     (OP_4, ''4''),
     (OP_5, ''5''),
     (OP_6, ''6''),
     (OP_7, ''7''),
     (OP_8, ''8''),
     (OP_9, ''9''),
     (OP_10, ''10''),
     (OP_11, ''11''),
     (OP_12, ''12''),
     (OP_13, ''13''),
     (OP_14, ''14''),
     (OP_15, ''15''),
     (OP_16, ''16''),
     (OP_NOP, ''OP_NOP''),
     (OP_VER, ''OP_VER''),
     (OP_IF, ''OP_IF''),
     (OP_NOTIF, ''OP_NOTIF''),
     (OP_VERIF, ''OP_VERIF''),
     (OP_VERNOTIF, ''OP_VERNOTIF''),
     (OP_ELSE, ''OP_ELSE''),
     (OP_ENDIF, ''OP_ENDIF''),
     (OP_VERIFY, ''OP_VERIFY''),
     (OP_RETURN, ''OP_RETURN''),
     (OP_TOALTSTACK, ''OP_TOALTSTACK''),
     (OP_FROMALTSTACK, ''OP_FROMALTSTACK''),
     (OP_2DROP, ''OP_2DROP''),
     (OP_2DUP, ''OP_2DUP''),
     (OP_3DUP, ''OP_3DUP''),
     (OP_2OVER, ''OP_2OVER''),
     (OP_2ROT, ''OP_2ROT''),
     (OP_2SWAP, ''OP_2SWAP''),
     (OP_IFDUP, ''OP_IFDUP''),
     (OP_DEPTH, ''OP_DEPTH''),
     (OP_DROP, ''OP_DROP''),
     (OP_DUP, ''OP_DUP''),
     (OP_NIP, ''OP_NIP''),
     (OP_OVER, ''OP_OVER''),
     (OP_PICK, ''OP_PICK''),
     (OP_ROLL, ''OP_ROLL''),
     (OP_ROT, ''OP_ROT''),
     (OP_SWAP, ''OP_SWAP''),
     (OP_TUCK, ''OP_TUCK''),
     (OP_CAT, ''OP_CAT''),
     (OP_SUBSTR, ''OP_SUBSTR''),
     (OP_LEFT, ''OP_LEFT''),
     (OP_RIGHT, ''OP_RIGHT''),
     (OP_SIZE, ''OP_SIZE''),
     (OP_INVERT, ''OP_INVERT''),
     (OP_AND, ''OP_AND''),
     (OP_OR, ''OP_OR''),
     (OP_XOR, ''OP_XOR''),
     (OP_EQUAL, ''OP_EQUAL''),
     (OP_EQUALVERIFY, ''OP_EQUALVERIFY''),
     (OP_RESERVED1, ''OP_RESERVED1''),
     (OP_RESERVED2, ''OP_RESERVED2''),
     (OP_1ADD, ''OP_1ADD''),
     (OP_1SUB, ''OP_1SUB''),
     (OP_2MUL, ''OP_2MUL''),
     (OP_2DIV, ''OP_2DIV''),
     (OP_NEGATE, ''OP_NEGATE''),
     (OP_ABS, ''OP_ABS''),
     (OP_NOT, ''OP_NOT''),
     (OP_0NOTEQUAL, ''OP_0NOTEQUAL''),
     (OP_ADD, ''OP_ADD''),
     (OP_SUB, ''OP_SUB''),
     (OP_MUL, ''OP_MUL''),
     (OP_DIV, ''OP_DIV''),
     (OP_MOD, ''OP_MOD''),
     (OP_LSHIFT, ''OP_LSHIFT''),
     (OP_RSHIFT, ''OP_RSHIFT''),
     (OP_BOOLAND, ''OP_BOOLAND''),
     (OP_BOOLOR, ''OP_BOOLOR''),
     (OP_NUMEQUAL, ''OP_NUMEQUAL''),
     (OP_NUMEQUALVERIFY, ''OP_NUMEQUALVERIFY''),
     (OP_NUMNOTEQUAL, ''OP_NUMNOTEQUAL''),
     (OP_LESSTHAN, ''OP_LESSTHAN''),
     (OP_GREATERTHAN, ''OP_GREATERTHAN''),
     (OP_LESSTHANOREQUAL, ''OP_LESSTHANOREQUAL''),
     (OP_GREATERTHANOREQUAL, ''OP_GREATERTHANOREQUAL''),
     (OP_MIN, ''OP_MIN''),
     (OP_MAX, ''OP_MAX''),
     (OP_WITHIN, ''OP_WITHIN''),
     (OP_RIPEMD160, ''OP_RIPEMD160''),
     (OP_SHA1, ''OP_SHA1''),
     (OP_SHA256, ''OP_SHA256''),
     (OP_HASH160, ''OP_HASH160''),
     (OP_HASH256, ''OP_HASH256''),
     (OP_CODESEPARATOR, ''OP_CODESEPARATOR''),
     (OP_CHECKSIG, ''OP_CHECKSIG''),
     (OP_CHECKSIGVERIFY, ''OP_CHECKSIGVERIFY''),
     (OP_CHECKMULTISIG, ''OP_CHECKMULTISIG''),
     (OP_CHECKMULTISIGVERIFY, ''OP_CHECKMULTISIGVERIFY''),
     (OP_NOP1, ''OP_NOP1''),
     (OP_CHECKLOCKTIMEVERIFY, ''OP_CHECKLOCKTIMEVERIFY''),
     (OP_CHECKSEQUENCEVERIFY, ''OP_CHECKSEQUENCEVERIFY''),
     (OP_NOP4, ''OP_NOP4''),
     (OP_NOP5, ''OP_NOP5''),
     (OP_NOP6, ''OP_NOP6''),
     (OP_NOP7, ''OP_NOP7''),
     (OP_NOP8, ''OP_NOP8''),
     (OP_NOP9, ''OP_NOP9''),
     (OP_NOP10, ''OP_NOP10''),
     (OP_INVALIDOPCODE, ''OP_INVALIDOPCODE'')]"

definition GetOpName :: "byte \<Rightarrow> string" where
  "GetOpName opcode = (case map_of op_names opcode of Some s \<Rightarrow> s | None \<Rightarrow> ''OP_UNKNOWN'')"

section \<open>Script numbers\<close>

definition int64_min :: int where
  "int64_min = - (2 ^ 63)"

definition int64_max :: int where
  "int64_max = 2 ^ 63 - 1"

fun serialize_abs :: "nat \<Rightarrow> bytes" where
  "serialize_abs absvalue =
     (if absvalue = 0 then [] else word_of_nat (absvalue mod 256) # serialize_abs (absvalue div 256))"

declare serialize_abs.simps [simp del]

definition serialize :: "int \<Rightarrow> bytes" where
  "serialize value =
     (if value = 0 then []
      else let neg = value < 0; result = serialize_abs (nat \<bar>value\<bar>)
           in if last result AND 0x80 \<noteq> 0 then result @ [if neg then 0x80 else 0]
              else if neg then butlast result @ [last result OR 0x80]
              else result)"

fun set_vch_loop :: "nat \<Rightarrow> bytes \<Rightarrow> u64" where
  "set_vch_loop i [] = 0"
| "set_vch_loop i (b # vch) = push_bit (8 * i) (ucast b) OR set_vch_loop (Suc i) vch"

definition set_vch :: "bytes \<Rightarrow> int" where
  "set_vch vch =
     (if vch = [] then 0
      else let result = set_vch_loop 0 vch
           in if last vch AND 0x80 \<noteq> 0
              then - sint (result AND NOT (push_bit (8 * (length vch - 1)) 0x80))
              else sint result)"

definition nDefaultMaxNumSize :: nat where
  "nDefaultMaxNumSize = 4"

text \<open>The constructor from bytes; a thrown \<^verbatim>\<open>scriptnum_error\<close> is \<open>Inl\<close> with its message.\<close>

definition CScriptNum :: "bytes \<Rightarrow> bool \<Rightarrow> nat \<Rightarrow> string + int" where
  "CScriptNum vch fRequireMinimal nMaxNumSize =
     (if length vch > nMaxNumSize then Inl ''script number overflow''
      else if fRequireMinimal \<and> length vch > 0 \<and> last vch AND 0x7f = 0
              \<and> (length vch \<le> 1 \<or> vch ! (length vch - 2) AND 0x80 = 0)
      then Inl ''non-minimally encoded script number''
      else Inr (set_vch vch))"

definition scriptnum_neg :: "int \<Rightarrow> int option" where
  "scriptnum_neg v = (if v \<noteq> int64_min then Some (- v) else None)"

definition scriptnum_add :: "int \<Rightarrow> int \<Rightarrow> int option" where
  "scriptnum_add v rhs =
     (if rhs = 0 \<or> (rhs > 0 \<and> v \<le> int64_max - rhs) \<or> (rhs < 0 \<and> v \<ge> int64_min - rhs)
      then Some (v + rhs) else None)"

definition scriptnum_sub :: "int \<Rightarrow> int \<Rightarrow> int option" where
  "scriptnum_sub v rhs =
     (if rhs = 0 \<or> (rhs > 0 \<and> v \<ge> int64_min + rhs) \<or> (rhs < 0 \<and> v \<le> int64_max + rhs)
      then Some (v - rhs) else None)"

definition getint :: "int \<Rightarrow> int" where
  "getint v = (if v > 2 ^ 31 - 1 then 2 ^ 31 - 1 else if v < - (2 ^ 31) then - (2 ^ 31) else v)"

section \<open>Building scripts\<close>

definition push_opcode :: "bytes \<Rightarrow> byte \<Rightarrow> bytes" where
  "push_opcode s opcode = s @ [opcode]"

definition push_data :: "bytes \<Rightarrow> bytes \<Rightarrow> bytes" where
  "push_data s b =
     (if length b < unat OP_PUSHDATA1 then s @ [word_of_nat (length b)] @ b
      else if length b \<le> 0xff then s @ [OP_PUSHDATA1, word_of_nat (length b)] @ b
      else if length b \<le> 0xffff then s @ [OP_PUSHDATA2] @ WriteLE16 (word_of_nat (length b)) @ b
      else s @ [OP_PUSHDATA4] @ WriteLE32 (word_of_nat (length b)) @ b)"

definition push_int64 :: "bytes \<Rightarrow> int \<Rightarrow> bytes" where
  "push_int64 s n =
     (if n = - 1 \<or> (n \<ge> 1 \<and> n \<le> 16) then s @ [word_of_int (n + (uint OP_1 - 1))]
      else if n = 0 then s @ [OP_0]
      else push_data s (serialize n))"

definition DecodeOP_N :: "byte \<Rightarrow> int option" where
  "DecodeOP_N opcode =
     (if opcode = OP_0 then Some 0
      else if opcode \<ge> OP_1 \<and> opcode \<le> OP_16 then Some (uint opcode - (uint OP_1 - 1))
      else None)"

definition EncodeOP_N :: "int \<Rightarrow> byte option" where
  "EncodeOP_N n =
     (if n \<ge> 0 \<and> n \<le> 16 then Some (if n = 0 then OP_0 else word_of_int (uint OP_1 + n - 1)) else None)"

section \<open>Reading scripts\<close>

definition GetOp2_size :: "byte \<Rightarrow> bytes \<Rightarrow> (nat \<times> bytes) option" where
  "GetOp2_size opcode pc =
     (if opcode < OP_PUSHDATA1 then Some (unat opcode, pc)
      else if opcode = OP_PUSHDATA1 then
        (if length pc < 1 then None else Some (unat (hd pc), drop 1 pc))
      else if opcode = OP_PUSHDATA2 then
        (if length pc < 2 then None else Some (unat (ReadLE16 pc), drop 2 pc))
      else if opcode = OP_PUSHDATA4 then
        (if length pc < 4 then None else Some (unat (ReadLE32 pc), drop 4 pc))
      else Some (0, pc))"

fun GetOp2 :: "bytes \<Rightarrow> (byte \<times> bytes \<times> bytes) option" where
  "GetOp2 [] = None"
| "GetOp2 (opcode # pc) =
     (if opcode \<le> OP_PUSHDATA4 then
        (case GetOp2_size opcode pc of None \<Rightarrow> None
         | Some (nSize, pc1) \<Rightarrow>
             if length pc1 < nSize then None else Some (opcode, take nSize pc1, drop nSize pc1))
      else Some (opcode, [], pc))"

lemma GetOp2_shorter: "GetOp2 pc = Some (opcode, vch, pc') \<Longrightarrow> length pc' < length pc"
  by (cases pc) (auto simp: GetOp2_size_def split: if_splits option.splits)

text \<open>
  \<^verbatim>\<open>FindAndDelete\<close>: the inner loop skips occurrences of \<open>b\<close>, the outer one copies one
  operation; \<open>pc2\<close> is the place up to which the script has been copied.
\<close>

function skip_occurrences :: "bytes \<Rightarrow> bytes \<Rightarrow> nat \<Rightarrow> bytes \<times> nat" where
  "skip_occurrences b pc nFound =
     (if b \<noteq> [] \<and> prefix b pc then skip_occurrences b (drop (length b) pc) (Suc nFound)
      else (pc, nFound))"
  by pat_completeness auto
termination
  by (relation "measure (\<lambda>(b, pc, nFound). length pc)") (auto simp: prefix_def)

declare skip_occurrences.simps [simp del]

lemma skip_occurrences_shorter: "skip_occurrences b pc n = (pc', n') \<Longrightarrow> length pc' \<le> length pc"
  by (induction b pc n rule: skip_occurrences.induct) (subst (asm) (2) skip_occurrences.simps; fastforce split: if_splits)

function find_and_delete_loop :: "bytes \<Rightarrow> bytes \<Rightarrow> bytes \<Rightarrow> bytes \<Rightarrow> nat \<Rightarrow> bytes \<times> bytes \<times> nat" where
  "find_and_delete_loop b result pc2 pc nFound =
     (let result' = result @ take (length pc2 - length pc) pc2;
          sk = skip_occurrences b pc nFound
      in case GetOp2 (fst sk) of
           None \<Rightarrow> (result', fst sk, snd sk)
         | Some (opcode, vch, pc') \<Rightarrow> find_and_delete_loop b result' (fst sk) pc' (snd sk))"
  by pat_completeness auto
termination
proof (relation "measure (\<lambda>(b, result, pc2, pc, nFound). length pc)", goal_cases)
  case (2 b result pc2 pc nFound r sk t opcode t' vch pc')
  then have "length pc' < length (fst sk)" using GetOp2_shorter [of "fst sk" opcode vch pc'] by simp
  moreover have "length (fst sk) \<le> length pc"
    using 2 skip_occurrences_shorter [of b pc nFound "fst sk" "snd sk"] by simp
  ultimately show ?case by simp
qed simp

declare find_and_delete_loop.simps [simp del]

definition FindAndDelete :: "bytes \<Rightarrow> bytes \<Rightarrow> nat \<times> bytes" where
  "FindAndDelete script b =
     (if b = [] then (0, script)
      else let (result, pc2, nFound) = find_and_delete_loop b [] script script 0
           in (nFound, if nFound > 0 then result @ pc2 else script))"

function Find :: "byte \<Rightarrow> bytes \<Rightarrow> nat" where
  "Find op pc = (case GetOp2 pc of None \<Rightarrow> 0
     | Some (opcode, vch, pc') \<Rightarrow> (if opcode = op then 1 else 0) + Find op pc')"
  by pat_completeness auto
termination
  by (relation "measure (\<lambda>(op, pc). length pc)") (auto simp: GetOp2_shorter)

declare Find.simps [simp del]

function GetSigOpCount_loop :: "bool \<Rightarrow> byte \<Rightarrow> bytes \<Rightarrow> nat \<Rightarrow> nat" where
  "GetSigOpCount_loop fAccurate lastOpcode pc n =
     (case GetOp2 pc of None \<Rightarrow> n
      | Some (opcode, vch, pc') \<Rightarrow>
          GetSigOpCount_loop fAccurate opcode pc'
            (if opcode = OP_CHECKSIG \<or> opcode = OP_CHECKSIGVERIFY then n + 1
             else if opcode = OP_CHECKMULTISIG \<or> opcode = OP_CHECKMULTISIGVERIFY then
               n + (if fAccurate \<and> lastOpcode \<ge> OP_1 \<and> lastOpcode \<le> OP_16
                    then nat (the (DecodeOP_N lastOpcode)) else MAX_PUBKEYS_PER_MULTISIG)
             else n))"
  by pat_completeness auto
termination
  by (relation "measure (\<lambda>(f, l, pc, n). length pc)") (auto simp: GetOp2_shorter)

declare GetSigOpCount_loop.simps [simp del]

definition GetSigOpCount :: "bool \<Rightarrow> bytes \<Rightarrow> nat" where
  "GetSigOpCount fAccurate script = GetSigOpCount_loop fAccurate OP_INVALIDOPCODE script 0"

definition IsPayToScriptHash :: "bytes \<Rightarrow> bool" where
  "IsPayToScriptHash s \<longleftrightarrow> length s = 23 \<and> s ! 0 = OP_HASH160 \<and> s ! 1 = 0x14 \<and> s ! 22 = OP_EQUAL"

definition IsPayToWitnessScriptHash :: "bytes \<Rightarrow> bool" where
  "IsPayToWitnessScriptHash s \<longleftrightarrow> length s = 34 \<and> s ! 0 = OP_0 \<and> s ! 1 = 0x20"

definition IsWitnessProgram :: "bytes \<Rightarrow> (int \<times> bytes) option" where
  "IsWitnessProgram s =
     (if length s < 4 \<or> length s > 42 then None
      else if s ! 0 \<noteq> OP_0 \<and> (s ! 0 < OP_1 \<or> s ! 0 > OP_16) then None
      else if unat (s ! 1) + 2 = length s then
        (case DecodeOP_N (s ! 0) of None \<Rightarrow> None | Some version \<Rightarrow> Some (version, drop 2 s))
      else None)"

function IsPushOnly :: "bytes \<Rightarrow> bool" where
  "IsPushOnly pc =
     (if pc = [] then True
      else case GetOp2 pc of None \<Rightarrow> False
           | Some (opcode, vch, pc') \<Rightarrow> if opcode > OP_16 then False else IsPushOnly pc')"
  by pat_completeness auto
termination
  by (relation "measure length") (auto simp: GetOp2_shorter)

declare IsPushOnly.simps [simp del]

text \<open>The last item that a push-only script pushes; \<open>None\<close> where the source returns 0.\<close>

function last_push :: "bytes \<Rightarrow> bytes \<Rightarrow> bytes option" where
  "last_push pc data =
     (if pc = [] then Some data
      else case GetOp2 pc of None \<Rightarrow> None
           | Some (opcode, vch, pc') \<Rightarrow> if opcode > OP_16 then None else last_push pc' vch)"
  by pat_completeness auto
termination
  by (relation "measure (\<lambda>(pc, data). length pc)") (auto simp: GetOp2_shorter)

declare last_push.simps [simp del]

definition GetSigOpCount_p2sh :: "bytes \<Rightarrow> bytes \<Rightarrow> nat" where
  "GetSigOpCount_p2sh script scriptSig =
     (if \<not> IsPayToScriptHash script then GetSigOpCount True script
      else case last_push scriptSig [] of None \<Rightarrow> 0 | Some data \<Rightarrow> GetSigOpCount True data)"

definition IsUnspendable :: "bytes \<Rightarrow> bool" where
  "IsUnspendable s \<longleftrightarrow> (length s > 0 \<and> hd s = OP_RETURN) \<or> length s > MAX_SCRIPT_SIZE"

section \<open>Script numbers are a bijection with their minimal encodings\<close>

lemma serialize_abs_0 [simp]: "serialize_abs 0 = []"
  by (simp add: serialize_abs.simps)

lemma serialize_abs_eq_Nil [simp]: "serialize_abs n = [] \<longleftrightarrow> n = 0"
  by (subst serialize_abs.simps) simp

lemma wval_serialize_abs [simp]: "wval (serialize_abs n) = n"
proof (induction n rule: serialize_abs.induct)
  case (1 n)
  then show ?case by (subst serialize_abs.simps) (simp add: unat_of_nat)
qed

lemma last_serialize_abs: "n \<noteq> 0 \<Longrightarrow> last (serialize_abs n) \<noteq> 0"
proof (induction n rule: serialize_abs.induct)
  case (1 n)
  show ?case
  proof (cases "n div 256 = 0")
    case True
    then have "n < 256" by (simp add: div_eq_0_iff)
    then have "unat (word_of_nat n :: byte) = n" by (simp add: unat_of_nat)
    then show ?thesis using 1 True by (subst serialize_abs.simps) (auto simp: serialize_abs.simps)
  next
    case False
    then show ?thesis using 1 by (subst serialize_abs.simps) auto
  qed
qed

lemma serialize_abs_wval: "bs = [] \<or> last bs \<noteq> 0 \<Longrightarrow> serialize_abs (wval bs) = bs"
proof (induction bs)
  case (Cons b bs)
  have IH: "serialize_abs (wval bs) = bs" using Cons by (cases bs) auto
  have "wval (b # bs) \<noteq> 0"
    using Cons.prems wval_eq_0_iff [of "b # bs"] last_in_set [of "b # bs"] by blast
  moreover have "(unat b + 256 * wval bs) div 256 = wval bs" "(unat b + 256 * wval bs) mod 256 = unat b"
    using unat_lt2p [of b] by auto
  ultimately show ?case using IH by (subst serialize_abs.simps) (simp del: One_nat_def)
qed simp

lemma wval_lt8: "wval (bs :: bytes) < 256 ^ length bs"
  using wval_lt [of bs] by (simp add: power_mult)

text \<open>The loop of \<^verbatim>\<open>set_vch\<close> assembles the little-endian value in a 64 bit word.\<close>

lemma set_vch_loop_eq: "set_vch_loop i vch = push_bit (8 * i) (word_of_nat (wval vch))"
proof (induction vch arbitrary: i)
  case (Cons b vch)
  have "(word_of_nat (unat b + 256 * wval vch) :: u64) = ucast b + push_bit 8 (word_of_nat (wval vch))"
    by (simp add: push_bit_eq_mult)
  also have "\<dots> = ucast b OR push_bit 8 (word_of_nat (wval vch))"
    by (rule disjunctive_add) (auto simp: bit_simps dest: bit_imp_le_length)
  finally have "push_bit (8 * i) (word_of_nat (wval (b # vch)) :: u64)
      = push_bit (8 * i) (ucast b) OR push_bit (8 * i) (push_bit 8 (word_of_nat (wval vch)))"
    by simp
  then show ?case using Cons by (simp add: push_bit_push_bit algebra_simps)
qed simp

lemma and_80: "(t :: byte) AND 0x80 \<noteq> 0 \<longleftrightarrow> 128 \<le> unat t"
proof -
  have "(0x80 :: byte) = 2 ^ 7" by simp
  then have "t AND 0x80 \<noteq> 0 \<longleftrightarrow> bit t 7" by (simp only: and_exp_eq_0_iff_not_bit not_not)
  then show ?thesis using bit_top [of t 7] unat_lt2p [of t] by simp
qed

lemma and_7f: "unat ((t :: byte) AND 0x7f) = unat t mod 128"
proof -
  have "(0x7f :: byte) = mask 7" by (simp add: mask_eq_exp_minus_1)
  then have "t AND 0x7f = take_bit 7 t" by (simp only: take_bit_eq_mask)
  then show ?thesis using unat_take_bit [of 7 t] by simp
qed

lemma unat_or_disjoint: "(\<And>n. \<not> (bit a n \<and> bit b n)) \<Longrightarrow> unat (a OR b) = unat a + unat (b :: 'a::len word)"
  unfolding unsigned_or_eq by (rule disjunctive_add [symmetric]) (auto simp: bit_simps)

lemma unat_clear_bit: "bit w n \<Longrightarrow> unat (w AND NOT (push_bit n 1)) + 2 ^ n = unat (w :: 'a::len word)"
proof -
  assume b: "bit w n"
  then have n: "n < LENGTH('a)" by (rule bit_imp_le_length)
  have "unat (push_bit n 1 :: 'a word) = 2 ^ n" unfolding unat_shl using n by simp
  moreover have "(w AND NOT (push_bit n 1)) OR push_bit n 1 = w"
    by (rule bit_eqI) (use b in \<open>auto simp: bit_simps\<close>)
  moreover have "unat ((w AND NOT (push_bit n 1)) OR push_bit n 1) = unat (w AND NOT (push_bit n 1)) + unat (push_bit n 1 :: 'a word)"
    by (rule unat_or_disjoint) (auto simp: bit_simps)
  ultimately show ?thesis by simp
qed

lemma or_80: "unat t < 128 \<Longrightarrow> unat ((t :: byte) OR 0x80) = unat t + 128"
proof -
  assume "unat t < 128"
  then have lt: "bit t n \<Longrightarrow> n < 7" for n using bit_lt [of t 7] by simp
  have "unat (t OR push_bit 7 1) = unat t + unat (push_bit 7 1 :: byte)"
    by (rule unat_or_disjoint, unfold bit_push_bit_iff) (use lt in fastforce)
  then show ?thesis by simp
qed

lemma sint_unat_small: "unat (w :: u64) < 2 ^ 63 \<Longrightarrow> sint w = int (unat w)"
proof -
  assume "unat w < 2 ^ 63"
  then have "int (unat w) < int (2 ^ 63)" by (simp only: of_nat_less_iff)
  then have "uint w < 2 ^ 63" by simp
  moreover have "0 \<le> uint w" by simp
  ultimately have "signed_take_bit 63 (uint w) = uint w"
    by (intro signed_take_bit_int_eq_self) linarith+
  then show ?thesis by (simp add: sint_uint)
qed

lemma wval_snoc: "wval (xs @ [t :: byte]) = wval xs + 256 ^ length xs * unat t"
  by (simp add: wval_append power_mult)

text \<open>Reading a script number: a sign bit on top of a little-endian magnitude.\<close>

lemma set_vch_snoc:
  assumes "length xs < 8"
  shows "set_vch (xs @ [t]) = (if 128 \<le> unat t
     then - int (wval xs + 256 ^ length xs * (unat t - 128)) else int (wval xs + 256 ^ length xs * unat t))"
proof -
  let ?v = "wval (xs @ [t])" and ?k = "length xs"
  let ?r = "word_of_nat ?v :: u64"
  have "256 ^ Suc ?k \<le> (256 :: nat) ^ 8" using assms by (intro power_increasing) auto
  then have v: "?v < 2 ^ 64" using wval_lt8 [of "xs @ [t]"] by simp
  then have r: "unat ?r = ?v" by (simp add: unat_of_nat)
  have p: "2 ^ (8 * ?k + 7) = (256 :: nat) ^ ?k * 128" by (simp add: power_add power_mult)
  have "(256 :: nat) ^ ?k \<le> 256 ^ 7" using assms by (intro power_increasing) auto
  then have p63: "(256 :: nat) ^ ?k * 128 \<le> 2 ^ 63" by simp
  have lt: "wval xs < 256 ^ ?k" by (rule wval_lt8)
  show ?thesis
  proof (cases "128 \<le> unat t")
    case True
    have "256 ^ ?k * unat t = 256 ^ ?k * (unat t - 128) + 256 ^ ?k * 128"
      using True by (simp only: distrib_left [symmetric] le_add_diff_inverse2)
    then have "?v = wval xs + 256 ^ ?k * (unat t - 128) + 2 ^ (8 * ?k + 7)"
      unfolding wval_snoc p by simp
    moreover have "wval xs + 256 ^ ?k * (unat t - 128) < 2 ^ (8 * ?k + 7)"
    proof -
      have "wval xs + 256 ^ ?k * (unat t - 128) < 256 ^ ?k * Suc (unat t - 128)" using lt by simp
      also have "\<dots> \<le> 256 ^ ?k * 128" using unat_lt2p [of t] by (intro mult_le_mono2) simp
      finally show ?thesis by (simp only: p)
    qed
    moreover define m where "m = wval xs + 256 ^ ?k * (unat t - 128)"
    ultimately have v': "?v = m + 2 ^ (8 * ?k + 7)" and m: "m < 2 ^ (8 * ?k + 7)" by simp_all
    have "unat ?r < 2 ^ Suc (8 * ?k + 7)" "2 ^ (8 * ?k + 7) \<le> unat ?r"
      unfolding r power_Suc using v' m by linarith+
    then have b: "bit ?r (8 * ?k + 7)" by (simp only: bit_top)
    have pb: "(push_bit (8 * ?k) 0x80 :: u64) = push_bit (8 * ?k + 7) 1"
      by (simp add: push_bit_eq_mult power_add)
    have "unat (?r AND NOT (push_bit (8 * ?k) 0x80)) + 2 ^ (8 * ?k + 7) = unat ?r"
      unfolding pb by (rule unat_clear_bit [OF b])
    then have "unat (?r AND NOT (push_bit (8 * ?k) 0x80)) = m" using r v' by linarith
    moreover have "m < 2 ^ 63" using m p p63 by linarith
    ultimately have "sint (?r AND NOT (push_bit (8 * ?k) 0x80)) = int m"
      by (simp only: sint_unat_small)
    then show ?thesis using True by (simp add: set_vch_def and_80 set_vch_loop_eq Let_def m_def)
  next
    case False
    have "?v < 256 ^ ?k * Suc (unat t)" using lt by (simp add: wval_snoc)
    also have "\<dots> \<le> 256 ^ ?k * 128" using False by (intro mult_le_mono2) simp
    finally have "unat ?r < 2 ^ 63" unfolding r using p63 by linarith
    then have "sint ?r = int ?v" using sint_unat_small r by metis
    then show ?thesis using False by (simp add: set_vch_def and_80 set_vch_loop_eq Let_def wval_snoc)
  qed
qed

text \<open>The shape of a serialized number: its magnitude \<open>ys @ [u]\<close> with a sign bit or byte.\<close>

lemma serialize_shape:
  assumes "v \<noteq> 0"
  obtains ys u where "nat \<bar>v\<bar> = wval ys + 256 ^ length ys * unat u" "u \<noteq> 0"
    "serialize v = (if 128 \<le> unat u then ys @ [u, if v < 0 then 0x80 else 0]
                    else if v < 0 then ys @ [u OR 0x80] else ys @ [u])"
proof -
  let ?r = "serialize_abs (nat \<bar>v\<bar>)"
  have ne: "?r \<noteq> []" "last ?r \<noteq> 0" using assms last_serialize_abs by auto
  then obtain ys u where r: "?r = ys @ [u]" by (metis append_butlast_last_id)
  show thesis
  proof (rule that [of ys u])
    show "nat \<bar>v\<bar> = wval ys + 256 ^ length ys * unat u"
      using arg_cong [OF r, of wval] by (simp add: wval_snoc)
    show "u \<noteq> 0" using ne r by simp
    show "serialize v = (if 128 \<le> unat u then ys @ [u, if v < 0 then 0x80 else 0]
                    else if v < 0 then ys @ [u OR 0x80] else ys @ [u])"
      unfolding serialize_def r Let_def using assms and_80 [of u] by simp
  qed
qed

lemma length_serialize:
  assumes "\<bar>v\<bar> < 2 ^ (8 * k - 1)"
  shows "length (serialize v) \<le> k"
proof (cases "v = 0")
  case False
  obtain ys u where n: "nat \<bar>v\<bar> = wval ys + 256 ^ length ys * unat u" and u: "u \<noteq> 0"
    and s: "serialize v = (if 128 \<le> unat u then ys @ [u, if v < 0 then 0x80 else 0]
                    else if v < 0 then ys @ [u OR 0x80] else ys @ [u])"
    by (rule serialize_shape [OF False])
  have lt: "nat \<bar>v\<bar> < 2 ^ (8 * k - 1)" using assms by (simp add: nat_less_iff)
  have u1: "1 \<le> unat u" using u by (simp add: Suc_le_eq unat_gt_0)
  show ?thesis
  proof (cases "128 \<le> unat u")
    case True
    have "2 ^ (8 * length ys + 7) = (256 :: nat) ^ length ys * 128" by (simp add: power_add power_mult)
    also have "\<dots> \<le> nat \<bar>v\<bar>" unfolding n using True by (intro trans_le_add2 mult_le_mono2)
    finally have "(2 :: nat) ^ (8 * length ys + 7) < 2 ^ (8 * k - 1)" using lt by linarith
    then have "8 * length ys + 7 < 8 * k - 1" by (rule power_less_imp_less_exp [rotated]) simp
    then show ?thesis using True s by simp
  next
    case False
    have "2 ^ (8 * length ys) = (256 :: nat) ^ length ys * 1" by (simp add: power_mult)
    also have "\<dots> \<le> nat \<bar>v\<bar>" unfolding n using u1 by (intro trans_le_add2 mult_le_mono2)
    finally have "(2 :: nat) ^ (8 * length ys) < 2 ^ (8 * k - 1)" using lt by linarith
    then have "8 * length ys < 8 * k - 1" by (rule power_less_imp_less_exp [rotated]) simp
    then show ?thesis using False s by simp
  qed
qed (simp add: serialize_def)

lemma set_vch_serialize:
  assumes "\<bar>v\<bar> < 2 ^ 63"
  shows "set_vch (serialize v) = v"
proof (cases "v = 0")
  case False
  obtain ys u where n: "nat \<bar>v\<bar> = wval ys + 256 ^ length ys * unat u"
    and s: "serialize v = (if 128 \<le> unat u then ys @ [u, if v < 0 then 0x80 else 0]
                    else if v < 0 then ys @ [u OR 0x80] else ys @ [u])"
    by (rule serialize_shape [OF False])
  have len: "length (serialize v) \<le> 8" using length_serialize [of v 8] assms by simp
  show ?thesis
  proof (cases "128 \<le> unat u")
    case True
    then have e: "serialize v = (ys @ [u]) @ [if v < 0 then 0x80 else 0]" using s by simp
    have "set_vch (serialize v) = (if v < 0 then - int (nat \<bar>v\<bar>) else int (nat \<bar>v\<bar>))"
      unfolding e n using len unfolding e by (subst set_vch_snoc) (auto simp: wval_snoc)
    then show ?thesis by simp
  next
    case False
    then have e: "serialize v = ys @ [if v < 0 then u OR 0x80 else u]" using s by simp
    have "set_vch (serialize v) = (if v < 0 then - int (nat \<bar>v\<bar>) else int (nat \<bar>v\<bar>))"
      unfolding e n using len False or_80 [of u] unfolding e by (subst set_vch_snoc) auto
    then show ?thesis by simp
  qed
qed (simp add: serialize_def set_vch_def)

lemma and_7f_eq_0: "(t :: byte) AND 0x7f = 0 \<longleftrightarrow> unat t mod 128 = 0"
  using and_7f [of t] by (metis unat_eq_0)

lemma CScriptNum_serialize:
  assumes "\<bar>v\<bar> < 2 ^ (8 * k - 1)" "k \<le> 8"
  shows "CScriptNum (serialize v) fRequireMinimal k = Inr v"
proof -
  have "(2 :: int) ^ (8 * k - 1) \<le> 2 ^ 63" using assms(2) by (intro power_increasing) auto
  then have sv: "set_vch (serialize v) = v" using assms by (intro set_vch_serialize) linarith
  have "\<not> (length (serialize v) > 0 \<and> last (serialize v) AND 0x7f = 0
      \<and> (length (serialize v) \<le> 1 \<or> serialize v ! (length (serialize v) - 2) AND 0x80 = 0))"
  proof (cases "v = 0")
    case False
    obtain ys u where u: "u \<noteq> 0"
      and s: "serialize v = (if 128 \<le> unat u then ys @ [u, if v < 0 then 0x80 else 0]
                    else if v < 0 then ys @ [u OR 0x80] else ys @ [u])"
      by (rule serialize_shape [OF False])
    have "unat u \<noteq> 0" using u by (simp add: unat_eq_0)
    then show ?thesis
      using s and_80 [of u] or_80 [of u] by (auto simp: nth_append and_7f_eq_0)
  qed (simp add: serialize_def)
  then show ?thesis using length_serialize [OF assms(1)] sv by (auto simp: CScriptNum_def)
qed

lemma byte_eq_unat: "unat (a :: byte) = unat b \<Longrightarrow> a = b"
  by (simp add: word_unat_eq_iff)

lemma sign_magnitude:
  assumes "v = (if c then - int n else int n)" "n > 0"
  shows "nat \<bar>v\<bar> = n" "v \<noteq> 0" "v < 0 \<longleftrightarrow> c"
  using assms by auto

lemma serialize_set_vch_low:
  assumes len: "length xs < 8" and t: "unat t mod 128 \<noteq> 0"
  shows "serialize (set_vch (xs @ [t])) = xs @ [t]"
proof -
  let ?u = "t AND 0x7f" and ?v = "set_vch (xs @ [t])"
  have u: "unat ?u = unat t mod 128" by (rule and_7f)
  have m: "unat t mod 128 = (if 128 \<le> unat t then unat t - 128 else unat t)"
    using unat_lt2p [of t] by (simp add: mod_if)
  let ?n = "wval xs + 256 ^ length xs * unat ?u"
  have v: "?v = (if 128 \<le> unat t then - int ?n else int ?n)"
    unfolding set_vch_snoc [OF len] u m by simp
  have pos: "?n > 0" using u t by simp
  have abs: "serialize_abs ?n = xs @ [?u]"
    using serialize_abs_wval [of "xs @ [?u]"] t and_7f_eq_0 [of t] by (simp add: wval_snoc)
  have "unat ?u < 128" unfolding u by simp
  then have u0: "?u AND 0x80 = 0" using and_80 [of ?u] by (meson not_le)
  note sv = sign_magnitude [OF v pos]
  have "serialize ?v = xs @ [if 128 \<le> unat t then ?u OR 0x80 else ?u]"
    unfolding serialize_def Let_def sv abs using u0 by (simp add: sv(2))
  also have "(if 128 \<le> unat t then ?u OR 0x80 else ?u) = t"
    using or_80 [of ?u] u m unat_lt2p [of t] by (auto intro!: byte_eq_unat)
  finally show ?thesis .
qed

lemma serialize_set_vch_high:
  assumes len: "length ys + 1 < 8" and t: "unat t mod 128 = 0" and w: "128 \<le> unat w"
  shows "serialize (set_vch (ys @ [w, t])) = ys @ [w, t]"
proof -
  let ?v = "set_vch ((ys @ [w]) @ [t])" and ?n = "wval (ys @ [w])"
  have tt: "unat t = 0 \<or> unat t = 128" using t unat_lt2p [of t] by auto
  then have v: "?v = (if 128 \<le> unat t then - int ?n else int ?n)"
  proof
    assume "unat t = 0"
    note set_vch_snoc [of "ys @ [w]" t, unfolded this]
    with \<open>unat t = 0\<close> len show ?thesis by simp
  next
    assume "unat t = 128"
    note set_vch_snoc [of "ys @ [w]" t, unfolded this]
    with \<open>unat t = 128\<close> len show ?thesis by simp
  qed
  have abs: "serialize_abs ?n = ys @ [w]" using w by (intro serialize_abs_wval) auto
  have pos: "?n > 0" using w by (simp add: wval_snoc)
  note sv = sign_magnitude [OF v pos]
  have "serialize ?v = ys @ [w, if 128 \<le> unat t then 0x80 else 0]"
    using and_80 [of w] w sv(2) unfolding serialize_def Let_def sv abs by simp
  also have "(if 128 \<le> unat t then 0x80 else 0) = t" using tt by (auto intro!: byte_eq_unat)
  finally show ?thesis by simp
qed

lemma abs_set_vch_lt: "length vch \<le> k \<Longrightarrow> k \<le> 8 \<Longrightarrow> \<bar>set_vch vch\<bar> < 2 ^ (8 * k - 1)"
proof (cases vch rule: rev_cases)
  case (snoc xs t)
  assume k: "length vch \<le> k" "k \<le> 8"
  let ?m = "if 128 \<le> unat t then unat t - 128 else unat t"
  have "wval xs + 256 ^ length xs * ?m < 256 ^ length xs * Suc ?m" using wval_lt8 [of xs] by simp
  also have "\<dots> \<le> 256 ^ length xs * 128" using unat_lt2p [of t] by (intro mult_le_mono2) auto
  also have "\<dots> = 2 ^ (8 * length xs + 7)" by (simp add: power_add power_mult)
  also have "\<dots> \<le> 2 ^ (8 * k - 1)" using k snoc by (intro power_increasing) auto
  finally have "int (wval xs + 256 ^ length xs * ?m) < int (2 ^ (8 * k - 1))" by (simp only: of_nat_less_iff)
  moreover have "\<bar>set_vch vch\<bar> = int (wval xs + 256 ^ length xs * ?m)"
  proof -
    have "length xs < 8" using k snoc by simp
    then show ?thesis unfolding snoc set_vch_snoc [OF \<open>length xs < 8\<close>]
      by (cases "128 \<le> unat t") (simp_all only: if_True if_False abs_minus_cancel abs_of_nat)
  qed
  ultimately show ?thesis by simp
qed (simp add: set_vch_def)

lemma serialize_CScriptNum:
  assumes n: "CScriptNum vch True k = Inr v" and k: "k \<le> 8"
  shows "serialize v = vch" "\<bar>v\<bar> < 2 ^ (8 * k - 1)"
proof -
  from n have v: "v = set_vch vch" and len: "length vch \<le> k"
    and mini: "vch = [] \<or> last vch AND 0x7f \<noteq> 0 \<or> (length vch > 1 \<and> vch ! (length vch - 2) AND 0x80 \<noteq> 0)"
    by (auto simp: CScriptNum_def split: if_splits)
  show "\<bar>v\<bar> < 2 ^ (8 * k - 1)" unfolding v by (rule abs_set_vch_lt [OF len k])
  show "serialize v = vch"
  proof (cases vch rule: rev_cases)
    case (snoc xs t)
    show ?thesis
    proof (cases "unat t mod 128 = 0")
      case True
      then have "xs \<noteq> []" "vch ! (length vch - 2) AND 0x80 \<noteq> 0" using mini snoc by (auto simp: and_7f_eq_0)
      then obtain ys w where xs: "xs = ys @ [w]" by (metis append_butlast_last_id)
      have "w AND 0x80 \<noteq> 0" using \<open>vch ! _ AND _ \<noteq> 0\<close> by (simp add: snoc xs nth_append)
      then show ?thesis
        using serialize_set_vch_high [of ys t w] True and_80 [of w] len k by (simp add: v snoc xs)
    qed (use serialize_set_vch_low [of xs t] len k snoc v in simp)
  qed (simp add: v set_vch_def serialize_def)
qed

section \<open>Pushing and reading back\<close>

definition push_op :: "bytes \<Rightarrow> byte" where
  "push_op b = (if length b < 0x4c then word_of_nat (length b) else if length b \<le> 0xff then OP_PUSHDATA1
     else if length b \<le> 0xffff then OP_PUSHDATA2 else OP_PUSHDATA4)"

lemma push_data_append: "push_data s b = s @ push_data [] b"
  by (simp add: push_data_def)

lemma unat_word_of_nat: "n < 2 ^ LENGTH('a) \<Longrightarrow> unat (word_of_nat n :: 'a::len word) = n"
  by (simp add: unat_of_nat)

lemma GetOp2_push_data:
  assumes "length b < 2 ^ 32"
  shows "GetOp2 (push_data [] b @ rest) = Some (push_op b, b, rest)"
proof -
  consider "length b < 0x4c" | "0x4c \<le> length b" "length b \<le> 0xff"
    | "0xff < length b" "length b \<le> 0xffff" | "0xffff < length b" by linarith
  then show ?thesis
  proof cases
    case 1
    then have "unat (word_of_nat (length b) :: byte) = length b" by (simp add: unat_word_of_nat)
    with 1 show ?thesis
      by (simp add: push_data_def push_op_def GetOp2_size_def word_less_nat_alt word_le_nat_alt)
  next
    case 2
    then have "unat (word_of_nat (length b) :: byte) = length b" by (simp add: unat_word_of_nat)
    with 2 show ?thesis by (simp add: push_data_def push_op_def GetOp2_size_def)
  next
    case 3
    then have "unat (word_of_nat (length b) :: u16) = length b" by (simp add: unat_word_of_nat)
    with 3 show ?thesis by (simp add: push_data_def push_op_def GetOp2_size_def)
  next
    case 4
    then have "unat (word_of_nat (length b) :: u32) = length b" using assms by (simp add: unat_word_of_nat)
    with 4 show ?thesis by (simp add: push_data_def push_op_def GetOp2_size_def)
  qed
qed

lemma GetOp2_high: "opcode > OP_PUSHDATA4 \<Longrightarrow> GetOp2 (opcode # pc) = Some (opcode, [], pc)"
  by auto

lemma ReadLE_append [simp]:
  "2 \<le> length pc \<Longrightarrow> ReadLE16 (pc @ s) = ReadLE16 pc" "4 \<le> length pc \<Longrightarrow> ReadLE32 (pc @ s) = ReadLE32 pc"
  by (simp_all add: ReadLE16_def ReadLE32_def)

lemma drop_append_long [simp]: "k \<le> length xs \<Longrightarrow> drop k (xs @ ys) = drop k xs @ ys"
  by simp

lemma GetOp2_size_append:
  "GetOp2_size opcode pc = Some (n, r) \<Longrightarrow> GetOp2_size opcode (pc @ s) = Some (n, r @ s)"
proof (cases "opcode = OP_PUSHDATA1")
  case True
  moreover assume "GetOp2_size opcode pc = Some (n, r)"
  ultimately show ?thesis by (cases pc) (simp_all add: GetOp2_size_def)
next
  case False
  assume "GetOp2_size opcode pc = Some (n, r)"
  with False show ?thesis
    unfolding GetOp2_size_def by (auto simp: not_less simp del: drop_append split: if_split_asm)
qed

lemma GetOp2_append: "GetOp2 pc = Some (opcode, v, r) \<Longrightarrow> GetOp2 (pc @ s) = Some (opcode, v, r @ s)"
proof (cases pc)
  case (Cons b qc)
  assume g: "GetOp2 pc = Some (opcode, v, r)"
  show ?thesis
  proof (cases "GetOp2_size b qc")
    case None
    then show ?thesis using g Cons by (auto split: if_splits)
  next
    case (Some x)
    then obtain n r1 where "GetOp2_size b qc = Some (n, r1)" by (cases x) auto
    with GetOp2_size_append [OF this, of s] g Cons show ?thesis by (auto split: if_splits)
  qed
qed simp

text \<open>A single operation; operations form a prefix-free code.\<close>

definition single_op :: "bytes \<Rightarrow> bool" where
  "single_op c \<longleftrightarrow> (case GetOp2 c of Some (opcode, v, r) \<Rightarrow> r = [] | None \<Rightarrow> False)"

lemma single_opE:
  assumes "single_op c"
  obtains opcode v where "\<And>r. GetOp2 (c @ r) = Some (opcode, v, r)"
proof -
  from assms obtain opcode v where "GetOp2 c = Some (opcode, v, [])"
    by (auto simp: single_op_def split: option.splits)
  then show thesis using GetOp2_append [of c opcode v "[]"] by (intro that) simp
qed

lemma single_op_not_Nil [simp]: "\<not> single_op []"
  by (simp add: single_op_def)

lemma single_op_prefix: "single_op b \<Longrightarrow> single_op c \<Longrightarrow> prefix b (c @ r) \<longleftrightarrow> b = c"
proof
  assume b: "single_op b" and c: "single_op c" and "prefix b (c @ r)"
  then obtain s where s: "c @ r = b @ s" by (auto simp: prefix_def)
  obtain ob vb oc vc where g: "GetOp2 (b @ s) = Some (ob, vb, s)" "GetOp2 (c @ r) = Some (oc, vc, r)"
    by (rule single_opE [OF b], rule single_opE [OF c]) blast
  then have "r = s" using s by simp
  then show "b = c" using s by simp
qed auto

lemma single_op_prefix_junk: "single_op b \<Longrightarrow> GetOp2 junk = None \<Longrightarrow> \<not> prefix b junk"
  by (auto simp: prefix_def elim!: single_opE)

lemma GetOp2_size_split:
  "GetOp2_size opcode pc = Some (n, r) \<Longrightarrow> \<exists>h. pc = h @ r \<and> (\<forall>s. GetOp2_size opcode (h @ s) = Some (n, s))"
proof -
  assume a: "GetOp2_size opcode pc = Some (n, r)"
  define k where "k = (if opcode = OP_PUSHDATA1 then 1 else if opcode = OP_PUSHDATA2 then 2
    else if opcode = OP_PUSHDATA4 then 4 else 0 :: nat)"
  have r: "r = drop k pc \<and> k \<le> length pc"
    using a by (auto simp: GetOp2_size_def k_def Suc_le_eq split: if_splits)
  have "hd (take 1 pc) = hd pc" by (cases pc) simp_all
  then have "GetOp2_size opcode (take k pc) = Some (n, [])"
    using a r by (auto simp: GetOp2_size_def k_def ReadLE16_def ReadLE32_def split: if_splits)
  then have "\<forall>s. GetOp2_size opcode (take k pc @ s) = Some (n, s)" using GetOp2_size_append by force
  then show ?thesis using r by (intro exI [of _ "take k pc"]) simp
qed

lemma GetOp2_split:
  assumes "GetOp2 pc = Some (opcode, v, r)"
  obtains c where "pc = c @ r" "single_op c"
proof (cases pc)
  case (Cons b qc)
  show thesis
  proof (cases "b \<le> OP_PUSHDATA4")
    case True
    with assms Cons obtain n r1 where sz: "GetOp2_size b qc = Some (n, r1)" "n \<le> length r1"
      and v: "v = take n r1" and r: "r = drop n r1"
      by (auto split: option.splits if_splits)
    from GetOp2_size_split [OF sz(1)] obtain h where h: "qc = h @ r1" "\<And>s. GetOp2_size b (h @ s) = Some (n, s)"
      by blast
    have "single_op (b # h @ v)" using True sz(2) v h(2) [of v] by (simp add: single_op_def)
    moreover have "pc = (b # h @ v) @ r" by (simp add: Cons h(1) v r)
    ultimately show thesis by (rule that [rotated])
  next
    case False
    then have "pc = [b] @ r" "single_op [b]" using assms Cons by (auto simp: single_op_def)
    then show thesis by (rule that)
  qed
qed (use assms in simp)

text \<open>Every script is a sequence of operations followed by bytes that do not parse.\<close>

lemma script_ops:
  obtains cs junk where "pc = concat cs @ junk" "\<forall>c \<in> set cs. single_op c" "GetOp2 junk = None"
proof (induction "length pc" arbitrary: pc thesis rule: less_induct)
  case less
  show ?case
  proof (cases "GetOp2 pc")
    case None
    then show ?thesis using less(2) [of "[]" pc] by simp
  next
    case (Some x)
    then obtain opcode v r where g: "GetOp2 pc = Some (opcode, v, r)" by (cases x) auto
    obtain c where c: "pc = c @ r" "single_op c" by (rule GetOp2_split [OF g])
    obtain cs junk where "r = concat cs @ junk" "\<forall>c \<in> set cs. single_op c" "GetOp2 junk = None"
      using less(1) [OF GetOp2_shorter [OF g]] by blast
    then show ?thesis using c by (intro less(2) [of "c # cs" junk]) auto
  qed
qed

section \<open>FindAndDelete removes whole operations\<close>

lemma skip_occurrences_ops:
  assumes b: "single_op b" and junk: "GetOp2 junk = None"
  shows "\<forall>c \<in> set cs. single_op c \<Longrightarrow> skip_occurrences b (concat cs @ junk) n
    = (concat (dropWhile ((=) b) cs) @ junk, n + length (takeWhile ((=) b) cs))"
proof (induction cs arbitrary: n)
  case Nil
  then show ?case using single_op_prefix_junk [OF b junk] by (subst skip_occurrences.simps) simp
next
  case (Cons c cs)
  then show ?case using single_op_prefix [OF b, of c "concat cs @ junk"] b
    by (subst skip_occurrences.simps) auto
qed

lemma takeWhile_dropWhile_filter:
  "length (takeWhile ((=) b) cs) + count_list (dropWhile ((=) b) cs) b = count_list cs b"
  "filter ((\<noteq>) b) (dropWhile ((=) b) cs) = filter ((\<noteq>) b) cs"
  by (induction cs) auto

lemma find_and_delete_loop_ops:
  assumes b: "single_op b" and junk: "GetOp2 junk = None" and "\<forall>c \<in> set cs. single_op c"
  shows "\<exists>res pc2. find_and_delete_loop b result (c @ concat cs @ junk) (concat cs @ junk) n
      = (res, pc2, n + count_list cs b) \<and> res @ pc2 = result @ c @ concat (filter ((\<noteq>) b) cs) @ junk"
  using assms(3)
proof (induction "length cs" arbitrary: cs result c n rule: less_induct)
  case less
  let ?ds = "dropWhile ((=) b) cs" and ?k = "length (takeWhile ((=) b) cs)"
  note sk = skip_occurrences_ops [OF b junk less.prems, of n]
  show ?case
  proof (cases ?ds)
    case Nil
    note tf = takeWhile_dropWhile_filter [of b cs, unfolded Nil]
    then have "filter ((\<noteq>) b) cs = []" "?k = count_list cs b" by simp_all
    then show ?thesis
      using sk [unfolded Nil] junk by (subst find_and_delete_loop.simps) (simp add: Let_def)
  next
    case (Cons d ds)
    have d: "single_op d" "\<forall>c \<in> set ds. single_op c" "d \<noteq> b"
      using less.prems Cons set_dropWhileD [of _ "(=) b" cs] hd_dropWhile [of "(=) b" cs] by (auto simp: Cons)
    have "length ds < length cs" using Cons length_dropWhile_le [of "(=) b" cs] by simp
    from less.hyps [OF this d(2), of "result @ c" d "n + ?k"]
    obtain res pc2 where ih: "find_and_delete_loop b (result @ c) (d @ concat ds @ junk) (concat ds @ junk) (n + ?k)
        = (res, pc2, n + ?k + count_list ds b)" "res @ pc2 = (result @ c) @ d @ concat (filter ((\<noteq>) b) ds) @ junk"
      by blast
    obtain opcode v where g: "\<And>r. GetOp2 (d @ r) = Some (opcode, v, r)" using d(1) by (rule single_opE) blast
    have "find_and_delete_loop b result (c @ concat cs @ junk) (concat cs @ junk) n
        = find_and_delete_loop b (result @ c) (d @ concat ds @ junk) (concat ds @ junk) (n + ?k)"
      using sk g by (subst find_and_delete_loop.simps) (simp add: Let_def Cons)
    moreover have "filter ((\<noteq>) b) cs = d # filter ((\<noteq>) b) ds" "?k + count_list ds b = count_list cs b"
      using d(3) takeWhile_dropWhile_filter [of b cs, unfolded Cons] by auto
    ultimately show ?thesis using ih by (simp add: add.assoc)
  qed
qed

lemma FindAndDelete_ops:
  assumes "single_op b" "GetOp2 junk = None" "\<forall>c \<in> set cs. single_op c"
  shows "FindAndDelete (concat cs @ junk) b = (count_list cs b, concat (filter ((\<noteq>) b) cs) @ junk)"
proof -
  obtain res pc2 where r: "find_and_delete_loop b [] (concat cs @ junk) (concat cs @ junk) 0 = (res, pc2, count_list cs b)"
    "res @ pc2 = concat (filter ((\<noteq>) b) cs) @ junk"
    using find_and_delete_loop_ops [OF assms, of "[]" "[]" 0] by auto
  have "filter ((\<noteq>) b) cs = cs" if "count_list cs b = 0"
    using that by (auto simp: count_list_0_iff filter_id_conv)
  moreover have "b \<noteq> []" using assms(1) by auto
  ultimately show ?thesis using r by (simp add: FindAndDelete_def)
qed

section \<open>Counting signature operations\<close>

lemma DecodeOP_N_bounds: "DecodeOP_N opcode = Some n \<Longrightarrow> 0 \<le> n \<and> n \<le> 16"
proof -
  assume d: "DecodeOP_N opcode = Some n"
  have "uint OP_1 \<le> uint opcode" "uint opcode \<le> uint OP_16" if "OP_1 \<le> opcode" "opcode \<le> OP_16"
    using that by (simp_all add: word_le_def)
  then show ?thesis using d by (auto simp: DecodeOP_N_def split: if_splits)
qed

lemma sigop_weight: "OP_1 \<le> l \<Longrightarrow> l \<le> OP_16 \<Longrightarrow> nat (the (DecodeOP_N l)) \<le> MAX_PUBKEYS_PER_MULTISIG"
  using DecodeOP_N_bounds [of l] by (auto simp: MAX_PUBKEYS_PER_MULTISIG_def DecodeOP_N_def)

lemma GetSigOpCount_loop_mono:
  "n \<le> m \<Longrightarrow> GetSigOpCount_loop True l pc n \<le> GetSigOpCount_loop False l' pc m"
proof (induction "length pc" arbitrary: pc l l' n m rule: less_induct)
  case less
  show ?case
  proof (cases "GetOp2 pc")
    case None
    then show ?thesis using less.prems by (simp add: GetSigOpCount_loop.simps)
  next
    case (Some x)
    obtain opcode v r where g: "GetOp2 pc = Some (opcode, v, r)" using Some by (cases x) auto
    note IH = less.hyps [OF GetOp2_shorter [OF g]]
    show ?thesis
      using less.prems sigop_weight
      by (subst (1 2) GetSigOpCount_loop.simps) (auto simp: g intro!: IH add_mono)
  qed
qed

lemma GetSigOpCount_loop_bound: "GetSigOpCount_loop False l pc n \<le> n + MAX_PUBKEYS_PER_MULTISIG * length pc"
proof (induction "length pc" arbitrary: pc l n rule: less_induct)
  case less
  show ?case
  proof (cases "GetOp2 pc")
    case None
    then show ?thesis by (simp add: GetSigOpCount_loop.simps)
  next
    case (Some x)
    obtain opcode v r where g: "GetOp2 pc = Some (opcode, v, r)" using Some by (cases x) auto
    have r: "Suc (length r) \<le> length pc" using GetOp2_shorter [OF g] by simp
    have "GetSigOpCount_loop False opcode r m \<le> n + MAX_PUBKEYS_PER_MULTISIG * length pc"
      if "m \<le> n + MAX_PUBKEYS_PER_MULTISIG" for m
    proof -
      have "GetSigOpCount_loop False opcode r m \<le> m + MAX_PUBKEYS_PER_MULTISIG * length r"
        using less.hyps [OF GetOp2_shorter [OF g]] by blast
      also have "\<dots> \<le> n + MAX_PUBKEYS_PER_MULTISIG * Suc (length r)" using that by simp
      also have "\<dots> \<le> n + MAX_PUBKEYS_PER_MULTISIG * length pc" using r by (intro add_left_mono mult_le_mono2)
      finally show ?thesis .
    qed
    then show ?thesis by (subst GetSigOpCount_loop.simps) (auto simp: g MAX_PUBKEYS_PER_MULTISIG_def)
  qed
qed

section \<open>Properties\<close>

text \<open>
  C23. Script numbers: the byte strings that the constructor of \<^verbatim>\<open>CScriptNum\<close> accepts with
  \<^verbatim>\<open>fRequireMinimal\<close> and a size limit of \<open>k \<le> 8\<close> bytes are exactly the serializations of the
  numbers of at most \<open>8 * k - 1\<close> bits, and each is read back as its number.
\<close>

theorem scriptnum_bijection:
  assumes "k \<le> 8"
  shows "CScriptNum vch True k = Inr v \<longleftrightarrow> vch = serialize v \<and> \<bar>v\<bar> < 2 ^ (8 * k - 1)"
  using serialize_CScriptNum [OF _ assms] CScriptNum_serialize [OF _ assms] by blast

theorem scriptnum_bijection_witness:
  "CScriptNum [0xff, 0x80] True 4 = Inr (- 255) \<longleftrightarrow> [0xff, 0x80] = serialize (- 255) \<and> \<bar>- 255\<bar> < (2 :: int) ^ (8 * 4 - 1)"
  by (rule scriptnum_bijection) simp

text \<open>
  C25. Reading what was pushed: \<^verbatim>\<open>operator<<\<close> on bytes appends one operation to the script, and \<^verbatim>\<open>GetOp2\<close>
  at that place returns the push opcode, exactly the data, and what follows, for all four
  encodings of the length.
\<close>

theorem push_GetOp_roundtrip:
  assumes "length b < 2 ^ 32"
  shows "\<exists>c. push_data s b = s @ c \<and> single_op c \<and> GetOp2 (c @ rest) = Some (push_op b, b, rest)"
proof -
  have "single_op (push_data [] b)"
    using GetOp2_push_data [OF assms, of "[]"] by (simp add: single_op_def)
  then show ?thesis using GetOp2_push_data [OF assms, of rest] push_data_append by blast
qed

theorem push_GetOp_roundtrip_witness:
  "\<exists>c. push_data [OP_DUP] (replicate 300 7) = [OP_DUP] @ c \<and> single_op c
     \<and> GetOp2 (c @ [OP_EQUAL]) = Some (push_op (replicate 300 7), replicate 300 7, [OP_EQUAL])"
  by (rule push_GetOp_roundtrip) simp

text \<open>
  C26. \<^verbatim>\<open>FindAndDelete\<close> of one operation removes exactly the operations of the script that equal it
  (never bytes inside the data of another operation), keeps the rest in order, including a
  tail that does not parse, and returns how many it removed.
\<close>

theorem FindAndDelete_spec:
  assumes "single_op b"
  shows "\<exists>cs junk. script = concat cs @ junk \<and> list_all single_op cs \<and> GetOp2 junk = None
    \<and> FindAndDelete script b = (count_list cs b, concat (filter ((\<noteq>) b) cs) @ junk)"
proof -
  obtain cs junk where "script = concat cs @ junk" "\<forall>c \<in> set cs. single_op c" "GetOp2 junk = None"
    by (rule script_ops)
  then show ?thesis using FindAndDelete_ops [OF assms, of junk cs] by (auto simp: list_all_iff)
qed

theorem FindAndDelete_spec_witness:
  "\<exists>cs junk. [2, OP_CODESEPARATOR, 5, OP_CODESEPARATOR, 9, 1] = concat cs @ junk \<and> list_all single_op cs \<and> GetOp2 junk = None
    \<and> FindAndDelete [2, OP_CODESEPARATOR, 5, OP_CODESEPARATOR, 9, 1] [OP_CODESEPARATOR]
      = (count_list cs [OP_CODESEPARATOR], concat (filter ((\<noteq>) [OP_CODESEPARATOR]) cs) @ junk)"
  by (rule FindAndDelete_spec) (simp add: single_op_def)


end
