(* ===== verification/Block_Hash.thy ===== *)
theory Block_Hash
  imports Wallet_Prelude
begin

text \<open>
  The common shape of the hash classes of \<^verbatim>\<open>libwallet/crypto\<close>. \<^verbatim>\<open>CSHA1\<close>, \<^verbatim>\<open>CSHA256\<close>, \<^verbatim>\<open>CSHA512\<close>
  and \<^verbatim>\<open>CRIPEMD160\<close> have the same members (chaining words, a block buffer, a byte counter) and
  the same text for \<^verbatim>\<open>Write\<close>. \<open>hasher\<close> is that state; the locale \<open>block_hasher\<close> is
  the contract of \<^verbatim>\<open>Write\<close> over a block function, and its lemmas show once that the state after any
  sequence of writes represents the concatenation of what was written.
  The reference is the Merkle-Damgard construction \<open>md_pad\<close>, \<open>md_hash\<close>.
\<close>

record 'w hasher =
  hs_s :: "'w list"
  hs_buf :: bytes
  hs_bytes :: u64

text \<open>\<^verbatim>\<open>len\<close> bytes read at a pointer: \<open>None\<close> when the object is shorter.\<close>

definition rd :: "bytes \<Rightarrow> nat \<Rightarrow> bytes option" where
  "rd p len = (if len \<le> length p then Some (take len p) else None)"

section \<open>The reference construction\<close>

text \<open>The whole blocks of a byte string, in order.\<close>

definition md_blocks :: "nat \<Rightarrow> bytes \<Rightarrow> bytes list" where
  "md_blocks blk m = map (\<lambda>i. take blk (drop (i * blk) m)) [0..<length m div blk]"

text \<open>
  Padding: the message, one byte \<open>0x80\<close>, as few zero bytes as make the total a multiple of the
  block size, and the length field.
\<close>

definition md_pad :: "nat \<Rightarrow> bytes \<Rightarrow> bytes \<Rightarrow> bytes" where
  "md_pad blk lenfield m =
     m @ 0x80 # replicate (nat ((int blk - 1 - int (length lenfield) - int (length m)) mod int blk)) 0 @ lenfield"

definition md_hash :: "nat \<Rightarrow> ('w list \<Rightarrow> bytes \<Rightarrow> 'w list) \<Rightarrow> 'w list \<Rightarrow> bytes \<Rightarrow> 'w list" where
  "md_hash blk Tr s0 m = foldl Tr s0 (md_blocks blk m)"

text \<open>
  A state represents a message: the chaining words are those after its whole blocks, the buffer
  starts with what is left, and the counter is its length modulo \<open>2 ^ 64\<close>.
\<close>

definition represents :: "nat \<Rightarrow> ('w list \<Rightarrow> bytes \<Rightarrow> 'w list) \<Rightarrow> 'w list \<Rightarrow> 'w hasher \<Rightarrow> bytes \<Rightarrow> bool" where
  "represents blk Tr s0 h m \<longleftrightarrow>
     hs_s h = md_hash blk Tr s0 m \<and>
     length (hs_buf h) = blk \<and>
     take (length m mod blk) (hs_buf h) = drop (length m div blk * blk) m \<and>
     hs_bytes h = word_of_nat (length m)"

lemma md_blocks_small: "length r < blk \<Longrightarrow> md_blocks blk r = []"
  by (simp add: md_blocks_def)

lemma md_blocks_Cons:
  assumes "length b = blk" "0 < blk"
  shows "md_blocks blk (b @ m) = b # md_blocks blk m"
proof -
  have "length (b @ m) div blk = Suc (length m div blk)" using assms by (simp add: le_div_geq)
  then have "[0..<length (b @ m) div blk] = 0 # map Suc [0..<length m div blk]"
    by (simp add: map_Suc_upt upt_conv_Cons del: upt_Suc)
  then show ?thesis using assms by (simp add: md_blocks_def)
qed

lemma md_blocks_append:
  "0 < blk \<Longrightarrow> \<forall>b \<in> set bs. length b = blk \<Longrightarrow> md_blocks blk (concat bs @ m) = bs @ md_blocks blk m"
  by (induction bs) (simp_all add: md_blocks_Cons)

lemma length_concat_const: "\<forall>b \<in> set bs. length b = blk \<Longrightarrow> length (concat bs) = length bs * blk"
  by (induction bs) auto

lemma md_blocks_decomp_ex:
  "0 < blk \<Longrightarrow> \<exists>bs r. m = concat bs @ r \<and> (\<forall>b \<in> set bs. length b = blk) \<and> length r < blk"
proof (induction "length m" arbitrary: m rule: less_induct)
  case less
  show ?case
  proof (cases "length m < blk")
    case True
    then show ?thesis by (intro exI [of _ "[]"] exI [of _ m]) simp
  next
    case False
    with less.prems have "length (drop blk m) < length m" by simp
    then obtain bs r where d: "drop blk m = concat bs @ r" "\<forall>b \<in> set bs. length b = blk" "length r < blk"
      using less by blast
    have "m = concat (take blk m # bs) @ r" using d(1) append_take_drop_id [of blk m] by simp
    moreover have "\<forall>b \<in> set (take blk m # bs). length b = blk" using d(2) False by simp
    ultimately show ?thesis using d(3) by blast
  qed
qed

lemma md_blocks_decomp:
  assumes "0 < blk"
  obtains bs r where "m = concat bs @ r" "\<forall>b \<in> set bs. length b = blk" "length r < blk"
  using md_blocks_decomp_ex [OF assms, of m] by blast

lemma represents_iff:
  assumes "0 < blk"
  shows "represents blk Tr s0 h m \<longleftrightarrow>
    (\<exists>bs r. m = concat bs @ r \<and> (\<forall>b \<in> set bs. length b = blk) \<and> length r < blk \<and>
       hs_s h = foldl Tr s0 bs \<and> length (hs_buf h) = blk \<and> take (length r) (hs_buf h) = r \<and>
       hs_bytes h = word_of_nat (length m))" (is "?L \<longleftrightarrow> ?R")
proof -
  obtain bs r where d: "m = concat bs @ r" "\<forall>b \<in> set bs. length b = blk" "length r < blk"
    using md_blocks_decomp [OF assms] by metis
  have l: "length m mod blk = length r" "length m div blk = length bs" "drop (length bs * blk) m = r"
    using d assms by (simp_all add: length_concat_const [OF d(2)])
  have b: "md_blocks blk m = bs" using d assms by (simp add: md_blocks_append md_blocks_small)
  show ?thesis
  proof
    assume ?L
    with d show ?R unfolding represents_def md_hash_def b l by blast
  next
    assume ?R
    then obtain bs' r' where d': "m = concat bs' @ r'" "\<forall>b \<in> set bs'. length b = blk" "length r' < blk"
      and s: "hs_s h = foldl Tr s0 bs'" "length (hs_buf h) = blk" "take (length r') (hs_buf h) = r'"
        "hs_bytes h = word_of_nat (length m)" by blast
    have "bs' = bs" using d' assms b by (simp add: md_blocks_append md_blocks_small)
    with d d' have "r' = r" by simp
    with s \<open>bs' = bs\<close> show ?L unfolding represents_def md_hash_def b l by simp
  qed
qed

lemma unat_add_mod:
  assumes "blk dvd 2 ^ 64"
  shows "unat (x + word_of_nat k :: u64) mod blk = (unat x mod blk + k) mod blk"
proof -
  have "unat (x + word_of_nat k :: u64) = (unat x + k) mod 2 ^ 64"
    by (simp add: unat_word_ariths unat_of_nat mod_add_right_eq)
  then show ?thesis using assms by (simp add: mod_mod_cancel mod_add_left_eq)
qed

lemma wlist_mod: "(wlist k (v mod 2 ^ (LENGTH('a) * k)) :: 'a::len word list) = wlist k v"
  by (rule wval_inj) (simp_all add: wval_wlist)

lemma wlist_add: "wlist (j + k) v = (wlist j v @ wlist k (v div 2 ^ (LENGTH('a) * j)) :: 'a::len word list)"
  by (induction j arbitrary: v) (simp_all add: power_add div_mult2_eq)

lemma wlist_0: "wlist k 0 = replicate k 0"
  by (induction k) simp_all

lemma unat_bit_length: "unat (push_bit 3 (word_of_nat n :: u64)) = 8 * n mod 2 ^ (LENGTH(8) * 8)"
  by (simp only: unat_shl unat_of_nat) (simp add: mod_mult_right_eq mult.commute)

lemma WriteBE64_bits: "WriteBE64 (push_bit 3 (word_of_nat n)) = rev (wlist 8 (8 * n))"
  unfolding WriteBE64_def unat_bit_length wlist_mod ..

lemma WriteLE64_bits: "WriteLE64 (push_bit 3 (word_of_nat n)) = wlist 8 (8 * n)"
  unfolding WriteLE64_def unat_bit_length wlist_mod ..

lemma length_foldl_const: "(\<And>s b. length (Tr s b) = n) \<Longrightarrow> length s0 = n \<Longrightarrow> length (foldl Tr s0 bs) = n"
  by (induction bs arbitrary: s0) auto

lemma concat_map_nth: "length s = n \<Longrightarrow> concat (map (\<lambda>i. f (s ! i)) [0..<n]) = concat (map f s)"
  by (metis (no_types, lifting) map_map comp_def map_nth map_eq_conv)

section \<open>The contract of Write\<close>

text \<open>A sequence of calls of \<^verbatim>\<open>Write\<close>.\<close>

primrec write_all :: "('h \<Rightarrow> bytes \<Rightarrow> 'h option) \<Rightarrow> 'h \<Rightarrow> bytes list \<Rightarrow> 'h option" where
  "write_all W h [] = Some h"
| "write_all W h (d # ds) = do { h \<leftarrow> W h d; write_all W h ds }"

locale block_hasher =
  fixes blk :: nat
    and Tr :: "'w list \<Rightarrow> bytes \<Rightarrow> 'w list"
    and full_blocks :: "'w hasher \<Rightarrow> bytes \<Rightarrow> 'w hasher \<times> bytes"
    and Write :: "'w hasher \<Rightarrow> bytes \<Rightarrow> 'w hasher option"
  assumes blk_size: "blk = 64 \<or> blk = 128"
    and full_blocks_stop: "length d < blk \<Longrightarrow> full_blocks h d = (h, d)"
    and full_blocks_step: "length b = blk \<Longrightarrow>
      full_blocks h (b @ d) = full_blocks (h\<lparr>hs_s := Tr (hs_s h) b, hs_bytes := hs_bytes h + word_of_nat blk\<rparr>) d"
    and Write_direct: "unat (hs_bytes h) mod blk = 0 \<or> unat (hs_bytes h) mod blk + length d < blk \<Longrightarrow>
      Write h d = (case full_blocks h d of (h, d) \<Rightarrow>
        if d = [] then Some h
        else do { buf \<leftarrow> memcpy (hs_buf h) (int (unat (hs_bytes h) mod blk)) d 0 (int (length d));
                  Some (h\<lparr>hs_buf := buf, hs_bytes := hs_bytes h + word_of_nat (length d)\<rparr>) })"
    and Write_fill: "unat (hs_bytes h) mod blk = k \<Longrightarrow> k \<noteq> 0 \<Longrightarrow> blk \<le> k + length d \<Longrightarrow> length (hs_buf h) = blk \<Longrightarrow>
      \<exists>buf. memcpy (hs_buf h) (int k) d 0 (int (blk - k)) = Some buf \<and>
        Write h d = Write (h\<lparr>hs_s := Tr (hs_s h) buf, hs_buf := buf, hs_bytes := hs_bytes h + word_of_nat (blk - k)\<rparr>) (drop (blk - k) d)"
begin

lemma blk_pos: "0 < blk"
  using blk_size by auto

lemma blk_dvd: "blk dvd 2 ^ 64"
  using blk_size by auto

lemma unat_count: "unat (word_of_nat n :: u64) mod blk = n mod blk"
  using blk_dvd by (simp add: unat_of_nat mod_mod_cancel)

lemma full_blocks_concat:
  "\<forall>b \<in> set bs. length b = blk \<Longrightarrow> length r < blk \<Longrightarrow>
   full_blocks h (concat bs @ r) =
     (h\<lparr>hs_s := foldl Tr (hs_s h) bs, hs_bytes := hs_bytes h + word_of_nat (length (concat bs))\<rparr>, r)"
proof (induction bs arbitrary: h)
  case Nil
  then show ?case by (simp add: full_blocks_stop)
next
  case (Cons b bs)
  then show ?case by (simp add: full_blocks_step ac_simps)
qed

lemma Write_aligned:
  assumes rep: "represents blk Tr s0 h m" and al: "length m mod blk = 0"
  obtains h' where "Write h d = Some h'" "represents blk Tr s0 h' (m @ d)"
proof -
  from rep obtain bs r where m: "m = concat bs @ r" "\<forall>b \<in> set bs. length b = blk" "length r < blk"
    and h: "hs_s h = foldl Tr s0 bs" "length (hs_buf h) = blk" "hs_bytes h = word_of_nat (length m)"
    unfolding represents_iff [OF blk_pos] by blast
  have "r = []" using al m by (simp add: length_concat_const [OF m(2)])
  obtain cs q where d: "d = concat cs @ q" "\<forall>b \<in> set cs. length b = blk" "length q < blk"
    using md_blocks_decomp [OF blk_pos] by metis
  let ?h1 = "h\<lparr>hs_s := foldl Tr (hs_s h) cs, hs_bytes := hs_bytes h + word_of_nat (length (concat cs))\<rparr>"
  have z: "unat (hs_bytes h) mod blk = 0" using al h unat_count by simp
  have z1: "unat (hs_bytes ?h1) mod blk = 0"
    using al d unat_count [of "length m + length (concat cs)"] by (simp add: h length_concat_const [OF d(2)])
  have W: "Write h d = (if q = [] then Some ?h1
        else do { buf \<leftarrow> memcpy (hs_buf ?h1) (int (unat (hs_bytes ?h1) mod blk)) q 0 (int (length q));
                  Some (?h1\<lparr>hs_buf := buf, hs_bytes := hs_bytes ?h1 + word_of_nat (length q)\<rparr>) })"
    using Write_direct [of h d] z full_blocks_concat [OF d(2,3), of h] d(1) by simp
  define buf where "buf = (if q = [] then hs_buf h else q @ drop (length q) (hs_buf h))"
  define h' where "h' = ?h1\<lparr>hs_buf := buf, hs_bytes := hs_bytes h + word_of_nat (length d)\<rparr>"
  have "Write h d = Some h'"
    unfolding W z1 h'_def buf_def using d h by (auto simp: memcpy_def)
  moreover have "represents blk Tr s0 h' (m @ d)"
    unfolding represents_iff [OF blk_pos]
    by (rule exI [of _ "bs @ cs"], rule exI [of _ q]) (use m d h \<open>r = []\<close> in \<open>auto simp: h'_def buf_def\<close>)
  ultimately show ?thesis by (rule that)
qed

lemma Write_represents:
  assumes rep: "represents blk Tr s0 h m"
  obtains h' where "Write h d = Some h'" "represents blk Tr s0 h' (m @ d)"
proof -
  from rep obtain bs r where m: "m = concat bs @ r" "\<forall>b \<in> set bs. length b = blk" "length r < blk"
    and h: "hs_s h = foldl Tr s0 bs" "length (hs_buf h) = blk" "take (length r) (hs_buf h) = r"
      "hs_bytes h = word_of_nat (length m)"
    unfolding represents_iff [OF blk_pos] by blast
  have k: "unat (hs_bytes h) mod blk = length r"
    using unat_count [of "length m"] m by (simp add: h length_concat_const [OF m(2)])
  consider (aligned) "r = []" | (short) "r \<noteq> []" "length r + length d < blk" | (fill) "r \<noteq> []" "blk \<le> length r + length d"
    by linarith
  then show ?thesis
  proof cases
    case aligned
    then have "length m mod blk = 0" using m by (simp add: length_concat_const [OF m(2)])
    then show ?thesis by (rule Write_aligned [OF rep]) (rule that)
  next
    case short
    define h' where "h' = (if d = [] then h else
      h\<lparr>hs_buf := r @ d @ drop (length r + length d) (hs_buf h), hs_bytes := hs_bytes h + word_of_nat (length d)\<rparr>)"
    have "full_blocks h d = (h, d)" using short by (simp add: full_blocks_stop)
    then have "Write h d = Some h'"
      using Write_direct [of h d] short k h by (auto simp: h'_def memcpy_def nat_add_distrib)
    moreover have "represents blk Tr s0 h' (m @ d)"
      unfolding represents_iff [OF blk_pos]
      by (rule exI [of _ bs], rule exI [of _ "r @ d"]) (use m h short in \<open>auto simp: h'_def\<close>)
    ultimately show ?thesis by (rule that)
  next
    case fill
    let ?n = "blk - length r"
    from Write_fill [OF k _ fill(2) h(2)] fill obtain buf
      where b: "memcpy (hs_buf h) (int (length r)) d 0 (int ?n) = Some buf"
        and W: "Write h d = Write (h\<lparr>hs_s := Tr (hs_s h) buf, hs_buf := buf, hs_bytes := hs_bytes h + word_of_nat ?n\<rparr>) (drop ?n d)"
      by auto
    let ?h1 = "h\<lparr>hs_s := Tr (hs_s h) buf, hs_buf := buf, hs_bytes := hs_bytes h + word_of_nat ?n\<rparr>"
    have buf: "buf = r @ take ?n d" using b h m fill by (auto simp: memcpy_def nat_diff_distrib split: if_splits)
    have "represents blk Tr s0 ?h1 (m @ take ?n d)"
      unfolding represents_iff [OF blk_pos]
      by (rule exI [of _ "bs @ [buf]"], rule exI [of _ "[]"]) (use m h fill buf blk_pos in auto)
    moreover have "length (m @ take ?n d) mod blk = 0"
      using m fill by (simp add: length_concat_const [OF m(2)])
    ultimately obtain h' where "Write ?h1 (drop ?n d) = Some h'" "represents blk Tr s0 h' ((m @ take ?n d) @ drop ?n d)"
      using Write_aligned by metis
    with W show ?thesis using that by simp
  qed
qed

lemma represents_init: "length junk = blk \<Longrightarrow> represents blk Tr s0 \<lparr>hs_s = s0, hs_buf = junk, hs_bytes = 0\<rparr> []"
  by (simp add: represents_def md_hash_def md_blocks_def)

lemma write_all_represents:
  "represents blk Tr s0 h m \<Longrightarrow> \<exists>h'. write_all Write h ds = Some h' \<and> represents blk Tr s0 h' (m @ concat ds)"
proof (induction ds arbitrary: h m)
  case (Cons d ds)
  obtain h1 where "Write h d = Some h1" "represents blk Tr s0 h1 (m @ d)"
    using Write_represents [OF Cons.prems] by metis
  with Cons.IH [of h1 "m @ d"] show ?case by simp
qed simp

lemma represents_count: "represents blk Tr s0 h m \<Longrightarrow> hs_bytes h = word_of_nat (length m)"
  by (simp add: represents_def)

lemma Write_padding:
  assumes rep: "represents blk Tr s0 h m"
    and n: "n = 1 + (2 * blk - 1 - length lf - unat (hs_bytes h) mod blk) mod blk"
    and lf: "length lf < blk"
  obtains h1 h2 where "rd (0x80 # replicate (blk - 1) 0) n = Some (take n (0x80 # replicate (blk - 1) 0))"
    "Write h (take n (0x80 # replicate (blk - 1) 0)) = Some h1" "Write h1 lf = Some h2"
    "hs_s h2 = md_hash blk Tr s0 (md_pad blk lf m)" "length (hs_buf h2) = blk"
proof -
  define z where "z = (2 * blk - 1 - length lf - unat (hs_bytes h) mod blk) mod blk"
  have z_less: "z < blk" using blk_pos by (simp add: z_def)
  have n: "n = Suc z" using n by (simp add: z_def)
  have pad: "take n (0x80 # replicate (blk - 1) (0 :: byte)) = 0x80 # replicate z 0"
    unfolding n using z_less by (simp add: min_def)
  have "z = nat ((int blk - 1 - int (length lf) - int (length m)) mod int blk)"
  proof -
    have c: "unat (hs_bytes h) mod blk = length m mod blk"
      using represents_count [OF rep] unat_count by simp
    have lt: "length m mod blk < blk" using blk_pos by simp
    have d: "int (2 * blk - 1 - length lf - length m mod blk) = 2 * int blk - 1 - int (length lf) - int (length m mod blk)"
      using lt lf by linarith
    have "int z = (2 * int blk - 1 - int (length lf) - int (length m mod blk)) mod int blk"
      unfolding z_def c d [symmetric] by (rule of_nat_mod)
    also have "\<dots> = (2 * int blk - 1 - int (length lf) - int (length m)) mod int blk"
      unfolding of_nat_mod mod_diff_right_eq ..
    also have "2 * int blk - 1 - int (length lf) - int (length m) = (int blk - 1 - int (length lf) - int (length m)) + int blk"
      by simp
    also have "\<dots> mod int blk = (int blk - 1 - int (length lf) - int (length m)) mod int blk"
      by (rule mod_add_self2)
    finally show ?thesis by simp
  qed
  then have mp: "md_pad blk lf m = (m @ 0x80 # replicate z 0) @ lf" by (simp add: md_pad_def)
  obtain h1 where 1: "Write h (0x80 # replicate z 0) = Some h1" "represents blk Tr s0 h1 (m @ 0x80 # replicate z 0)"
    using Write_represents [OF rep] by metis
  obtain h2 where 2: "Write h1 lf = Some h2" "represents blk Tr s0 h2 (md_pad blk lf m)"
    using Write_represents [OF 1(2)] unfolding mp by metis
  show ?thesis
    by (rule that [of h1 h2]) (use 1 2 z_less n in \<open>auto simp: pad represents_def rd_def\<close>)
qed

end

section \<open>The contract of a digest\<close>

text \<open>
  What the users of a hash class rely on: writes append to the represented message, and
  \<^verbatim>\<open>Finalize\<close> returns the digest of it, for every admissible message. The lemmas are those of
  the users: splitting a message over several writes, and the keyed hash of two nested digests.
\<close>

locale stream_digest =
  fixes rep :: "'h \<Rightarrow> bytes \<Rightarrow> bool"
    and Write :: "'h \<Rightarrow> bytes \<Rightarrow> 'h option"
    and Finalize :: "'h \<Rightarrow> ('h \<times> bytes) option"
    and H :: "bytes \<Rightarrow> bytes"
    and ok :: "bytes \<Rightarrow> bool"
  assumes write_law: "rep h m \<Longrightarrow> \<exists>h'. Write h d = Some h' \<and> rep h' (m @ d)"
    and finalize_law: "rep h m \<Longrightarrow> ok m \<Longrightarrow> \<exists>h'. Finalize h = Some (h', H m)"
begin

lemma write_all_rep: "rep h m \<Longrightarrow> \<exists>h'. write_all Write h ds = Some h' \<and> rep h' (m @ concat ds)"
proof (induction ds arbitrary: h m)
  case (Cons d ds)
  obtain h1 where h1: "Write h d = Some h1" "rep h1 (m @ d)" using write_law [OF Cons.prems] by blast
  then show ?case using Cons.IH [OF h1(2)] by simp
qed simp

lemma digest_chunks:
  assumes "rep h []" "ok (concat ds)"
  shows "map_option snd (do { h \<leftarrow> write_all Write h ds; Finalize h }) = Some (H (concat ds))"
proof -
  obtain h1 where h1: "write_all Write h ds = Some h1" "rep h1 (concat ds)"
    using write_all_rep [OF assms(1), of ds] by auto
  with finalize_law [OF h1(2) assms(2)] show ?thesis by auto
qed

lemma digest_one:
  assumes "rep h []" "ok d"
  shows "\<exists>h1 h2. Write h d = Some h1 \<and> Finalize h1 = Some (h2, H d)"
  using write_law [OF assms(1), of d] finalize_law [OF _ assms(2)] by fastforce

lemma nested_digest:
  assumes "rep ho []" "rep hi []" "ok (kb @ concat ds)" "ok (ka @ H (kb @ concat ds))"
  obtains o1 i1 i2 where "Write ho ka = Some o1" "Write hi kb = Some i1" "write_all Write i1 ds = Some i2"
    "\<exists>i3 o2 o3. Finalize i2 = Some (i3, H (kb @ concat ds)) \<and> Write o1 (H (kb @ concat ds)) = Some o2 \<and>
       Finalize o2 = Some (o3, H (ka @ H (kb @ concat ds)))"
proof -
  obtain o1 where o1: "Write ho ka = Some o1" "rep o1 ka" using write_law [OF assms(1)] by auto
  obtain i1 where i1: "Write hi kb = Some i1" "rep i1 kb" using write_law [OF assms(2)] by auto
  obtain i2 where i2: "write_all Write i1 ds = Some i2" "rep i2 (kb @ concat ds)"
    using write_all_rep [OF i1(2)] by blast
  obtain i3 where i3: "Finalize i2 = Some (i3, H (kb @ concat ds))"
    using finalize_law [OF i2(2) assms(3)] by blast
  obtain o2 where o2: "Write o1 (H (kb @ concat ds)) = Some o2" "rep o2 (ka @ H (kb @ concat ds))"
    using write_law [OF o1(2)] by blast
  obtain o3 where "Finalize o2 = Some (o3, H (ka @ H (kb @ concat ds)))"
    using finalize_law [OF o2(2) assms(4)] by blast
  with o1(1) i1(1) i2(1) i3 o2(1) show ?thesis by (intro that) auto
qed

end

end
