(* ===== verification/Fips_Constants.thy ===== *)
theory Fips_Constants
  imports Block_Hash
begin

text \<open>
  The constants of FIPS 180-4 as the standard defines them: the first bits of the fractional parts of
  the cube roots (round constants) and square roots (initial values) of the first primes. The
  integer root is computed bit by bit and \<open>root_bits_eq\<close> reduces a value to two comparisons of
  powers, which gives the constants that the sources write out.
\<close>

primrec root_loop :: "nat \<Rightarrow> nat \<Rightarrow> nat \<Rightarrow> nat \<Rightarrow> nat" where
  "root_loop k x 0 r = r"
| "root_loop k x (Suc i) r = root_loop k x i (if (r + 2 ^ i) ^ k \<le> x then r + 2 ^ i else r)"

text \<open>The first \<open>LENGTH('a)\<close> bits after the point of the \<open>k\<close>-th root of \<open>p\<close>, for roots below \<open>2 ^ 5\<close>.\<close>

definition root_bits :: "nat \<Rightarrow> nat \<Rightarrow> 'a::len word" where
  "root_bits k p = word_of_nat (root_loop k (p * 2 ^ (k * LENGTH('a))) (LENGTH('a) + 5) 0)"

definition fips_primes :: "nat list" where
  "fips_primes = [
     2, 3, 5, 7, 11, 13, 17, 19, 23, 29, 31, 37, 41, 43, 47, 53, 59, 61, 67, 71, 73, 79, 83, 89, 97,
     101, 103, 107, 109, 113, 127, 131, 137, 139, 149, 151, 157, 163, 167, 173, 179, 181, 191, 193,
     197, 199, 211, 223, 227, 229, 233, 239, 241, 251, 257, 263, 269, 271, 277, 281, 283, 293, 307,
     311, 313, 317, 331, 337, 347, 349, 353, 359, 367, 373, 379, 383, 389, 397, 401, 409]"

definition fips_K256 :: "u32 list" where
  "fips_K256 = map (root_bits 3) (take 64 fips_primes)"

definition fips_K512 :: "u64 list" where
  "fips_K512 = map (root_bits 3) fips_primes"

definition fips_H256 :: "u32 list" where
  "fips_H256 = map (root_bits 2) (take 8 fips_primes)"

definition fips_H512 :: "u64 list" where
  "fips_H512 = map (root_bits 2) (take 8 fips_primes)"

section \<open>Integer roots\<close>

lemma root_loop_bounds:
  assumes "0 < k" "r ^ k \<le> x" "x < (r + 2 ^ i) ^ k"
  shows "(root_loop k x i r) ^ k \<le> x \<and> x < (root_loop k x i r + 1) ^ k"
  using assms(2,3)
proof (induction i arbitrary: r)
  case (Suc i)
  show ?case
  proof (cases "(r + 2 ^ i) ^ k \<le> x")
    case True
    then show ?thesis using Suc.IH [of "r + 2 ^ i"] Suc.prems by (simp add: mult_2 add.assoc)
  next
    case False
    then show ?thesis using Suc.IH [of r] Suc.prems by simp
  qed
qed simp

lemma root_unique:
  assumes "m ^ k \<le> x" "x < (m + 1) ^ k" "n ^ k \<le> x" "x < (n + 1) ^ k" "0 < k"
  shows "m = (n :: nat)"
proof -
  have "m ^ k < (n + 1) ^ k" "n ^ k < (m + 1) ^ k" using assms by linarith+
  then have "m < n + 1" "n < m + 1" using power_less_imp_less_base by blast+
  then show ?thesis by simp
qed

lemma root_bits_eq:
  fixes c :: "'a::len word"
  assumes "0 < k" "p < (2 ^ 5) ^ k"
    and lo: "(q * 2 ^ LENGTH('a) + unat c) ^ k \<le> p * 2 ^ (k * LENGTH('a))"
    and hi: "p * 2 ^ (k * LENGTH('a)) < (q * 2 ^ LENGTH('a) + unat c + 1) ^ k"
  shows "root_bits k p = c"
proof -
  let ?x = "p * 2 ^ (k * LENGTH('a))" and ?b = "LENGTH('a) + 5"
  have "?x < (2 ^ 5) ^ k * 2 ^ (k * LENGTH('a))" using assms(2) by (rule mult_strict_right_mono) simp
  also have "\<dots> = (2 ^ ?b) ^ k" by (simp only: power_mult [symmetric] power_add [symmetric] distrib_left distrib_right ac_simps)
  finally have "root_loop k ?x ?b 0 ^ k \<le> ?x \<and> ?x < (root_loop k ?x ?b 0 + 1) ^ k"
    using root_loop_bounds [of k 0 ?x ?b] assms(1) by (simp add: zero_power)
  then have "root_loop k ?x ?b 0 = q * 2 ^ LENGTH('a) + unat c"
    using root_unique [OF _ _ lo hi assms(1)] by blast
  then show ?thesis unfolding root_bits_def by (simp add: word_of_nat_eq_iff)
qed

text \<open>The integer parts of the roots that occur.\<close>

definition int_root :: "nat \<Rightarrow> nat \<Rightarrow> nat" where
  "int_root k p = length (filter (\<lambda>j. j ^ k \<le> p) [1, 2, 3, 4, 5, 6, 7])"

lemma take_drop_nths: "m + n \<le> length xs \<Longrightarrow> take n (drop m xs) = map (\<lambda>i. xs ! i) [m..<m + n]"
  by (rule nth_equalityI) auto

lemma upt16: "[m..<m + 16] = [m, m + 1, m + 2, m + 3, m + 4, m + 5, m + 6, m + 7,
    m + 8, m + 9, m + 10, m + 11, m + 12, m + 13, m + 14, m + 15]"
  by (simp add: upt_rec)

section \<open>The constants in the sources\<close>

lemma square_bits_eq:
  fixes c :: "'a::len word"
  assumes "p < (2 ^ 5) ^ 2" "(int_root 2 p * 2 ^ LENGTH('a) + unat c) ^ 2 \<le> p * 2 ^ (2 * LENGTH('a))"
    "p * 2 ^ (2 * LENGTH('a)) < (int_root 2 p * 2 ^ LENGTH('a) + unat c + 1) ^ 2"
  shows "root_bits 2 p = c"
  using assms root_bits_eq [of 2 p "int_root 2 p" c] by simp

lemma length_fips_primes [simp]: "length fips_primes = 80"
  by (simp add: fips_primes_def)

lemma length_fips_K [simp]: "length fips_K256 = 64" "length fips_K512 = 80"
  by (simp_all add: fips_K256_def fips_K512_def)

lemma fips_K256_nthI:
  assumes "i < 64" "fips_primes ! i = p" "p < (2 ^ 5) ^ 3"
    "(int_root 3 p * 2 ^ 32 + unat c) ^ 3 \<le> p * 2 ^ 96" "p * 2 ^ 96 < (int_root 3 p * 2 ^ 32 + unat c + 1) ^ 3"
  shows "fips_K256 ! i = c"
  using assms root_bits_eq [of 3 p "int_root 3 p" c] by (simp add: fips_K256_def)

lemma fips_K512_nthI:
  assumes "i < 80" "fips_primes ! i = p" "p < (2 ^ 5) ^ 3"
    "(int_root 3 p * 2 ^ 64 + unat c) ^ 3 \<le> p * 2 ^ 192" "p * 2 ^ 192 < (int_root 3 p * 2 ^ 64 + unat c + 1) ^ 3"
  shows "fips_K512 ! i = c"
  using assms root_bits_eq [of 3 p "int_root 3 p" c] by (simp add: fips_K512_def)

lemma fips_K256_nth_0:
  "fips_K256 ! 0 = 0x428a2f98"
  "fips_K256 ! (Suc 0) = 0x71374491"
  "fips_K256 ! (Suc (Suc 0)) = 0xb5c0fbcf"
  "fips_K256 ! 3 = 0xe9b5dba5"
  "fips_K256 ! 4 = 0x3956c25b"
  "fips_K256 ! 5 = 0x59f111f1"
  "fips_K256 ! 6 = 0x923f82a4"
  "fips_K256 ! 7 = 0xab1c5ed5"
  "fips_K256 ! 8 = 0xd807aa98"
  "fips_K256 ! 9 = 0x12835b01"
  "fips_K256 ! 10 = 0x243185be"
  "fips_K256 ! 11 = 0x550c7dc3"
  "fips_K256 ! 12 = 0x72be5d74"
  "fips_K256 ! 13 = 0x80deb1fe"
  "fips_K256 ! 14 = 0x9bdc06a7"
  "fips_K256 ! 15 = 0xc19bf174"
  by (rule fips_K256_nthI, simp, simp add: fips_primes_def, simp, simp add: int_root_def, simp add: int_root_def)+

lemma fips_K256_nth_1:
  "fips_K256 ! 16 = 0xe49b69c1"
  "fips_K256 ! 17 = 0xefbe4786"
  "fips_K256 ! 18 = 0x0fc19dc6"
  "fips_K256 ! 19 = 0x240ca1cc"
  "fips_K256 ! 20 = 0x2de92c6f"
  "fips_K256 ! 21 = 0x4a7484aa"
  "fips_K256 ! 22 = 0x5cb0a9dc"
  "fips_K256 ! 23 = 0x76f988da"
  "fips_K256 ! 24 = 0x983e5152"
  "fips_K256 ! 25 = 0xa831c66d"
  "fips_K256 ! 26 = 0xb00327c8"
  "fips_K256 ! 27 = 0xbf597fc7"
  "fips_K256 ! 28 = 0xc6e00bf3"
  "fips_K256 ! 29 = 0xd5a79147"
  "fips_K256 ! 30 = 0x06ca6351"
  "fips_K256 ! 31 = 0x14292967"
  by (rule fips_K256_nthI, simp, simp add: fips_primes_def, simp, simp add: int_root_def, simp add: int_root_def)+

lemma fips_K256_nth_2:
  "fips_K256 ! 32 = 0x27b70a85"
  "fips_K256 ! 33 = 0x2e1b2138"
  "fips_K256 ! 34 = 0x4d2c6dfc"
  "fips_K256 ! 35 = 0x53380d13"
  "fips_K256 ! 36 = 0x650a7354"
  "fips_K256 ! 37 = 0x766a0abb"
  "fips_K256 ! 38 = 0x81c2c92e"
  "fips_K256 ! 39 = 0x92722c85"
  "fips_K256 ! 40 = 0xa2bfe8a1"
  "fips_K256 ! 41 = 0xa81a664b"
  "fips_K256 ! 42 = 0xc24b8b70"
  "fips_K256 ! 43 = 0xc76c51a3"
  "fips_K256 ! 44 = 0xd192e819"
  "fips_K256 ! 45 = 0xd6990624"
  "fips_K256 ! 46 = 0xf40e3585"
  "fips_K256 ! 47 = 0x106aa070"
  by (rule fips_K256_nthI, simp, simp add: fips_primes_def, simp, simp add: int_root_def, simp add: int_root_def)+

lemma fips_K256_nth_3:
  "fips_K256 ! 48 = 0x19a4c116"
  "fips_K256 ! 49 = 0x1e376c08"
  "fips_K256 ! 50 = 0x2748774c"
  "fips_K256 ! 51 = 0x34b0bcb5"
  "fips_K256 ! 52 = 0x391c0cb3"
  "fips_K256 ! 53 = 0x4ed8aa4a"
  "fips_K256 ! 54 = 0x5b9cca4f"
  "fips_K256 ! 55 = 0x682e6ff3"
  "fips_K256 ! 56 = 0x748f82ee"
  "fips_K256 ! 57 = 0x78a5636f"
  "fips_K256 ! 58 = 0x84c87814"
  "fips_K256 ! 59 = 0x8cc70208"
  "fips_K256 ! 60 = 0x90befffa"
  "fips_K256 ! 61 = 0xa4506ceb"
  "fips_K256 ! 62 = 0xbef9a3f7"
  "fips_K256 ! 63 = 0xc67178f2"
  by (rule fips_K256_nthI, simp, simp add: fips_primes_def, simp, simp add: int_root_def, simp add: int_root_def)+

lemmas fips_K256_block_0 = take_drop_nths [of 0 16 fips_K256, unfolded upt16 list.map, simplified, simplified fips_K256_nth_0]
lemmas fips_K256_block_1 = take_drop_nths [of 16 16 fips_K256, unfolded upt16 list.map, simplified, simplified fips_K256_nth_1]
lemmas fips_K256_block_2 = take_drop_nths [of 32 16 fips_K256, unfolded upt16 list.map, simplified, simplified fips_K256_nth_2]
lemmas fips_K256_block_3 = take_drop_nths [of 48 16 fips_K256, unfolded upt16 list.map, simplified, simplified fips_K256_nth_3]

lemma fips_K512_nth_0:
  "fips_K512 ! 0 = 0x428a2f98d728ae22"
  "fips_K512 ! (Suc 0) = 0x7137449123ef65cd"
  "fips_K512 ! (Suc (Suc 0)) = 0xb5c0fbcfec4d3b2f"
  "fips_K512 ! 3 = 0xe9b5dba58189dbbc"
  "fips_K512 ! 4 = 0x3956c25bf348b538"
  "fips_K512 ! 5 = 0x59f111f1b605d019"
  "fips_K512 ! 6 = 0x923f82a4af194f9b"
  "fips_K512 ! 7 = 0xab1c5ed5da6d8118"
  "fips_K512 ! 8 = 0xd807aa98a3030242"
  "fips_K512 ! 9 = 0x12835b0145706fbe"
  "fips_K512 ! 10 = 0x243185be4ee4b28c"
  "fips_K512 ! 11 = 0x550c7dc3d5ffb4e2"
  "fips_K512 ! 12 = 0x72be5d74f27b896f"
  "fips_K512 ! 13 = 0x80deb1fe3b1696b1"
  "fips_K512 ! 14 = 0x9bdc06a725c71235"
  "fips_K512 ! 15 = 0xc19bf174cf692694"
  by (rule fips_K512_nthI, simp, simp add: fips_primes_def, simp, simp add: int_root_def, simp add: int_root_def)+

lemma fips_K512_nth_1:
  "fips_K512 ! 16 = 0xe49b69c19ef14ad2"
  "fips_K512 ! 17 = 0xefbe4786384f25e3"
  "fips_K512 ! 18 = 0x0fc19dc68b8cd5b5"
  "fips_K512 ! 19 = 0x240ca1cc77ac9c65"
  "fips_K512 ! 20 = 0x2de92c6f592b0275"
  "fips_K512 ! 21 = 0x4a7484aa6ea6e483"
  "fips_K512 ! 22 = 0x5cb0a9dcbd41fbd4"
  "fips_K512 ! 23 = 0x76f988da831153b5"
  "fips_K512 ! 24 = 0x983e5152ee66dfab"
  "fips_K512 ! 25 = 0xa831c66d2db43210"
  "fips_K512 ! 26 = 0xb00327c898fb213f"
  "fips_K512 ! 27 = 0xbf597fc7beef0ee4"
  "fips_K512 ! 28 = 0xc6e00bf33da88fc2"
  "fips_K512 ! 29 = 0xd5a79147930aa725"
  "fips_K512 ! 30 = 0x06ca6351e003826f"
  "fips_K512 ! 31 = 0x142929670a0e6e70"
  by (rule fips_K512_nthI, simp, simp add: fips_primes_def, simp, simp add: int_root_def, simp add: int_root_def)+

lemma fips_K512_nth_2:
  "fips_K512 ! 32 = 0x27b70a8546d22ffc"
  "fips_K512 ! 33 = 0x2e1b21385c26c926"
  "fips_K512 ! 34 = 0x4d2c6dfc5ac42aed"
  "fips_K512 ! 35 = 0x53380d139d95b3df"
  "fips_K512 ! 36 = 0x650a73548baf63de"
  "fips_K512 ! 37 = 0x766a0abb3c77b2a8"
  "fips_K512 ! 38 = 0x81c2c92e47edaee6"
  "fips_K512 ! 39 = 0x92722c851482353b"
  "fips_K512 ! 40 = 0xa2bfe8a14cf10364"
  "fips_K512 ! 41 = 0xa81a664bbc423001"
  "fips_K512 ! 42 = 0xc24b8b70d0f89791"
  "fips_K512 ! 43 = 0xc76c51a30654be30"
  "fips_K512 ! 44 = 0xd192e819d6ef5218"
  "fips_K512 ! 45 = 0xd69906245565a910"
  "fips_K512 ! 46 = 0xf40e35855771202a"
  "fips_K512 ! 47 = 0x106aa07032bbd1b8"
  by (rule fips_K512_nthI, simp, simp add: fips_primes_def, simp, simp add: int_root_def, simp add: int_root_def)+

lemma fips_K512_nth_3:
  "fips_K512 ! 48 = 0x19a4c116b8d2d0c8"
  "fips_K512 ! 49 = 0x1e376c085141ab53"
  "fips_K512 ! 50 = 0x2748774cdf8eeb99"
  "fips_K512 ! 51 = 0x34b0bcb5e19b48a8"
  "fips_K512 ! 52 = 0x391c0cb3c5c95a63"
  "fips_K512 ! 53 = 0x4ed8aa4ae3418acb"
  "fips_K512 ! 54 = 0x5b9cca4f7763e373"
  "fips_K512 ! 55 = 0x682e6ff3d6b2b8a3"
  "fips_K512 ! 56 = 0x748f82ee5defb2fc"
  "fips_K512 ! 57 = 0x78a5636f43172f60"
  "fips_K512 ! 58 = 0x84c87814a1f0ab72"
  "fips_K512 ! 59 = 0x8cc702081a6439ec"
  "fips_K512 ! 60 = 0x90befffa23631e28"
  "fips_K512 ! 61 = 0xa4506cebde82bde9"
  "fips_K512 ! 62 = 0xbef9a3f7b2c67915"
  "fips_K512 ! 63 = 0xc67178f2e372532b"
  by (rule fips_K512_nthI, simp, simp add: fips_primes_def, simp, simp add: int_root_def, simp add: int_root_def)+

lemma fips_K512_nth_4:
  "fips_K512 ! 64 = 0xca273eceea26619c"
  "fips_K512 ! 65 = 0xd186b8c721c0c207"
  "fips_K512 ! 66 = 0xeada7dd6cde0eb1e"
  "fips_K512 ! 67 = 0xf57d4f7fee6ed178"
  "fips_K512 ! 68 = 0x06f067aa72176fba"
  "fips_K512 ! 69 = 0x0a637dc5a2c898a6"
  "fips_K512 ! 70 = 0x113f9804bef90dae"
  "fips_K512 ! 71 = 0x1b710b35131c471b"
  "fips_K512 ! 72 = 0x28db77f523047d84"
  "fips_K512 ! 73 = 0x32caab7b40c72493"
  "fips_K512 ! 74 = 0x3c9ebe0a15c9bebc"
  "fips_K512 ! 75 = 0x431d67c49c100d4c"
  "fips_K512 ! 76 = 0x4cc5d4becb3e42b6"
  "fips_K512 ! 77 = 0x597f299cfc657e2a"
  "fips_K512 ! 78 = 0x5fcb6fab3ad6faec"
  "fips_K512 ! 79 = 0x6c44198c4a475817"
  by (rule fips_K512_nthI, simp, simp add: fips_primes_def, simp, simp add: int_root_def, simp add: int_root_def)+

lemmas fips_K512_block_0 = take_drop_nths [of 0 16 fips_K512, unfolded upt16 list.map, simplified, simplified fips_K512_nth_0]
lemmas fips_K512_block_1 = take_drop_nths [of 16 16 fips_K512, unfolded upt16 list.map, simplified, simplified fips_K512_nth_1]
lemmas fips_K512_block_2 = take_drop_nths [of 32 16 fips_K512, unfolded upt16 list.map, simplified, simplified fips_K512_nth_2]
lemmas fips_K512_block_3 = take_drop_nths [of 48 16 fips_K512, unfolded upt16 list.map, simplified, simplified fips_K512_nth_3]
lemmas fips_K512_block_4 = take_drop_nths [of 64 16 fips_K512, unfolded upt16 list.map, simplified, simplified fips_K512_nth_4]

lemma fips_H256_root:
  "root_bits 2 2 = (0x6a09e667 :: u32)"
  "root_bits 2 3 = (0xbb67ae85 :: u32)"
  "root_bits 2 5 = (0x3c6ef372 :: u32)"
  "root_bits 2 7 = (0xa54ff53a :: u32)"
  "root_bits 2 11 = (0x510e527f :: u32)"
  "root_bits 2 13 = (0x9b05688c :: u32)"
  "root_bits 2 17 = (0x1f83d9ab :: u32)"
  "root_bits 2 19 = (0x5be0cd19 :: u32)"
  by (rule square_bits_eq; simp add: int_root_def)+

lemma fips_H256_eq: "fips_H256 = [0x6a09e667, 0xbb67ae85, 0x3c6ef372, 0xa54ff53a, 0x510e527f, 0x9b05688c, 0x1f83d9ab, 0x5be0cd19]"
  by (simp add: fips_H256_def fips_primes_def fips_H256_root)

lemma fips_H512_root:
  "root_bits 2 2 = (0x6a09e667f3bcc908 :: u64)"
  "root_bits 2 3 = (0xbb67ae8584caa73b :: u64)"
  "root_bits 2 5 = (0x3c6ef372fe94f82b :: u64)"
  "root_bits 2 7 = (0xa54ff53a5f1d36f1 :: u64)"
  "root_bits 2 11 = (0x510e527fade682d1 :: u64)"
  "root_bits 2 13 = (0x9b05688c2b3e6c1f :: u64)"
  "root_bits 2 17 = (0x1f83d9abfb41bd6b :: u64)"
  "root_bits 2 19 = (0x5be0cd19137e2179 :: u64)"
  by (rule square_bits_eq; simp add: int_root_def)+

lemma fips_H512_eq: "fips_H512 = [0x6a09e667f3bcc908, 0xbb67ae8584caa73b, 0x3c6ef372fe94f82b, 0xa54ff53a5f1d36f1, 0x510e527fade682d1, 0x9b05688c2b3e6c1f, 0x1f83d9abfb41bd6b, 0x5be0cd19137e2179]"
  by (simp add: fips_H512_def fips_primes_def fips_H512_root)

end
