(* ===== verification/Sha2.thy ===== *)
theory Sha2
  imports Fips_Constants
begin

text \<open>
  \<^verbatim>\<open>crypto/sha256.cpp\<close>, \<^verbatim>\<open>crypto/sha512.cpp\<close> and the two HMAC classes. The block functions are the
  unrolled rounds of the source, one definition per paragraph of sixteen \<^verbatim>\<open>Round\<close> lines, in which the
  roles of the eight working variables rotate and the schedule words are updated in place.
  The reference is the description of FIPS 180-4: a message schedule \<open>sha2_schedule\<close> and one
  \<open>sha2_step\<close> per round constant; \<open>sha256_Transform_fips\<close> and \<open>sha512_Transform_fips\<close> show
  that the block functions compute it.
\<close>

section \<open>The reference: FIPS 180-4\<close>

type_synonym 'a regs8 = "'a \<times> 'a \<times> 'a \<times> 'a \<times> 'a \<times> 'a \<times> 'a \<times> 'a"
type_synonym 'a ws16 = "'a \<times> 'a \<times> 'a \<times> 'a \<times> 'a \<times> 'a \<times> 'a \<times> 'a \<times> 'a \<times> 'a \<times> 'a \<times> 'a \<times> 'a \<times> 'a \<times> 'a \<times> 'a"

definition fips_Ch :: "'a::len word \<Rightarrow> 'a word \<Rightarrow> 'a word \<Rightarrow> 'a word" where
  "fips_Ch x y z = (x AND y) XOR (NOT x AND z)"

definition fips_Maj :: "'a::len word \<Rightarrow> 'a word \<Rightarrow> 'a word \<Rightarrow> 'a word" where
  "fips_Maj x y z = (x AND y) XOR (x AND z) XOR (y AND z)"

definition sha2_step :: "('a::len word \<Rightarrow> 'a word) \<Rightarrow> ('a word \<Rightarrow> 'a word) \<Rightarrow> 'a word \<Rightarrow> 'a word \<Rightarrow> 'a word regs8 \<Rightarrow> 'a word regs8" where
  "sha2_step S0 S1 K W = (\<lambda>(a, b, c, d, e, f, g, h).
     let T1 = h + S1 e + fips_Ch e f g + K + W;
         T2 = S0 a + fips_Maj a b c
     in (T1 + T2, a, b, c, d + T1, e, f, g))"

primrec sha2_schedule :: "('a::len word \<Rightarrow> 'a word) \<Rightarrow> ('a word \<Rightarrow> 'a word) \<Rightarrow> nat \<Rightarrow> 'a word list \<Rightarrow> 'a word list" where
  "sha2_schedule s0 s1 0 W = W"
| "sha2_schedule s0 s1 (Suc n) W = (let t = length W in
     sha2_schedule s0 s1 n (W @ [s1 (W ! (t - 2)) + W ! (t - 7) + s0 (W ! (t - 15)) + W ! (t - 16)]))"

definition sha2_compress ::
  "('a::len word \<Rightarrow> 'a word) \<Rightarrow> ('a word \<Rightarrow> 'a word) \<Rightarrow> ('a word \<Rightarrow> 'a word) \<Rightarrow> ('a word \<Rightarrow> 'a word) \<Rightarrow>
   'a word list \<Rightarrow> 'a word list \<Rightarrow> 'a word regs8 \<Rightarrow> 'a word regs8" where
  "sha2_compress S0 S1 s0 s1 K M H =
     fold (\<lambda>(k, w). sha2_step S0 S1 k w) (zip K (sha2_schedule s0 s1 (length K - 16) M)) H"

definition add_regs8 :: "'a::plus list \<Rightarrow> 'a regs8 \<Rightarrow> 'a list" where
  "add_regs8 H = (\<lambda>(a, b, c, d, e, f, g, h).
     [H ! 0 + a, H ! 1 + b, H ! 2 + c, H ! 3 + d, H ! 4 + e, H ! 5 + f, H ! 6 + g, H ! 7 + h])"

definition regs8_of :: "'a list \<Rightarrow> 'a regs8" where
  "regs8_of H = (H ! 0, H ! 1, H ! 2, H ! 3, H ! 4, H ! 5, H ! 6, H ! 7)"

definition fips_sha256_block :: "u32 list \<Rightarrow> bytes \<Rightarrow> u32 list" where
  "fips_sha256_block H B = add_regs8 H
     (sha2_compress
        (\<lambda>x. word_rotr 2 x XOR word_rotr 13 x XOR word_rotr 22 x)
        (\<lambda>x. word_rotr 6 x XOR word_rotr 11 x XOR word_rotr 25 x)
        (\<lambda>x. word_rotr 7 x XOR word_rotr 18 x XOR drop_bit 3 x)
        (\<lambda>x. word_rotr 17 x XOR word_rotr 19 x XOR drop_bit 10 x)
        fips_K256 (map (\<lambda>i. ReadBE32 (drop (4 * i) B)) [0..<16]) (regs8_of H))"

definition fips_sha512_block :: "u64 list \<Rightarrow> bytes \<Rightarrow> u64 list" where
  "fips_sha512_block H B = add_regs8 H
     (sha2_compress
        (\<lambda>x. word_rotr 28 x XOR word_rotr 34 x XOR word_rotr 39 x)
        (\<lambda>x. word_rotr 14 x XOR word_rotr 18 x XOR word_rotr 41 x)
        (\<lambda>x. word_rotr 1 x XOR word_rotr 8 x XOR drop_bit 7 x)
        (\<lambda>x. word_rotr 19 x XOR word_rotr 61 x XOR drop_bit 6 x)
        fips_K512 (map (\<lambda>i. ReadBE64 (drop (8 * i) B)) [0..<16]) (regs8_of H))"

text \<open>The FIPS hash functions of messages of fewer than \<open>2 ^ 61\<close> bytes (\<open>2 ^ 125\<close> in the standard for SHA-512).\<close>

definition fips_sha256 :: "bytes \<Rightarrow> bytes" where
  "fips_sha256 m = concat (map WriteBE32
     (md_hash 64 fips_sha256_block fips_H256
        (md_pad 64 (rev (wlist 8 (8 * length m))) m)))"

definition fips_sha512 :: "bytes \<Rightarrow> bytes" where
  "fips_sha512 m = concat (map WriteBE64
     (md_hash 128 fips_sha512_block fips_H512
        (md_pad 128 (rev (wlist 16 (8 * length m))) m)))"

definition fips_hmac :: "(bytes \<Rightarrow> bytes) \<Rightarrow> nat \<Rightarrow> bytes \<Rightarrow> bytes \<Rightarrow> bytes" where
  "fips_hmac H B key text =
     (let k0 = (if length key \<le> B then key else H key);
          k = k0 @ replicate (B - length k0) 0
      in H (map (\<lambda>x. x XOR 0x5c) k @ H (map (\<lambda>x. x XOR 0x36) k @ text)))"

section \<open>SHA-256\<close>

definition sha256_Ch :: "u32 \<Rightarrow> u32 \<Rightarrow> u32 \<Rightarrow> u32" where
  "sha256_Ch x y z = z XOR (x AND (y XOR z))"

definition sha256_Maj :: "u32 \<Rightarrow> u32 \<Rightarrow> u32 \<Rightarrow> u32" where
  "sha256_Maj x y z = (x AND y) OR (z AND (x OR y))"

definition sha256_Sigma0 :: "u32 \<Rightarrow> u32" where
  "sha256_Sigma0 x = (drop_bit 2 x OR push_bit 30 x) XOR (drop_bit 13 x OR push_bit 19 x) XOR (drop_bit 22 x OR push_bit 10 x)"

definition sha256_Sigma1 :: "u32 \<Rightarrow> u32" where
  "sha256_Sigma1 x = (drop_bit 6 x OR push_bit 26 x) XOR (drop_bit 11 x OR push_bit 21 x) XOR (drop_bit 25 x OR push_bit 7 x)"

definition sha256_sigma0 :: "u32 \<Rightarrow> u32" where
  "sha256_sigma0 x = (drop_bit 7 x OR push_bit 25 x) XOR (drop_bit 18 x OR push_bit 14 x) XOR drop_bit 3 x"

definition sha256_sigma1 :: "u32 \<Rightarrow> u32" where
  "sha256_sigma1 x = (drop_bit 17 x OR push_bit 15 x) XOR (drop_bit 19 x OR push_bit 13 x) XOR drop_bit 10 x"

text \<open>\<^verbatim>\<open>Round\<close> updates its reference parameters \<^verbatim>\<open>d\<close> and \<^verbatim>\<open>h\<close>: they are the result.\<close>

definition sha256_Round :: "u32 \<Rightarrow> u32 \<Rightarrow> u32 \<Rightarrow> u32 \<Rightarrow> u32 \<Rightarrow> u32 \<Rightarrow> u32 \<Rightarrow> u32 \<Rightarrow> u32 \<Rightarrow> u32 \<Rightarrow> u32 \<times> u32" where
  "sha256_Round a b c d e f g h k w =
     (let t1 = h + sha256_Sigma1 e + sha256_Ch e f g + k + w;
          t2 = sha256_Sigma0 a + sha256_Maj a b c
      in (d + t1, t1 + t2))"

definition sha256_Initialize :: "u32 list" where
  "sha256_Initialize = [
     0x6a09e667, 0xbb67ae85, 0x3c6ef372, 0xa54ff53a, 0x510e527f, 0x9b05688c, 0x1f83d9ab, 0x5be0cd19]"

definition sha256_rounds0 :: "bytes \<Rightarrow> u32 regs8 \<Rightarrow> u32 ws16 \<times> u32 regs8" where
  "sha256_rounds0 chunk = (\<lambda>(a, b, c, d, e, f, g, h). let
     w0 = ReadBE32 (drop 0 chunk); (d, h) = sha256_Round a b c d e f g h 0x428a2f98 w0;
     w1 = ReadBE32 (drop 4 chunk); (c, g) = sha256_Round h a b c d e f g 0x71374491 w1;
     w2 = ReadBE32 (drop 8 chunk); (b, f) = sha256_Round g h a b c d e f 0xb5c0fbcf w2;
     w3 = ReadBE32 (drop 12 chunk); (a, e) = sha256_Round f g h a b c d e 0xe9b5dba5 w3;
     w4 = ReadBE32 (drop 16 chunk); (h, d) = sha256_Round e f g h a b c d 0x3956c25b w4;
     w5 = ReadBE32 (drop 20 chunk); (g, c) = sha256_Round d e f g h a b c 0x59f111f1 w5;
     w6 = ReadBE32 (drop 24 chunk); (f, b) = sha256_Round c d e f g h a b 0x923f82a4 w6;
     w7 = ReadBE32 (drop 28 chunk); (e, a) = sha256_Round b c d e f g h a 0xab1c5ed5 w7;
     w8 = ReadBE32 (drop 32 chunk); (d, h) = sha256_Round a b c d e f g h 0xd807aa98 w8;
     w9 = ReadBE32 (drop 36 chunk); (c, g) = sha256_Round h a b c d e f g 0x12835b01 w9;
     w10 = ReadBE32 (drop 40 chunk); (b, f) = sha256_Round g h a b c d e f 0x243185be w10;
     w11 = ReadBE32 (drop 44 chunk); (a, e) = sha256_Round f g h a b c d e 0x550c7dc3 w11;
     w12 = ReadBE32 (drop 48 chunk); (h, d) = sha256_Round e f g h a b c d 0x72be5d74 w12;
     w13 = ReadBE32 (drop 52 chunk); (g, c) = sha256_Round d e f g h a b c 0x80deb1fe w13;
     w14 = ReadBE32 (drop 56 chunk); (f, b) = sha256_Round c d e f g h a b 0x9bdc06a7 w14;
     w15 = ReadBE32 (drop 60 chunk); (e, a) = sha256_Round b c d e f g h a 0xc19bf174 w15
     in ((w0, w1, w2, w3, w4, w5, w6, w7, w8, w9, w10, w11, w12, w13, w14, w15), (a, b, c, d, e, f, g, h)))"

definition sha256_rounds1 :: "u32 ws16 \<times> u32 regs8 \<Rightarrow> u32 ws16 \<times> u32 regs8" where
  "sha256_rounds1 = (\<lambda>((w0, w1, w2, w3, w4, w5, w6, w7, w8, w9, w10, w11, w12, w13, w14, w15), (a, b, c, d, e, f, g, h)). let
     w0 = w0 + (sha256_sigma1 w14 + w9 + sha256_sigma0 w1); (d, h) = sha256_Round a b c d e f g h 0xe49b69c1 w0;
     w1 = w1 + (sha256_sigma1 w15 + w10 + sha256_sigma0 w2); (c, g) = sha256_Round h a b c d e f g 0xefbe4786 w1;
     w2 = w2 + (sha256_sigma1 w0 + w11 + sha256_sigma0 w3); (b, f) = sha256_Round g h a b c d e f 0x0fc19dc6 w2;
     w3 = w3 + (sha256_sigma1 w1 + w12 + sha256_sigma0 w4); (a, e) = sha256_Round f g h a b c d e 0x240ca1cc w3;
     w4 = w4 + (sha256_sigma1 w2 + w13 + sha256_sigma0 w5); (h, d) = sha256_Round e f g h a b c d 0x2de92c6f w4;
     w5 = w5 + (sha256_sigma1 w3 + w14 + sha256_sigma0 w6); (g, c) = sha256_Round d e f g h a b c 0x4a7484aa w5;
     w6 = w6 + (sha256_sigma1 w4 + w15 + sha256_sigma0 w7); (f, b) = sha256_Round c d e f g h a b 0x5cb0a9dc w6;
     w7 = w7 + (sha256_sigma1 w5 + w0 + sha256_sigma0 w8); (e, a) = sha256_Round b c d e f g h a 0x76f988da w7;
     w8 = w8 + (sha256_sigma1 w6 + w1 + sha256_sigma0 w9); (d, h) = sha256_Round a b c d e f g h 0x983e5152 w8;
     w9 = w9 + (sha256_sigma1 w7 + w2 + sha256_sigma0 w10); (c, g) = sha256_Round h a b c d e f g 0xa831c66d w9;
     w10 = w10 + (sha256_sigma1 w8 + w3 + sha256_sigma0 w11); (b, f) = sha256_Round g h a b c d e f 0xb00327c8 w10;
     w11 = w11 + (sha256_sigma1 w9 + w4 + sha256_sigma0 w12); (a, e) = sha256_Round f g h a b c d e 0xbf597fc7 w11;
     w12 = w12 + (sha256_sigma1 w10 + w5 + sha256_sigma0 w13); (h, d) = sha256_Round e f g h a b c d 0xc6e00bf3 w12;
     w13 = w13 + (sha256_sigma1 w11 + w6 + sha256_sigma0 w14); (g, c) = sha256_Round d e f g h a b c 0xd5a79147 w13;
     w14 = w14 + (sha256_sigma1 w12 + w7 + sha256_sigma0 w15); (f, b) = sha256_Round c d e f g h a b 0x06ca6351 w14;
     w15 = w15 + (sha256_sigma1 w13 + w8 + sha256_sigma0 w0); (e, a) = sha256_Round b c d e f g h a 0x14292967 w15
     in ((w0, w1, w2, w3, w4, w5, w6, w7, w8, w9, w10, w11, w12, w13, w14, w15), (a, b, c, d, e, f, g, h)))"

definition sha256_rounds2 :: "u32 ws16 \<times> u32 regs8 \<Rightarrow> u32 ws16 \<times> u32 regs8" where
  "sha256_rounds2 = (\<lambda>((w0, w1, w2, w3, w4, w5, w6, w7, w8, w9, w10, w11, w12, w13, w14, w15), (a, b, c, d, e, f, g, h)). let
     w0 = w0 + (sha256_sigma1 w14 + w9 + sha256_sigma0 w1); (d, h) = sha256_Round a b c d e f g h 0x27b70a85 w0;
     w1 = w1 + (sha256_sigma1 w15 + w10 + sha256_sigma0 w2); (c, g) = sha256_Round h a b c d e f g 0x2e1b2138 w1;
     w2 = w2 + (sha256_sigma1 w0 + w11 + sha256_sigma0 w3); (b, f) = sha256_Round g h a b c d e f 0x4d2c6dfc w2;
     w3 = w3 + (sha256_sigma1 w1 + w12 + sha256_sigma0 w4); (a, e) = sha256_Round f g h a b c d e 0x53380d13 w3;
     w4 = w4 + (sha256_sigma1 w2 + w13 + sha256_sigma0 w5); (h, d) = sha256_Round e f g h a b c d 0x650a7354 w4;
     w5 = w5 + (sha256_sigma1 w3 + w14 + sha256_sigma0 w6); (g, c) = sha256_Round d e f g h a b c 0x766a0abb w5;
     w6 = w6 + (sha256_sigma1 w4 + w15 + sha256_sigma0 w7); (f, b) = sha256_Round c d e f g h a b 0x81c2c92e w6;
     w7 = w7 + (sha256_sigma1 w5 + w0 + sha256_sigma0 w8); (e, a) = sha256_Round b c d e f g h a 0x92722c85 w7;
     w8 = w8 + (sha256_sigma1 w6 + w1 + sha256_sigma0 w9); (d, h) = sha256_Round a b c d e f g h 0xa2bfe8a1 w8;
     w9 = w9 + (sha256_sigma1 w7 + w2 + sha256_sigma0 w10); (c, g) = sha256_Round h a b c d e f g 0xa81a664b w9;
     w10 = w10 + (sha256_sigma1 w8 + w3 + sha256_sigma0 w11); (b, f) = sha256_Round g h a b c d e f 0xc24b8b70 w10;
     w11 = w11 + (sha256_sigma1 w9 + w4 + sha256_sigma0 w12); (a, e) = sha256_Round f g h a b c d e 0xc76c51a3 w11;
     w12 = w12 + (sha256_sigma1 w10 + w5 + sha256_sigma0 w13); (h, d) = sha256_Round e f g h a b c d 0xd192e819 w12;
     w13 = w13 + (sha256_sigma1 w11 + w6 + sha256_sigma0 w14); (g, c) = sha256_Round d e f g h a b c 0xd6990624 w13;
     w14 = w14 + (sha256_sigma1 w12 + w7 + sha256_sigma0 w15); (f, b) = sha256_Round c d e f g h a b 0xf40e3585 w14;
     w15 = w15 + (sha256_sigma1 w13 + w8 + sha256_sigma0 w0); (e, a) = sha256_Round b c d e f g h a 0x106aa070 w15
     in ((w0, w1, w2, w3, w4, w5, w6, w7, w8, w9, w10, w11, w12, w13, w14, w15), (a, b, c, d, e, f, g, h)))"

definition sha256_rounds3 :: "u32 ws16 \<times> u32 regs8 \<Rightarrow> u32 regs8" where
  "sha256_rounds3 = (\<lambda>((w0, w1, w2, w3, w4, w5, w6, w7, w8, w9, w10, w11, w12, w13, w14, w15), (a, b, c, d, e, f, g, h)). let
     w0 = w0 + (sha256_sigma1 w14 + w9 + sha256_sigma0 w1); (d, h) = sha256_Round a b c d e f g h 0x19a4c116 w0;
     w1 = w1 + (sha256_sigma1 w15 + w10 + sha256_sigma0 w2); (c, g) = sha256_Round h a b c d e f g 0x1e376c08 w1;
     w2 = w2 + (sha256_sigma1 w0 + w11 + sha256_sigma0 w3); (b, f) = sha256_Round g h a b c d e f 0x2748774c w2;
     w3 = w3 + (sha256_sigma1 w1 + w12 + sha256_sigma0 w4); (a, e) = sha256_Round f g h a b c d e 0x34b0bcb5 w3;
     w4 = w4 + (sha256_sigma1 w2 + w13 + sha256_sigma0 w5); (h, d) = sha256_Round e f g h a b c d 0x391c0cb3 w4;
     w5 = w5 + (sha256_sigma1 w3 + w14 + sha256_sigma0 w6); (g, c) = sha256_Round d e f g h a b c 0x4ed8aa4a w5;
     w6 = w6 + (sha256_sigma1 w4 + w15 + sha256_sigma0 w7); (f, b) = sha256_Round c d e f g h a b 0x5b9cca4f w6;
     w7 = w7 + (sha256_sigma1 w5 + w0 + sha256_sigma0 w8); (e, a) = sha256_Round b c d e f g h a 0x682e6ff3 w7;
     w8 = w8 + (sha256_sigma1 w6 + w1 + sha256_sigma0 w9); (d, h) = sha256_Round a b c d e f g h 0x748f82ee w8;
     w9 = w9 + (sha256_sigma1 w7 + w2 + sha256_sigma0 w10); (c, g) = sha256_Round h a b c d e f g 0x78a5636f w9;
     w10 = w10 + (sha256_sigma1 w8 + w3 + sha256_sigma0 w11); (b, f) = sha256_Round g h a b c d e f 0x84c87814 w10;
     w11 = w11 + (sha256_sigma1 w9 + w4 + sha256_sigma0 w12); (a, e) = sha256_Round f g h a b c d e 0x8cc70208 w11;
     w12 = w12 + (sha256_sigma1 w10 + w5 + sha256_sigma0 w13); (h, d) = sha256_Round e f g h a b c d 0x90befffa w12;
     w13 = w13 + (sha256_sigma1 w11 + w6 + sha256_sigma0 w14); (g, c) = sha256_Round d e f g h a b c 0xa4506ceb w13;
     (f, b) = sha256_Round c d e f g h a b 0xbef9a3f7 (w14 + sha256_sigma1 w12 + w7 + sha256_sigma0 w15);
     (e, a) = sha256_Round b c d e f g h a 0xc67178f2 (w15 + sha256_sigma1 w13 + w8 + sha256_sigma0 w0)
     in (a, b, c, d, e, f, g, h))"

definition sha256_Transform :: "u32 list \<Rightarrow> bytes \<Rightarrow> u32 list" where
  "sha256_Transform s chunk =
     (let (a, b, c, d, e, f, g, h) = sha256_rounds3 (sha256_rounds2 (sha256_rounds1 (sha256_rounds0 chunk (s ! 0, s ! 1, s ! 2, s ! 3, s ! 4, s ! 5, s ! 6, s ! 7))))
      in [s ! 0 + a, s ! 1 + b, s ! 2 + c, s ! 3 + d, s ! 4 + e, s ! 5 + f, s ! 6 + g, s ! 7 + h])"

text \<open>The constructor leaves \<^verbatim>\<open>buf\<close> uninitialised: its content is an argument.\<close>

definition CSHA256 :: "bytes \<Rightarrow> u32 hasher" where
  "CSHA256 junk = \<lparr>hs_s = sha256_Initialize, hs_buf = junk, hs_bytes = 0\<rparr>"

function CSHA256_full_blocks :: "u32 hasher \<Rightarrow> bytes \<Rightarrow> u32 hasher \<times> bytes" where
  "CSHA256_full_blocks h data =
     (if 64 \<le> length data
      then CSHA256_full_blocks (h\<lparr>hs_s := sha256_Transform (hs_s h) (take 64 data), hs_bytes := hs_bytes h + 64\<rparr>) (drop 64 data)
      else (h, data))"
  by pat_completeness auto
termination by (relation "measure (\<lambda>(h, data). length data)") auto

declare CSHA256_full_blocks.simps [simp del]

definition CSHA256_Write :: "u32 hasher \<Rightarrow> bytes \<Rightarrow> u32 hasher option" where
  "CSHA256_Write h data =
     (let bufsize = unat (hs_bytes h) mod 64 in
      do {
        (h, data, bufsize) \<leftarrow>
          (if bufsize \<noteq> 0 \<and> 64 \<le> bufsize + length data
           then do {
             buf \<leftarrow> memcpy (hs_buf h) (int bufsize) data 0 (int (64 - bufsize));
             Some (h\<lparr>hs_s := sha256_Transform (hs_s h) buf, hs_buf := buf, hs_bytes := hs_bytes h + word_of_nat (64 - bufsize)\<rparr>,
                   drop (64 - bufsize) data, 0)
           }
           else Some (h, data, bufsize));
        let (h, data) = CSHA256_full_blocks h data;
        if data \<noteq> []
        then do {
          buf \<leftarrow> memcpy (hs_buf h) (int bufsize) data 0 (int (length data));
          Some (h\<lparr>hs_buf := buf, hs_bytes := hs_bytes h + word_of_nat (length data)\<rparr>)
        }
        else Some h
      })"

text \<open>\<^verbatim>\<open>Finalize\<close> writes the padding into the object itself, so the object is part of the result.\<close>

definition CSHA256_Finalize :: "u32 hasher \<Rightarrow> (u32 hasher \<times> bytes) option" where
  "CSHA256_Finalize h =
     (let pad = 0x80 # replicate 63 0;
          sizedesc = WriteBE64 (push_bit 3 (hs_bytes h))
      in do {
        p \<leftarrow> rd pad (1 + (119 - unat (hs_bytes h) mod 64) mod 64);
        h \<leftarrow> CSHA256_Write h p;
        h \<leftarrow> CSHA256_Write h sizedesc;
        Some (h, concat (map (\<lambda>i. WriteBE32 (hs_s h ! i)) [0..<8]))
      })"

definition CSHA256_Reset :: "u32 hasher \<Rightarrow> u32 hasher" where
  "CSHA256_Reset h = h\<lparr>hs_s := sha256_Initialize, hs_bytes := 0\<rparr>"

section \<open>SHA-512\<close>

definition sha512_Ch :: "u64 \<Rightarrow> u64 \<Rightarrow> u64 \<Rightarrow> u64" where
  "sha512_Ch x y z = z XOR (x AND (y XOR z))"

definition sha512_Maj :: "u64 \<Rightarrow> u64 \<Rightarrow> u64 \<Rightarrow> u64" where
  "sha512_Maj x y z = (x AND y) OR (z AND (x OR y))"

definition sha512_Sigma0 :: "u64 \<Rightarrow> u64" where
  "sha512_Sigma0 x = (drop_bit 28 x OR push_bit 36 x) XOR (drop_bit 34 x OR push_bit 30 x) XOR (drop_bit 39 x OR push_bit 25 x)"

definition sha512_Sigma1 :: "u64 \<Rightarrow> u64" where
  "sha512_Sigma1 x = (drop_bit 14 x OR push_bit 50 x) XOR (drop_bit 18 x OR push_bit 46 x) XOR (drop_bit 41 x OR push_bit 23 x)"

definition sha512_sigma0 :: "u64 \<Rightarrow> u64" where
  "sha512_sigma0 x = (drop_bit 1 x OR push_bit 63 x) XOR (drop_bit 8 x OR push_bit 56 x) XOR drop_bit 7 x"

definition sha512_sigma1 :: "u64 \<Rightarrow> u64" where
  "sha512_sigma1 x = (drop_bit 19 x OR push_bit 45 x) XOR (drop_bit 61 x OR push_bit 3 x) XOR drop_bit 6 x"

text \<open>\<^verbatim>\<open>Round\<close> updates its reference parameters \<^verbatim>\<open>d\<close> and \<^verbatim>\<open>h\<close>: they are the result.\<close>

definition sha512_Round :: "u64 \<Rightarrow> u64 \<Rightarrow> u64 \<Rightarrow> u64 \<Rightarrow> u64 \<Rightarrow> u64 \<Rightarrow> u64 \<Rightarrow> u64 \<Rightarrow> u64 \<Rightarrow> u64 \<Rightarrow> u64 \<times> u64" where
  "sha512_Round a b c d e f g h k w =
     (let t1 = h + sha512_Sigma1 e + sha512_Ch e f g + k + w;
          t2 = sha512_Sigma0 a + sha512_Maj a b c
      in (d + t1, t1 + t2))"

definition sha512_Initialize :: "u64 list" where
  "sha512_Initialize = [
     0x6a09e667f3bcc908, 0xbb67ae8584caa73b, 0x3c6ef372fe94f82b, 0xa54ff53a5f1d36f1,
     0x510e527fade682d1, 0x9b05688c2b3e6c1f, 0x1f83d9abfb41bd6b, 0x5be0cd19137e2179]"

definition sha512_rounds0 :: "bytes \<Rightarrow> u64 regs8 \<Rightarrow> u64 ws16 \<times> u64 regs8" where
  "sha512_rounds0 chunk = (\<lambda>(a, b, c, d, e, f, g, h). let
     w0 = ReadBE64 (drop 0 chunk); (d, h) = sha512_Round a b c d e f g h 0x428a2f98d728ae22 w0;
     w1 = ReadBE64 (drop 8 chunk); (c, g) = sha512_Round h a b c d e f g 0x7137449123ef65cd w1;
     w2 = ReadBE64 (drop 16 chunk); (b, f) = sha512_Round g h a b c d e f 0xb5c0fbcfec4d3b2f w2;
     w3 = ReadBE64 (drop 24 chunk); (a, e) = sha512_Round f g h a b c d e 0xe9b5dba58189dbbc w3;
     w4 = ReadBE64 (drop 32 chunk); (h, d) = sha512_Round e f g h a b c d 0x3956c25bf348b538 w4;
     w5 = ReadBE64 (drop 40 chunk); (g, c) = sha512_Round d e f g h a b c 0x59f111f1b605d019 w5;
     w6 = ReadBE64 (drop 48 chunk); (f, b) = sha512_Round c d e f g h a b 0x923f82a4af194f9b w6;
     w7 = ReadBE64 (drop 56 chunk); (e, a) = sha512_Round b c d e f g h a 0xab1c5ed5da6d8118 w7;
     w8 = ReadBE64 (drop 64 chunk); (d, h) = sha512_Round a b c d e f g h 0xd807aa98a3030242 w8;
     w9 = ReadBE64 (drop 72 chunk); (c, g) = sha512_Round h a b c d e f g 0x12835b0145706fbe w9;
     w10 = ReadBE64 (drop 80 chunk); (b, f) = sha512_Round g h a b c d e f 0x243185be4ee4b28c w10;
     w11 = ReadBE64 (drop 88 chunk); (a, e) = sha512_Round f g h a b c d e 0x550c7dc3d5ffb4e2 w11;
     w12 = ReadBE64 (drop 96 chunk); (h, d) = sha512_Round e f g h a b c d 0x72be5d74f27b896f w12;
     w13 = ReadBE64 (drop 104 chunk); (g, c) = sha512_Round d e f g h a b c 0x80deb1fe3b1696b1 w13;
     w14 = ReadBE64 (drop 112 chunk); (f, b) = sha512_Round c d e f g h a b 0x9bdc06a725c71235 w14;
     w15 = ReadBE64 (drop 120 chunk); (e, a) = sha512_Round b c d e f g h a 0xc19bf174cf692694 w15
     in ((w0, w1, w2, w3, w4, w5, w6, w7, w8, w9, w10, w11, w12, w13, w14, w15), (a, b, c, d, e, f, g, h)))"

definition sha512_rounds1 :: "u64 ws16 \<times> u64 regs8 \<Rightarrow> u64 ws16 \<times> u64 regs8" where
  "sha512_rounds1 = (\<lambda>((w0, w1, w2, w3, w4, w5, w6, w7, w8, w9, w10, w11, w12, w13, w14, w15), (a, b, c, d, e, f, g, h)). let
     w0 = w0 + (sha512_sigma1 w14 + w9 + sha512_sigma0 w1); (d, h) = sha512_Round a b c d e f g h 0xe49b69c19ef14ad2 w0;
     w1 = w1 + (sha512_sigma1 w15 + w10 + sha512_sigma0 w2); (c, g) = sha512_Round h a b c d e f g 0xefbe4786384f25e3 w1;
     w2 = w2 + (sha512_sigma1 w0 + w11 + sha512_sigma0 w3); (b, f) = sha512_Round g h a b c d e f 0x0fc19dc68b8cd5b5 w2;
     w3 = w3 + (sha512_sigma1 w1 + w12 + sha512_sigma0 w4); (a, e) = sha512_Round f g h a b c d e 0x240ca1cc77ac9c65 w3;
     w4 = w4 + (sha512_sigma1 w2 + w13 + sha512_sigma0 w5); (h, d) = sha512_Round e f g h a b c d 0x2de92c6f592b0275 w4;
     w5 = w5 + (sha512_sigma1 w3 + w14 + sha512_sigma0 w6); (g, c) = sha512_Round d e f g h a b c 0x4a7484aa6ea6e483 w5;
     w6 = w6 + (sha512_sigma1 w4 + w15 + sha512_sigma0 w7); (f, b) = sha512_Round c d e f g h a b 0x5cb0a9dcbd41fbd4 w6;
     w7 = w7 + (sha512_sigma1 w5 + w0 + sha512_sigma0 w8); (e, a) = sha512_Round b c d e f g h a 0x76f988da831153b5 w7;
     w8 = w8 + (sha512_sigma1 w6 + w1 + sha512_sigma0 w9); (d, h) = sha512_Round a b c d e f g h 0x983e5152ee66dfab w8;
     w9 = w9 + (sha512_sigma1 w7 + w2 + sha512_sigma0 w10); (c, g) = sha512_Round h a b c d e f g 0xa831c66d2db43210 w9;
     w10 = w10 + (sha512_sigma1 w8 + w3 + sha512_sigma0 w11); (b, f) = sha512_Round g h a b c d e f 0xb00327c898fb213f w10;
     w11 = w11 + (sha512_sigma1 w9 + w4 + sha512_sigma0 w12); (a, e) = sha512_Round f g h a b c d e 0xbf597fc7beef0ee4 w11;
     w12 = w12 + (sha512_sigma1 w10 + w5 + sha512_sigma0 w13); (h, d) = sha512_Round e f g h a b c d 0xc6e00bf33da88fc2 w12;
     w13 = w13 + (sha512_sigma1 w11 + w6 + sha512_sigma0 w14); (g, c) = sha512_Round d e f g h a b c 0xd5a79147930aa725 w13;
     w14 = w14 + (sha512_sigma1 w12 + w7 + sha512_sigma0 w15); (f, b) = sha512_Round c d e f g h a b 0x06ca6351e003826f w14;
     w15 = w15 + (sha512_sigma1 w13 + w8 + sha512_sigma0 w0); (e, a) = sha512_Round b c d e f g h a 0x142929670a0e6e70 w15
     in ((w0, w1, w2, w3, w4, w5, w6, w7, w8, w9, w10, w11, w12, w13, w14, w15), (a, b, c, d, e, f, g, h)))"

definition sha512_rounds2 :: "u64 ws16 \<times> u64 regs8 \<Rightarrow> u64 ws16 \<times> u64 regs8" where
  "sha512_rounds2 = (\<lambda>((w0, w1, w2, w3, w4, w5, w6, w7, w8, w9, w10, w11, w12, w13, w14, w15), (a, b, c, d, e, f, g, h)). let
     w0 = w0 + (sha512_sigma1 w14 + w9 + sha512_sigma0 w1); (d, h) = sha512_Round a b c d e f g h 0x27b70a8546d22ffc w0;
     w1 = w1 + (sha512_sigma1 w15 + w10 + sha512_sigma0 w2); (c, g) = sha512_Round h a b c d e f g 0x2e1b21385c26c926 w1;
     w2 = w2 + (sha512_sigma1 w0 + w11 + sha512_sigma0 w3); (b, f) = sha512_Round g h a b c d e f 0x4d2c6dfc5ac42aed w2;
     w3 = w3 + (sha512_sigma1 w1 + w12 + sha512_sigma0 w4); (a, e) = sha512_Round f g h a b c d e 0x53380d139d95b3df w3;
     w4 = w4 + (sha512_sigma1 w2 + w13 + sha512_sigma0 w5); (h, d) = sha512_Round e f g h a b c d 0x650a73548baf63de w4;
     w5 = w5 + (sha512_sigma1 w3 + w14 + sha512_sigma0 w6); (g, c) = sha512_Round d e f g h a b c 0x766a0abb3c77b2a8 w5;
     w6 = w6 + (sha512_sigma1 w4 + w15 + sha512_sigma0 w7); (f, b) = sha512_Round c d e f g h a b 0x81c2c92e47edaee6 w6;
     w7 = w7 + (sha512_sigma1 w5 + w0 + sha512_sigma0 w8); (e, a) = sha512_Round b c d e f g h a 0x92722c851482353b w7;
     w8 = w8 + (sha512_sigma1 w6 + w1 + sha512_sigma0 w9); (d, h) = sha512_Round a b c d e f g h 0xa2bfe8a14cf10364 w8;
     w9 = w9 + (sha512_sigma1 w7 + w2 + sha512_sigma0 w10); (c, g) = sha512_Round h a b c d e f g 0xa81a664bbc423001 w9;
     w10 = w10 + (sha512_sigma1 w8 + w3 + sha512_sigma0 w11); (b, f) = sha512_Round g h a b c d e f 0xc24b8b70d0f89791 w10;
     w11 = w11 + (sha512_sigma1 w9 + w4 + sha512_sigma0 w12); (a, e) = sha512_Round f g h a b c d e 0xc76c51a30654be30 w11;
     w12 = w12 + (sha512_sigma1 w10 + w5 + sha512_sigma0 w13); (h, d) = sha512_Round e f g h a b c d 0xd192e819d6ef5218 w12;
     w13 = w13 + (sha512_sigma1 w11 + w6 + sha512_sigma0 w14); (g, c) = sha512_Round d e f g h a b c 0xd69906245565a910 w13;
     w14 = w14 + (sha512_sigma1 w12 + w7 + sha512_sigma0 w15); (f, b) = sha512_Round c d e f g h a b 0xf40e35855771202a w14;
     w15 = w15 + (sha512_sigma1 w13 + w8 + sha512_sigma0 w0); (e, a) = sha512_Round b c d e f g h a 0x106aa07032bbd1b8 w15
     in ((w0, w1, w2, w3, w4, w5, w6, w7, w8, w9, w10, w11, w12, w13, w14, w15), (a, b, c, d, e, f, g, h)))"

definition sha512_rounds3 :: "u64 ws16 \<times> u64 regs8 \<Rightarrow> u64 ws16 \<times> u64 regs8" where
  "sha512_rounds3 = (\<lambda>((w0, w1, w2, w3, w4, w5, w6, w7, w8, w9, w10, w11, w12, w13, w14, w15), (a, b, c, d, e, f, g, h)). let
     w0 = w0 + (sha512_sigma1 w14 + w9 + sha512_sigma0 w1); (d, h) = sha512_Round a b c d e f g h 0x19a4c116b8d2d0c8 w0;
     w1 = w1 + (sha512_sigma1 w15 + w10 + sha512_sigma0 w2); (c, g) = sha512_Round h a b c d e f g 0x1e376c085141ab53 w1;
     w2 = w2 + (sha512_sigma1 w0 + w11 + sha512_sigma0 w3); (b, f) = sha512_Round g h a b c d e f 0x2748774cdf8eeb99 w2;
     w3 = w3 + (sha512_sigma1 w1 + w12 + sha512_sigma0 w4); (a, e) = sha512_Round f g h a b c d e 0x34b0bcb5e19b48a8 w3;
     w4 = w4 + (sha512_sigma1 w2 + w13 + sha512_sigma0 w5); (h, d) = sha512_Round e f g h a b c d 0x391c0cb3c5c95a63 w4;
     w5 = w5 + (sha512_sigma1 w3 + w14 + sha512_sigma0 w6); (g, c) = sha512_Round d e f g h a b c 0x4ed8aa4ae3418acb w5;
     w6 = w6 + (sha512_sigma1 w4 + w15 + sha512_sigma0 w7); (f, b) = sha512_Round c d e f g h a b 0x5b9cca4f7763e373 w6;
     w7 = w7 + (sha512_sigma1 w5 + w0 + sha512_sigma0 w8); (e, a) = sha512_Round b c d e f g h a 0x682e6ff3d6b2b8a3 w7;
     w8 = w8 + (sha512_sigma1 w6 + w1 + sha512_sigma0 w9); (d, h) = sha512_Round a b c d e f g h 0x748f82ee5defb2fc w8;
     w9 = w9 + (sha512_sigma1 w7 + w2 + sha512_sigma0 w10); (c, g) = sha512_Round h a b c d e f g 0x78a5636f43172f60 w9;
     w10 = w10 + (sha512_sigma1 w8 + w3 + sha512_sigma0 w11); (b, f) = sha512_Round g h a b c d e f 0x84c87814a1f0ab72 w10;
     w11 = w11 + (sha512_sigma1 w9 + w4 + sha512_sigma0 w12); (a, e) = sha512_Round f g h a b c d e 0x8cc702081a6439ec w11;
     w12 = w12 + (sha512_sigma1 w10 + w5 + sha512_sigma0 w13); (h, d) = sha512_Round e f g h a b c d 0x90befffa23631e28 w12;
     w13 = w13 + (sha512_sigma1 w11 + w6 + sha512_sigma0 w14); (g, c) = sha512_Round d e f g h a b c 0xa4506cebde82bde9 w13;
     w14 = w14 + (sha512_sigma1 w12 + w7 + sha512_sigma0 w15); (f, b) = sha512_Round c d e f g h a b 0xbef9a3f7b2c67915 w14;
     w15 = w15 + (sha512_sigma1 w13 + w8 + sha512_sigma0 w0); (e, a) = sha512_Round b c d e f g h a 0xc67178f2e372532b w15
     in ((w0, w1, w2, w3, w4, w5, w6, w7, w8, w9, w10, w11, w12, w13, w14, w15), (a, b, c, d, e, f, g, h)))"

definition sha512_rounds4 :: "u64 ws16 \<times> u64 regs8 \<Rightarrow> u64 regs8" where
  "sha512_rounds4 = (\<lambda>((w0, w1, w2, w3, w4, w5, w6, w7, w8, w9, w10, w11, w12, w13, w14, w15), (a, b, c, d, e, f, g, h)). let
     w0 = w0 + (sha512_sigma1 w14 + w9 + sha512_sigma0 w1); (d, h) = sha512_Round a b c d e f g h 0xca273eceea26619c w0;
     w1 = w1 + (sha512_sigma1 w15 + w10 + sha512_sigma0 w2); (c, g) = sha512_Round h a b c d e f g 0xd186b8c721c0c207 w1;
     w2 = w2 + (sha512_sigma1 w0 + w11 + sha512_sigma0 w3); (b, f) = sha512_Round g h a b c d e f 0xeada7dd6cde0eb1e w2;
     w3 = w3 + (sha512_sigma1 w1 + w12 + sha512_sigma0 w4); (a, e) = sha512_Round f g h a b c d e 0xf57d4f7fee6ed178 w3;
     w4 = w4 + (sha512_sigma1 w2 + w13 + sha512_sigma0 w5); (h, d) = sha512_Round e f g h a b c d 0x06f067aa72176fba w4;
     w5 = w5 + (sha512_sigma1 w3 + w14 + sha512_sigma0 w6); (g, c) = sha512_Round d e f g h a b c 0x0a637dc5a2c898a6 w5;
     w6 = w6 + (sha512_sigma1 w4 + w15 + sha512_sigma0 w7); (f, b) = sha512_Round c d e f g h a b 0x113f9804bef90dae w6;
     w7 = w7 + (sha512_sigma1 w5 + w0 + sha512_sigma0 w8); (e, a) = sha512_Round b c d e f g h a 0x1b710b35131c471b w7;
     w8 = w8 + (sha512_sigma1 w6 + w1 + sha512_sigma0 w9); (d, h) = sha512_Round a b c d e f g h 0x28db77f523047d84 w8;
     w9 = w9 + (sha512_sigma1 w7 + w2 + sha512_sigma0 w10); (c, g) = sha512_Round h a b c d e f g 0x32caab7b40c72493 w9;
     w10 = w10 + (sha512_sigma1 w8 + w3 + sha512_sigma0 w11); (b, f) = sha512_Round g h a b c d e f 0x3c9ebe0a15c9bebc w10;
     w11 = w11 + (sha512_sigma1 w9 + w4 + sha512_sigma0 w12); (a, e) = sha512_Round f g h a b c d e 0x431d67c49c100d4c w11;
     w12 = w12 + (sha512_sigma1 w10 + w5 + sha512_sigma0 w13); (h, d) = sha512_Round e f g h a b c d 0x4cc5d4becb3e42b6 w12;
     w13 = w13 + (sha512_sigma1 w11 + w6 + sha512_sigma0 w14); (g, c) = sha512_Round d e f g h a b c 0x597f299cfc657e2a w13;
     (f, b) = sha512_Round c d e f g h a b 0x5fcb6fab3ad6faec (w14 + sha512_sigma1 w12 + w7 + sha512_sigma0 w15);
     (e, a) = sha512_Round b c d e f g h a 0x6c44198c4a475817 (w15 + sha512_sigma1 w13 + w8 + sha512_sigma0 w0)
     in (a, b, c, d, e, f, g, h))"

definition sha512_Transform :: "u64 list \<Rightarrow> bytes \<Rightarrow> u64 list" where
  "sha512_Transform s chunk =
     (let (a, b, c, d, e, f, g, h) = sha512_rounds4 (sha512_rounds3 (sha512_rounds2 (sha512_rounds1 (sha512_rounds0 chunk (s ! 0, s ! 1, s ! 2, s ! 3, s ! 4, s ! 5, s ! 6, s ! 7)))))
      in [s ! 0 + a, s ! 1 + b, s ! 2 + c, s ! 3 + d, s ! 4 + e, s ! 5 + f, s ! 6 + g, s ! 7 + h])"

text \<open>The constructor leaves \<^verbatim>\<open>buf\<close> uninitialised: its content is an argument.\<close>

definition CSHA512 :: "bytes \<Rightarrow> u64 hasher" where
  "CSHA512 junk = \<lparr>hs_s = sha512_Initialize, hs_buf = junk, hs_bytes = 0\<rparr>"

function CSHA512_full_blocks :: "u64 hasher \<Rightarrow> bytes \<Rightarrow> u64 hasher \<times> bytes" where
  "CSHA512_full_blocks h data =
     (if 128 \<le> length data
      then CSHA512_full_blocks (h\<lparr>hs_s := sha512_Transform (hs_s h) (take 128 data), hs_bytes := hs_bytes h + 128\<rparr>) (drop 128 data)
      else (h, data))"
  by pat_completeness auto
termination by (relation "measure (\<lambda>(h, data). length data)") auto

declare CSHA512_full_blocks.simps [simp del]

definition CSHA512_Write :: "u64 hasher \<Rightarrow> bytes \<Rightarrow> u64 hasher option" where
  "CSHA512_Write h data =
     (let bufsize = unat (hs_bytes h) mod 128 in
      do {
        (h, data, bufsize) \<leftarrow>
          (if bufsize \<noteq> 0 \<and> 128 \<le> bufsize + length data
           then do {
             buf \<leftarrow> memcpy (hs_buf h) (int bufsize) data 0 (int (128 - bufsize));
             Some (h\<lparr>hs_s := sha512_Transform (hs_s h) buf, hs_buf := buf, hs_bytes := hs_bytes h + word_of_nat (128 - bufsize)\<rparr>,
                   drop (128 - bufsize) data, 0)
           }
           else Some (h, data, bufsize));
        let (h, data) = CSHA512_full_blocks h data;
        if data \<noteq> []
        then do {
          buf \<leftarrow> memcpy (hs_buf h) (int bufsize) data 0 (int (length data));
          Some (h\<lparr>hs_buf := buf, hs_bytes := hs_bytes h + word_of_nat (length data)\<rparr>)
        }
        else Some h
      })"

text \<open>\<^verbatim>\<open>Finalize\<close> writes the padding into the object itself, so the object is part of the result.\<close>

definition CSHA512_Finalize :: "u64 hasher \<Rightarrow> (u64 hasher \<times> bytes) option" where
  "CSHA512_Finalize h =
     (let pad = 0x80 # replicate 127 0;
          sizedesc = replicate 8 0 @ WriteBE64 (push_bit 3 (hs_bytes h))
      in do {
        p \<leftarrow> rd pad (1 + (239 - unat (hs_bytes h) mod 128) mod 128);
        h \<leftarrow> CSHA512_Write h p;
        h \<leftarrow> CSHA512_Write h sizedesc;
        Some (h, concat (map (\<lambda>i. WriteBE64 (hs_s h ! i)) [0..<8]))
      })"

definition CSHA512_Reset :: "u64 hasher \<Rightarrow> u64 hasher" where
  "CSHA512_Reset h = h\<lparr>hs_s := sha512_Initialize, hs_bytes := 0\<rparr>"

section \<open>HMAC\<close>

text \<open>
  The three objects of the constructor start with uninitialised buffers: \<open>jo\<close>, \<open>ji\<close> and \<open>jk\<close>
  are those of \<^verbatim>\<open>outer\<close>, \<^verbatim>\<open>inner\<close> and of the temporary that hashes a long key.
\<close>

record 'w hmac =
  hmac_outer :: "'w hasher"
  hmac_inner :: "'w hasher"

definition CHMAC_SHA256 :: "bytes \<Rightarrow> bytes \<Rightarrow> bytes \<Rightarrow> bytes \<Rightarrow> u32 hmac option" where
  "CHMAC_SHA256 jo ji jk key = do {
     rkey \<leftarrow>
       (if length key \<le> 64 then Some (key @ replicate (64 - length key) 0)
        else do {
          h \<leftarrow> CSHA256_Write (CSHA256 jk) key;
          (h, hash) \<leftarrow> CSHA256_Finalize h;
          Some (hash @ replicate 32 0)
        });
     let rkey = map (\<lambda>b. b XOR 0x5c) rkey;
     o1 \<leftarrow> CSHA256_Write (CSHA256 jo) rkey;
     let rkey = map (\<lambda>b. b XOR (0x5c XOR 0x36)) rkey;
     i1 \<leftarrow> CSHA256_Write (CSHA256 ji) rkey;
     Some \<lparr>hmac_outer = o1, hmac_inner = i1\<rparr>
   }"

definition CHMAC_SHA256_Write :: "u32 hmac \<Rightarrow> bytes \<Rightarrow> u32 hmac option" where
  "CHMAC_SHA256_Write h data = do {
     i1 \<leftarrow> CSHA256_Write (hmac_inner h) data;
     Some (h\<lparr>hmac_inner := i1\<rparr>)
   }"

definition CHMAC_SHA256_Finalize :: "u32 hmac \<Rightarrow> (u32 hmac \<times> bytes) option" where
  "CHMAC_SHA256_Finalize h = do {
     (i1, temp) \<leftarrow> CSHA256_Finalize (hmac_inner h);
     o1 \<leftarrow> CSHA256_Write (hmac_outer h) temp;
     (o1, hash) \<leftarrow> CSHA256_Finalize o1;
     Some (h\<lparr>hmac_outer := o1, hmac_inner := i1\<rparr>, hash)
   }"

definition CHMAC_SHA512 :: "bytes \<Rightarrow> bytes \<Rightarrow> bytes \<Rightarrow> bytes \<Rightarrow> u64 hmac option" where
  "CHMAC_SHA512 jo ji jk key = do {
     rkey \<leftarrow>
       (if length key \<le> 128 then Some (key @ replicate (128 - length key) 0)
        else do {
          h \<leftarrow> CSHA512_Write (CSHA512 jk) key;
          (h, hash) \<leftarrow> CSHA512_Finalize h;
          Some (hash @ replicate 64 0)
        });
     let rkey = map (\<lambda>b. b XOR 0x5c) rkey;
     o1 \<leftarrow> CSHA512_Write (CSHA512 jo) rkey;
     let rkey = map (\<lambda>b. b XOR (0x5c XOR 0x36)) rkey;
     i1 \<leftarrow> CSHA512_Write (CSHA512 ji) rkey;
     Some \<lparr>hmac_outer = o1, hmac_inner = i1\<rparr>
   }"

definition CHMAC_SHA512_Write :: "u64 hmac \<Rightarrow> bytes \<Rightarrow> u64 hmac option" where
  "CHMAC_SHA512_Write h data = do {
     i1 \<leftarrow> CSHA512_Write (hmac_inner h) data;
     Some (h\<lparr>hmac_inner := i1\<rparr>)
   }"

definition CHMAC_SHA512_Finalize :: "u64 hmac \<Rightarrow> (u64 hmac \<times> bytes) option" where
  "CHMAC_SHA512_Finalize h = do {
     (i1, temp) \<leftarrow> CSHA512_Finalize (hmac_inner h);
     o1 \<leftarrow> CSHA512_Write (hmac_outer h) temp;
     (o1, hash) \<leftarrow> CSHA512_Finalize o1;
     Some (h\<lparr>hmac_outer := o1, hmac_inner := i1\<rparr>, hash)
   }"

section \<open>The rolling schedule\<close>

lemma rotr_shifts: "0 < k \<Longrightarrow> k < LENGTH('a) \<Longrightarrow> drop_bit k x OR push_bit (LENGTH('a) - k) x = word_rotr k (x :: 'a::len word)"
proof (rule bit_word_eqI)
  fix n assume k: "0 < k" "k < LENGTH('a)" and n: "n < LENGTH('a)"
  show "bit (drop_bit k x OR push_bit (LENGTH('a) - k) x) n = bit (word_rotr k x) n"
  proof (cases "n + k < LENGTH('a)")
    case True
    then have "\<not> LENGTH('a) - k \<le> n" by simp
    with True n show ?thesis by (simp add: bit_simps bit_word_rotr_iff ac_simps)
  next
    case False
    with k n have "(n + k) mod LENGTH('a) = n + k - LENGTH('a)" by (simp add: le_mod_geq)
    moreover have "n + k - LENGTH('a) = n - (LENGTH('a) - k)" using k False by linarith
    moreover have "LENGTH('a) - k \<le> n" using False by linarith
    moreover have "\<not> bit x (k + n)" using False by (auto dest: bit_imp_le_length)
    ultimately show ?thesis using k n False by (simp add: bit_simps bit_word_rotr_iff ac_simps)
  qed
qed

lemma Ch_fips: "z XOR (x AND (y XOR z)) = fips_Ch x y (z :: 'a::len word)"
  unfolding fips_Ch_def by (rule bit_word_eqI) (auto simp: bit_simps)

lemma Maj_fips: "(x AND y) OR (z AND (x OR y)) = fips_Maj x y (z :: 'a::len word)"
  unfolding fips_Maj_def by (rule bit_word_eqI) (auto simp: bit_simps)

text \<open>One round of the rolling schedule.\<close>

definition sha2_next :: "('a::len word \<Rightarrow> 'a word) \<Rightarrow> ('a word \<Rightarrow> 'a word) \<Rightarrow> 'a word list \<Rightarrow> 'a word" where
  "sha2_next s0 s1 W = W ! 0 + (s1 (W ! 14) + W ! 9 + s0 (W ! 1))"

definition sha2_roll where
  "sha2_roll S0 S1 s0 s1 K = (\<lambda>(W, r). let w = sha2_next s0 s1 W in (tl W @ [w], sha2_step S0 S1 K w r))"

primrec sha2_news :: "('a::len word \<Rightarrow> 'a word) \<Rightarrow> ('a word \<Rightarrow> 'a word) \<Rightarrow> nat \<Rightarrow> 'a word list \<Rightarrow> 'a word list" where
  "sha2_news s0 s1 0 W = []"
| "sha2_news s0 s1 (Suc n) W = (let w = sha2_next s0 s1 W in w # sha2_news s0 s1 n (tl W @ [w]))"

lemma sha2_schedule_news:
  "length W = 16 \<Longrightarrow> sha2_schedule s0 s1 n (P @ W) = P @ W @ sha2_news s0 s1 n W"
proof (induction n arbitrary: P W)
  case (Suc n)
  obtain w V where W: "W = w # V" and V: "length V = 15" using Suc.prems by (cases W) auto
  have nx: "s1 ((P @ W) ! (length (P @ W) - 2)) + (P @ W) ! (length (P @ W) - 7) +
      s0 ((P @ W) ! (length (P @ W) - 15)) + (P @ W) ! (length (P @ W) - 16) = sha2_next s0 s1 W"
    using Suc.prems by (simp add: sha2_next_def nth_append ac_simps)
  have "sha2_schedule s0 s1 (Suc n) (P @ W) = sha2_schedule s0 s1 n ((P @ [w]) @ (V @ [sha2_next s0 s1 W]))"
    unfolding sha2_schedule.simps Let_def nx by (simp add: W)
  also have "\<dots> = (P @ [w]) @ (V @ [sha2_next s0 s1 W]) @ sha2_news s0 s1 n (V @ [sha2_next s0 s1 W])"
    by (rule Suc.IH) (simp add: V)
  finally show ?case by (simp add: W Let_def)
qed simp

lemma fold_roll:
  "snd (fold (sha2_roll S0 S1 s0 s1) ks (W, r)) = fold (\<lambda>(k, w). sha2_step S0 S1 k w) (zip ks (sha2_news s0 s1 (length ks) W)) r"
  by (induction ks arbitrary: W r) (simp_all add: sha2_roll_def Let_def)

lemma sha2_compress_roll:
  assumes "length M = 16" "length K0 = 16"
  shows "sha2_compress S0 S1 s0 s1 (K0 @ K1) M r =
    snd (fold (sha2_roll S0 S1 s0 s1) K1 (M, fold (\<lambda>(k, w). sha2_step S0 S1 k w) (zip K0 M) r))"
  using sha2_schedule_news [OF assms(1), of s0 s1 "length K1" "[]"]
  by (simp add: sha2_compress_def fold_roll assms)

definition ws16_of :: "'a list \<Rightarrow> 'a ws16" where
  "ws16_of W = (W ! 0, W ! 1, W ! 2, W ! 3, W ! 4, W ! 5, W ! 6, W ! 7, W ! 8, W ! 9, W ! 10, W ! 11, W ! 12, W ! 13, W ! 14, W ! 15)"

lemma ws16_of_list: "ws16_of [x0, x1, x2, x3, x4, x5, x6, x7, x8, x9, x10, x11, x12, x13, x14, x15] = (x0, x1, x2, x3, x4, x5, x6, x7, x8, x9, x10, x11, x12, x13, x14, x15)"
  by (simp add: ws16_of_def)

lemma Let_case_prod: "Let p (case_prod B) = case_prod B p"
  by (simp add: Let_def)

lemma case_prod_Let: "case_prod B (Let w C) = Let w (\<lambda>x. case_prod B (C x))"
  by (simp add: Let_def)

lemma case_prod_case_prod: "case_prod B (case_prod C p) = (case p of (x, y) \<Rightarrow> case_prod B (C x y))"
  by (cases p) simp

lemma Pair_case_prod: "(A, case_prod C p) = (case p of (x, y) \<Rightarrow> (A, C x y))"
  by (cases p) simp

lemma snd_Let: "snd (Let w C) = Let w (\<lambda>x. snd (C x))"
  by (simp add: Let_def)

lemma snd_case_prod: "snd (case_prod C p) = (case p of (x, y) \<Rightarrow> snd (C x y))"
  by (cases p) simp
lemma list16_ex: "length W = 16 \<Longrightarrow> \<exists>x0 x1 x2 x3 x4 x5 x6 x7 x8 x9 x10 x11 x12 x13 x14 x15. W = [x0, x1, x2, x3, x4, x5, x6, x7, x8, x9, x10, x11, x12, x13, x14, x15]"
  by (auto simp: numeral_eq_Suc length_Suc_conv)

lemma regs8_ex: "\<exists>a b c d e f g h. r = (a, b, c, d, e, f, g, h)"
  by (cases r) (auto simp: prod_eq_iff)

lemma length_fold_roll: "length W = 16 \<Longrightarrow> length (fst (fold (sha2_roll S0 S1 s0 s1) ks (W, r))) = 16"
  by (induction ks arbitrary: W r) (simp_all add: sha2_roll_def Let_def)

lemma fold_roll_append:
  assumes "length W = 16" "rnd (ws16_of W, r) = (case fold (sha2_roll S0 S1 s0 s1) ks (W, r) of (W, r) \<Rightarrow> (ws16_of W, r))"
  obtains W' r' where "rnd (ws16_of W, r) = (ws16_of W', r')" "length W' = 16"
    "fold (sha2_roll S0 S1 s0 s1) (ks @ ks') (W, r) = fold (sha2_roll S0 S1 s0 s1) ks' (W', r')"
proof -
  obtain W' r' where f: "fold (sha2_roll S0 S1 s0 s1) ks (W, r) = (W', r')" by (rule prod.exhaust)
  show ?thesis by (rule that [of W' r']) (use f length_fold_roll [OF assms(1), of S0 S1 s0 s1 ks r] assms(2) in auto)
qed

section \<open>SHA-256 computes the standard\<close>

lemma sha256_sigmas:
  "sha256_Sigma0 = (\<lambda>x. word_rotr 2 x XOR word_rotr 13 x XOR word_rotr 22 x)"
  "sha256_Sigma1 = (\<lambda>x. word_rotr 6 x XOR word_rotr 11 x XOR word_rotr 25 x)"
  "sha256_sigma0 = (\<lambda>x. word_rotr 7 x XOR word_rotr 18 x XOR drop_bit 3 x)"
  "sha256_sigma1 = (\<lambda>x. word_rotr 17 x XOR word_rotr 19 x XOR drop_bit 10 x)"
  unfolding sha256_Sigma0_def sha256_Sigma1_def sha256_sigma0_def sha256_sigma1_def
  by (simp_all flip: rotr_shifts add: fun_eq_iff)

lemma sha256_step_Round:
  "sha2_step sha256_Sigma0 sha256_Sigma1 k w (a, b, c, d, e, f, g, h) =
     (case sha256_Round a b c d e f g h k w of (d', h') \<Rightarrow> (h', a, b, c, d', e, f, g))"
  by (simp add: sha2_step_def sha256_Round_def Ch_fips Maj_fips sha256_Ch_def sha256_Maj_def Let_def)

lemma sha256_step_Cons:
  "fold (\<lambda>(k, w). sha2_step sha256_Sigma0 sha256_Sigma1 k w) ((k, w) # xs) (a, b, c, d, e, f, g, h) =
     (case sha256_Round a b c d e f g h k w of (d', h') \<Rightarrow>
        fold (\<lambda>(k, w). sha2_step sha256_Sigma0 sha256_Sigma1 k w) xs (h', a, b, c, d', e, f, g))"
  by (simp add: sha256_step_Round split: prod.split)

lemma sha256_roll_Cons:
  "fold (sha2_roll sha256_Sigma0 sha256_Sigma1 sha256_sigma0 sha256_sigma1) (k # k' # k'' # ks) ([x0, x1, x2, x3, x4, x5, x6, x7, x8, x9, x10, x11, x12, x13, x14, x15], (a, b, c, d, e, f, g, h)) =
     (let w = x0 + (sha256_sigma1 x14 + x9 + sha256_sigma0 x1) in
      case sha256_Round a b c d e f g h k w of (d', h') \<Rightarrow>
        fold (sha2_roll sha256_Sigma0 sha256_Sigma1 sha256_sigma0 sha256_sigma1) (k' # k'' # ks) ([x1, x2, x3, x4, x5, x6, x7, x8, x9, x10, x11, x12, x13, x14, x15, w], (h', a, b, c, d', e, f, g)))"
  by (simp only: fold_simps) (simp add: sha2_roll_def sha2_next_def sha256_step_Round Let_def split: prod.split)

lemma sha256_roll_last:
  "fold (sha2_roll sha256_Sigma0 sha256_Sigma1 sha256_sigma0 sha256_sigma1) [k, k'] ([x0, x1, x2, x3, x4, x5, x6, x7, x8, x9, x10, x11, x12, x13, x14, x15], (a, b, c, d, e, f, g, h)) =
     (let w = x0 + (sha256_sigma1 x14 + x9 + sha256_sigma0 x1) in
      case sha256_Round a b c d e f g h k w of (d, h) \<Rightarrow>
      let w' = x1 + (sha256_sigma1 x15 + x10 + sha256_sigma0 x2) in
      case sha256_Round h a b c d e f g k' w' of (c, g) \<Rightarrow>
        ([x2, x3, x4, x5, x6, x7, x8, x9, x10, x11, x12, x13, x14, x15, w, w'], (g, h, a, b, c, d, e, f)))"
  by (simp only: fold_simps) (simp add: sha2_roll_def sha2_next_def sha256_step_Round Let_def split: prod.split)

lemma sha256_roll_last_regs:
  "snd (fold (sha2_roll sha256_Sigma0 sha256_Sigma1 sha256_sigma0 sha256_sigma1) [k, k'] ([x0, x1, x2, x3, x4, x5, x6, x7, x8, x9, x10, x11, x12, x13, x14, x15], (a, b, c, d, e, f, g, h))) =
     (case sha256_Round a b c d e f g h k (x0 + sha256_sigma1 x14 + x9 + sha256_sigma0 x1) of (d, h) \<Rightarrow>
      case sha256_Round h a b c d e f g k' (x1 + sha256_sigma1 x15 + x10 + sha256_sigma0 x2) of (c, g) \<Rightarrow>
        (g, h, a, b, c, d, e, f))"
  by (simp only: sha256_roll_last) (simp add: Let_def add.assoc split: prod.split)

lemma sha256_rounds0_fips:
  "sha256_rounds0 chunk (a, b, c, d, e, f, g, h) =
     (let M = map (\<lambda>i. ReadBE32 (drop (4 * i) chunk)) [0..<16] in
      (ws16_of M, fold (\<lambda>(k, w). sha2_step sha256_Sigma0 sha256_Sigma1 k w) (zip (take 16 fips_K256) M) (a, b, c, d, e, f, g, h)))"
proof -
  have M: "map (\<lambda>i. ReadBE32 (drop (4 * i) chunk)) [0..<16] =
    [ReadBE32 (drop 0 chunk), ReadBE32 (drop 4 chunk), ReadBE32 (drop 8 chunk), ReadBE32 (drop 12 chunk), ReadBE32 (drop 16 chunk), ReadBE32 (drop 20 chunk), ReadBE32 (drop 24 chunk), ReadBE32 (drop 28 chunk), ReadBE32 (drop 32 chunk), ReadBE32 (drop 36 chunk), ReadBE32 (drop 40 chunk), ReadBE32 (drop 44 chunk), ReadBE32 (drop 48 chunk), ReadBE32 (drop 52 chunk), ReadBE32 (drop 56 chunk), ReadBE32 (drop 60 chunk)]"
    by (simp add: upt_rec)
  note K = fips_K256_block_0
  show ?thesis unfolding sha256_rounds0_def Let_case_prod M K
    by (simp only: Let_def zip_Cons_Cons zip.simps list.case prod.case ws16_of_list sha256_step_Cons fold_simps(1) Pair_case_prod
        cong del: prod.case_cong_weak)
qed

lemma sha256_rounds1_fips:
  "sha256_rounds1 ((x0, x1, x2, x3, x4, x5, x6, x7, x8, x9, x10, x11, x12, x13, x14, x15), (a, b, c, d, e, f, g, h)) =
     (case fold (sha2_roll sha256_Sigma0 sha256_Sigma1 sha256_sigma0 sha256_sigma1) (take 16 (drop 16 fips_K256)) ([x0, x1, x2, x3, x4, x5, x6, x7, x8, x9, x10, x11, x12, x13, x14, x15], (a, b, c, d, e, f, g, h)) of (W, r) \<Rightarrow> (ws16_of W, r))"
proof -
  note K = fips_K256_block_1
  show ?thesis unfolding K sha256_rounds1_def
    by (simp only: Let_case_prod prod.case sha256_roll_Cons case_prod_Let case_prod_case_prod sha256_roll_last ws16_of_list
        cong del: prod.case_cong_weak)
qed

lemma sha256_rounds2_fips:
  "sha256_rounds2 ((x0, x1, x2, x3, x4, x5, x6, x7, x8, x9, x10, x11, x12, x13, x14, x15), (a, b, c, d, e, f, g, h)) =
     (case fold (sha2_roll sha256_Sigma0 sha256_Sigma1 sha256_sigma0 sha256_sigma1) (take 16 (drop 32 fips_K256)) ([x0, x1, x2, x3, x4, x5, x6, x7, x8, x9, x10, x11, x12, x13, x14, x15], (a, b, c, d, e, f, g, h)) of (W, r) \<Rightarrow> (ws16_of W, r))"
proof -
  note K = fips_K256_block_2
  show ?thesis unfolding K sha256_rounds2_def
    by (simp only: Let_case_prod prod.case sha256_roll_Cons case_prod_Let case_prod_case_prod sha256_roll_last ws16_of_list
        cong del: prod.case_cong_weak)
qed

lemma sha256_rounds3_fips:
  "sha256_rounds3 ((x0, x1, x2, x3, x4, x5, x6, x7, x8, x9, x10, x11, x12, x13, x14, x15), (a, b, c, d, e, f, g, h)) =
     snd (fold (sha2_roll sha256_Sigma0 sha256_Sigma1 sha256_sigma0 sha256_sigma1) (take 16 (drop 48 fips_K256)) ([x0, x1, x2, x3, x4, x5, x6, x7, x8, x9, x10, x11, x12, x13, x14, x15], (a, b, c, d, e, f, g, h)))"
proof -
  have K: "take 16 (drop 48 fips_K256) = drop 48 fips_K256" by simp
  show ?thesis unfolding K unfolding fips_K256_block_3 sha256_rounds3_def
    by (simp only: Let_case_prod prod.case sha256_roll_Cons snd_Let snd_case_prod sha256_roll_last_regs ws16_of_list
        cong del: prod.case_cong_weak)
qed

lemma sha256_rounds1_roll:
  assumes "length W = 16"
  shows "sha256_rounds1 (ws16_of W, r) = (case fold (sha2_roll sha256_Sigma0 sha256_Sigma1 sha256_sigma0 sha256_sigma1) (take 16 (drop 16 fips_K256)) (W, r) of (W, r) \<Rightarrow> (ws16_of W, r))"
proof -
  obtain x0 x1 x2 x3 x4 x5 x6 x7 x8 x9 x10 x11 x12 x13 x14 x15 where W: "W = [x0, x1, x2, x3, x4, x5, x6, x7, x8, x9, x10, x11, x12, x13, x14, x15]" using list16_ex [OF assms] by blast
  obtain a b c d e f g h where r: "r = (a, b, c, d, e, f, g, h)" using regs8_ex [of r] by blast
  show ?thesis by (simp only: W r ws16_of_list sha256_rounds1_fips)
qed

lemma sha256_rounds2_roll:
  assumes "length W = 16"
  shows "sha256_rounds2 (ws16_of W, r) = (case fold (sha2_roll sha256_Sigma0 sha256_Sigma1 sha256_sigma0 sha256_sigma1) (take 16 (drop 32 fips_K256)) (W, r) of (W, r) \<Rightarrow> (ws16_of W, r))"
proof -
  obtain x0 x1 x2 x3 x4 x5 x6 x7 x8 x9 x10 x11 x12 x13 x14 x15 where W: "W = [x0, x1, x2, x3, x4, x5, x6, x7, x8, x9, x10, x11, x12, x13, x14, x15]" using list16_ex [OF assms] by blast
  obtain a b c d e f g h where r: "r = (a, b, c, d, e, f, g, h)" using regs8_ex [of r] by blast
  show ?thesis by (simp only: W r ws16_of_list sha256_rounds2_fips)
qed

lemma sha256_rounds3_roll:
  assumes "length W = 16"
  shows "sha256_rounds3 (ws16_of W, r) = snd (fold (sha2_roll sha256_Sigma0 sha256_Sigma1 sha256_sigma0 sha256_sigma1) (take 16 (drop 48 fips_K256)) (W, r))"
proof -
  obtain x0 x1 x2 x3 x4 x5 x6 x7 x8 x9 x10 x11 x12 x13 x14 x15 where W: "W = [x0, x1, x2, x3, x4, x5, x6, x7, x8, x9, x10, x11, x12, x13, x14, x15]" using list16_ex [OF assms] by blast
  obtain a b c d e f g h where r: "r = (a, b, c, d, e, f, g, h)" using regs8_ex [of r] by blast
  show ?thesis by (simp only: W r ws16_of_list sha256_rounds3_fips)
qed

lemma list_blocks4: "length xs = 64 \<Longrightarrow> xs = take 16 xs @ take 16 (drop 16 xs) @ take 16 (drop 32 xs) @ take 16 (drop 48 xs)"
  using append_take_drop_id [of 16 xs] append_take_drop_id [of 16 "drop 16 xs"] append_take_drop_id [of 16 "drop 32 xs"] by simp

lemma list_blocks5: "length xs = 80 \<Longrightarrow>
    xs = take 16 xs @ take 16 (drop 16 xs) @ take 16 (drop 32 xs) @ take 16 (drop 48 xs) @ take 16 (drop 64 xs)"
  using append_take_drop_id [of 16 xs] append_take_drop_id [of 16 "drop 16 xs"] append_take_drop_id [of 16 "drop 32 xs"]
    append_take_drop_id [of 16 "drop 48 xs"] by simp

lemma fips_K256_split: "fips_K256 = take 16 fips_K256 @ take 16 (drop 16 fips_K256) @ take 16 (drop 32 fips_K256) @ take 16 (drop 48 fips_K256)"
  by (rule list_blocks4) simp

theorem sha256_Transform_fips: "sha256_Transform s chunk = fips_sha256_block s chunk"
proof -
  define M where "M = map (\<lambda>i. ReadBE32 (drop (4 * i) chunk)) [0..<16]"
  have lM: "length M = 16" by (simp add: M_def)
  have lK: "length (take 16 fips_K256) = 16" by simp
  let ?F = "fold (sha2_roll sha256_Sigma0 sha256_Sigma1 sha256_sigma0 sha256_sigma1)"
  define r0 where "r0 = fold (\<lambda>(k, w). sha2_step sha256_Sigma0 sha256_Sigma1 k w) (zip (take 16 fips_K256) M) (regs8_of s)"
  have 0: "sha256_rounds0 chunk (s ! 0, s ! 1, s ! 2, s ! 3, s ! 4, s ! 5, s ! 6, s ! 7) = (ws16_of M, r0)"
    by (simp add: sha256_rounds0_fips Let_def M_def [symmetric] r0_def regs8_of_def)
  obtain W1 r1 where 1: "sha256_rounds1 (ws16_of M, r0) = (ws16_of W1, r1)" and l1: "length W1 = 16"
    and f1: "?F (take 16 (drop 16 fips_K256) @ take 16 (drop 32 fips_K256) @ take 16 (drop 48 fips_K256)) (M, r0) = ?F (take 16 (drop 32 fips_K256) @ take 16 (drop 48 fips_K256)) (W1, r1)"
    using fold_roll_append [where rnd = sha256_rounds1, OF lM sha256_rounds1_roll [OF lM]] by blast
  obtain W2 r2 where 2: "sha256_rounds2 (ws16_of W1, r1) = (ws16_of W2, r2)" and l2: "length W2 = 16"
    and f2: "?F (take 16 (drop 32 fips_K256) @ take 16 (drop 48 fips_K256)) (W1, r1) = ?F (take 16 (drop 48 fips_K256)) (W2, r2)"
    using fold_roll_append [where rnd = sha256_rounds2, OF l1 sha256_rounds2_roll [OF l1]] by blast
  have "sha2_compress sha256_Sigma0 sha256_Sigma1 sha256_sigma0 sha256_sigma1 fips_K256 M (regs8_of s) =
      sha256_rounds3 (sha256_rounds2 (sha256_rounds1 (sha256_rounds0 chunk (s ! 0, s ! 1, s ! 2, s ! 3, s ! 4, s ! 5, s ! 6, s ! 7))))"
    by (subst fips_K256_split) (simp only: sha2_compress_roll [OF lM lK] r0_def [symmetric] f1 f2 0 1 2 sha256_rounds3_roll [OF l2])
  then show ?thesis
    unfolding sha256_Transform_def fips_sha256_block_def sha256_sigmas [symmetric] M_def [symmetric]
    by (simp add: add_regs8_def Let_def)
qed

lemma CSHA256_full_blocks_simps:
  "length d < 64 \<Longrightarrow> CSHA256_full_blocks h d = (h, d)"
  "length b = 64 \<Longrightarrow> CSHA256_full_blocks h (b @ d) =
     CSHA256_full_blocks (h\<lparr>hs_s := sha256_Transform (hs_s h) b, hs_bytes := hs_bytes h + word_of_nat 64\<rparr>) d"
  by (subst CSHA256_full_blocks.simps; simp)+

interpretation sha256: block_hasher 64 sha256_Transform CSHA256_full_blocks CSHA256_Write
proof
  fix h :: "u32 hasher" and d :: bytes
  assume "unat (hs_bytes h) mod 64 = 0 \<or> unat (hs_bytes h) mod 64 + length d < 64"
  moreover obtain h1 d1 where "CSHA256_full_blocks h d = (h1, d1)" by (rule prod.exhaust)
  moreover have "unat (hs_bytes h1) mod 64 = unat (hs_bytes h) mod 64"
    if "CSHA256_full_blocks h d = (h1, d1)" for h1 d1 using that
  proof (induction h d arbitrary: h1 d1 rule: CSHA256_full_blocks.induct)
    case (1 h d)
    have z: "unat (hs_bytes h + 64) mod 64 = unat (hs_bytes h) mod 64"
      using unat_add_mod [of 64 "hs_bytes h" 64] by simp
    show ?case
    proof (cases "64 \<le> length d")
      case True
      then show ?thesis
        using "1.IH" [OF True, of h1 d1] "1.prems" z by (simp add: CSHA256_full_blocks.simps [of h d])
    next
      case False
      then show ?thesis using "1.prems" by (simp add: CSHA256_full_blocks.simps [of h d])
    qed
  qed
  ultimately show "CSHA256_Write h d = (case CSHA256_full_blocks h d of (h, d) \<Rightarrow>
        if d = [] then Some h
        else do { buf \<leftarrow> memcpy (hs_buf h) (int (unat (hs_bytes h) mod 64)) d 0 (int (length d));
                  Some (h\<lparr>hs_buf := buf, hs_bytes := hs_bytes h + word_of_nat (length d)\<rparr>) })"
    by (auto simp: CSHA256_Write_def Let_def)
next
  fix h :: "u32 hasher" and d :: bytes and k
  assume k: "unat (hs_bytes h) mod 64 = k" "k \<noteq> 0" "64 \<le> k + length d" "length (hs_buf h) = 64"
  have "k < 64" using k(1) by auto
  show "\<exists>buf. memcpy (hs_buf h) (int k) d 0 (int (64 - k)) = Some buf \<and>
        CSHA256_Write h d = CSHA256_Write (h\<lparr>hs_s := sha256_Transform (hs_s h) buf, hs_buf := buf, hs_bytes := hs_bytes h + word_of_nat (64 - k)\<rparr>) (drop (64 - k) d)"
    using k unat_add_mod [of 64 "hs_bytes h" "64 - k"] \<open>k < 64\<close>
    by (simp add: CSHA256_Write_def [of h] CSHA256_Write_def [of "_\<lparr>hs_bytes := _\<rparr>"] memcpy_def mod_add_left_eq [symmetric, of "unat _"] Let_def)
qed (simp_all add: CSHA256_full_blocks_simps)

lemma length_sha256: "length (sha256_Transform s b) = 8" "length sha256_Initialize = 8"
  by (simp_all add: sha256_Transform_def sha256_Initialize_def split: prod.split)

lemma CSHA256_represents: "length junk = 64 \<Longrightarrow> represents 64 sha256_Transform sha256_Initialize (CSHA256 junk) []"
  unfolding CSHA256_def by (rule sha256.represents_init)

lemma CSHA256_Finalize_fips:
  assumes "represents 64 sha256_Transform sha256_Initialize h m"
  obtains h' where "CSHA256_Finalize h = Some (h', fips_sha256 m)" "length (hs_buf h') = 64"
proof -
  let ?lf = "rev (wlist 8 (8 * length m))"
  have c: "hs_bytes h = word_of_nat (length m)" using assms(1) by (rule sha256.represents_count)
  have lf: "WriteBE64 (push_bit 3 (hs_bytes h)) = ?lf"
    unfolding c by (rule WriteBE64_bits)
  define n where "n = 1 + (119 - unat (hs_bytes h) mod 64) mod 64"
  obtain h1 h2 where w: "rd (0x80 # replicate (64 - 1) 0) n = Some (take n (0x80 # replicate (64 - 1) 0))"
      "CSHA256_Write h (take n (0x80 # replicate (64 - 1) 0)) = Some h1" "CSHA256_Write h1 ?lf = Some h2"
      "hs_s h2 = md_hash 64 sha256_Transform sha256_Initialize (md_pad 64 ?lf m)" "length (hs_buf h2) = 64"
    by (rule sha256.Write_padding [OF assms(1), of n ?lf]) (auto simp: n_def)
  have tr: "sha256_Transform = fips_sha256_block" by (intro ext) (rule sha256_Transform_fips)
  have l8: "length (hs_s h2) = 8"
    unfolding w(4) md_hash_def by (rule length_foldl_const) (simp_all add: length_sha256)
  have f: "fips_sha256 m = concat (map WriteBE32 (hs_s h2))"
    unfolding w(4) fips_sha256_def fips_H256_eq sha256_Initialize_def tr by simp
  have "CSHA256_Finalize h = Some (h2, fips_sha256 m)"
    using w(1-3) unfolding CSHA256_Finalize_def f lf n_def [symmetric] Let_def by (simp add: concat_map_nth [OF l8])
  then show ?thesis using w(5) by (rule that)
qed

interpretation sha256d: stream_digest "represents 64 sha256_Transform sha256_Initialize" CSHA256_Write CSHA256_Finalize fips_sha256 "\<lambda>m. True"
proof
  fix h :: "u32 hasher" and m d :: bytes
  assume r: "represents 64 sha256_Transform sha256_Initialize h m"
  show "\<exists>h'. CSHA256_Write h d = Some h' \<and> represents 64 sha256_Transform sha256_Initialize h' (m @ d)"
    by (rule sha256.Write_represents [OF r, of d]) blast
next
  fix h :: "u32 hasher" and m :: bytes
  assume r: "represents 64 sha256_Transform sha256_Initialize h m"
  show "\<exists>h'. CSHA256_Finalize h = Some (h', fips_sha256 m)"
    by (rule CSHA256_Finalize_fips [OF r]) blast
qed

section \<open>SHA-512 computes the standard\<close>

lemma sha512_sigmas:
  "sha512_Sigma0 = (\<lambda>x. word_rotr 28 x XOR word_rotr 34 x XOR word_rotr 39 x)"
  "sha512_Sigma1 = (\<lambda>x. word_rotr 14 x XOR word_rotr 18 x XOR word_rotr 41 x)"
  "sha512_sigma0 = (\<lambda>x. word_rotr 1 x XOR word_rotr 8 x XOR drop_bit 7 x)"
  "sha512_sigma1 = (\<lambda>x. word_rotr 19 x XOR word_rotr 61 x XOR drop_bit 6 x)"
  unfolding sha512_Sigma0_def sha512_Sigma1_def sha512_sigma0_def sha512_sigma1_def
  by (simp_all flip: rotr_shifts add: fun_eq_iff)

lemma sha512_step_Round:
  "sha2_step sha512_Sigma0 sha512_Sigma1 k w (a, b, c, d, e, f, g, h) =
     (case sha512_Round a b c d e f g h k w of (d', h') \<Rightarrow> (h', a, b, c, d', e, f, g))"
  by (simp add: sha2_step_def sha512_Round_def Ch_fips Maj_fips sha512_Ch_def sha512_Maj_def Let_def)

lemma sha512_step_Cons:
  "fold (\<lambda>(k, w). sha2_step sha512_Sigma0 sha512_Sigma1 k w) ((k, w) # xs) (a, b, c, d, e, f, g, h) =
     (case sha512_Round a b c d e f g h k w of (d', h') \<Rightarrow>
        fold (\<lambda>(k, w). sha2_step sha512_Sigma0 sha512_Sigma1 k w) xs (h', a, b, c, d', e, f, g))"
  by (simp add: sha512_step_Round split: prod.split)

lemma sha512_roll_Cons:
  "fold (sha2_roll sha512_Sigma0 sha512_Sigma1 sha512_sigma0 sha512_sigma1) (k # k' # k'' # ks) ([x0, x1, x2, x3, x4, x5, x6, x7, x8, x9, x10, x11, x12, x13, x14, x15], (a, b, c, d, e, f, g, h)) =
     (let w = x0 + (sha512_sigma1 x14 + x9 + sha512_sigma0 x1) in
      case sha512_Round a b c d e f g h k w of (d', h') \<Rightarrow>
        fold (sha2_roll sha512_Sigma0 sha512_Sigma1 sha512_sigma0 sha512_sigma1) (k' # k'' # ks) ([x1, x2, x3, x4, x5, x6, x7, x8, x9, x10, x11, x12, x13, x14, x15, w], (h', a, b, c, d', e, f, g)))"
  by (simp only: fold_simps) (simp add: sha2_roll_def sha2_next_def sha512_step_Round Let_def split: prod.split)

lemma sha512_roll_last:
  "fold (sha2_roll sha512_Sigma0 sha512_Sigma1 sha512_sigma0 sha512_sigma1) [k, k'] ([x0, x1, x2, x3, x4, x5, x6, x7, x8, x9, x10, x11, x12, x13, x14, x15], (a, b, c, d, e, f, g, h)) =
     (let w = x0 + (sha512_sigma1 x14 + x9 + sha512_sigma0 x1) in
      case sha512_Round a b c d e f g h k w of (d, h) \<Rightarrow>
      let w' = x1 + (sha512_sigma1 x15 + x10 + sha512_sigma0 x2) in
      case sha512_Round h a b c d e f g k' w' of (c, g) \<Rightarrow>
        ([x2, x3, x4, x5, x6, x7, x8, x9, x10, x11, x12, x13, x14, x15, w, w'], (g, h, a, b, c, d, e, f)))"
  by (simp only: fold_simps) (simp add: sha2_roll_def sha2_next_def sha512_step_Round Let_def split: prod.split)

lemma sha512_roll_last_regs:
  "snd (fold (sha2_roll sha512_Sigma0 sha512_Sigma1 sha512_sigma0 sha512_sigma1) [k, k'] ([x0, x1, x2, x3, x4, x5, x6, x7, x8, x9, x10, x11, x12, x13, x14, x15], (a, b, c, d, e, f, g, h))) =
     (case sha512_Round a b c d e f g h k (x0 + sha512_sigma1 x14 + x9 + sha512_sigma0 x1) of (d, h) \<Rightarrow>
      case sha512_Round h a b c d e f g k' (x1 + sha512_sigma1 x15 + x10 + sha512_sigma0 x2) of (c, g) \<Rightarrow>
        (g, h, a, b, c, d, e, f))"
  by (simp only: sha512_roll_last) (simp add: Let_def add.assoc split: prod.split)

lemma sha512_rounds0_fips:
  "sha512_rounds0 chunk (a, b, c, d, e, f, g, h) =
     (let M = map (\<lambda>i. ReadBE64 (drop (8 * i) chunk)) [0..<16] in
      (ws16_of M, fold (\<lambda>(k, w). sha2_step sha512_Sigma0 sha512_Sigma1 k w) (zip (take 16 fips_K512) M) (a, b, c, d, e, f, g, h)))"
proof -
  have M: "map (\<lambda>i. ReadBE64 (drop (8 * i) chunk)) [0..<16] =
    [ReadBE64 (drop 0 chunk), ReadBE64 (drop 8 chunk), ReadBE64 (drop 16 chunk), ReadBE64 (drop 24 chunk), ReadBE64 (drop 32 chunk), ReadBE64 (drop 40 chunk), ReadBE64 (drop 48 chunk), ReadBE64 (drop 56 chunk), ReadBE64 (drop 64 chunk), ReadBE64 (drop 72 chunk), ReadBE64 (drop 80 chunk), ReadBE64 (drop 88 chunk), ReadBE64 (drop 96 chunk), ReadBE64 (drop 104 chunk), ReadBE64 (drop 112 chunk), ReadBE64 (drop 120 chunk)]"
    by (simp add: upt_rec)
  note K = fips_K512_block_0
  show ?thesis unfolding sha512_rounds0_def Let_case_prod M K
    by (simp only: Let_def zip_Cons_Cons zip.simps list.case prod.case ws16_of_list sha512_step_Cons fold_simps(1) Pair_case_prod
        cong del: prod.case_cong_weak)
qed

lemma sha512_rounds1_fips:
  "sha512_rounds1 ((x0, x1, x2, x3, x4, x5, x6, x7, x8, x9, x10, x11, x12, x13, x14, x15), (a, b, c, d, e, f, g, h)) =
     (case fold (sha2_roll sha512_Sigma0 sha512_Sigma1 sha512_sigma0 sha512_sigma1) (take 16 (drop 16 fips_K512)) ([x0, x1, x2, x3, x4, x5, x6, x7, x8, x9, x10, x11, x12, x13, x14, x15], (a, b, c, d, e, f, g, h)) of (W, r) \<Rightarrow> (ws16_of W, r))"
proof -
  note K = fips_K512_block_1
  show ?thesis unfolding K sha512_rounds1_def
    by (simp only: Let_case_prod prod.case sha512_roll_Cons case_prod_Let case_prod_case_prod sha512_roll_last ws16_of_list
        cong del: prod.case_cong_weak)
qed

lemma sha512_rounds2_fips:
  "sha512_rounds2 ((x0, x1, x2, x3, x4, x5, x6, x7, x8, x9, x10, x11, x12, x13, x14, x15), (a, b, c, d, e, f, g, h)) =
     (case fold (sha2_roll sha512_Sigma0 sha512_Sigma1 sha512_sigma0 sha512_sigma1) (take 16 (drop 32 fips_K512)) ([x0, x1, x2, x3, x4, x5, x6, x7, x8, x9, x10, x11, x12, x13, x14, x15], (a, b, c, d, e, f, g, h)) of (W, r) \<Rightarrow> (ws16_of W, r))"
proof -
  note K = fips_K512_block_2
  show ?thesis unfolding K sha512_rounds2_def
    by (simp only: Let_case_prod prod.case sha512_roll_Cons case_prod_Let case_prod_case_prod sha512_roll_last ws16_of_list
        cong del: prod.case_cong_weak)
qed

lemma sha512_rounds3_fips:
  "sha512_rounds3 ((x0, x1, x2, x3, x4, x5, x6, x7, x8, x9, x10, x11, x12, x13, x14, x15), (a, b, c, d, e, f, g, h)) =
     (case fold (sha2_roll sha512_Sigma0 sha512_Sigma1 sha512_sigma0 sha512_sigma1) (take 16 (drop 48 fips_K512)) ([x0, x1, x2, x3, x4, x5, x6, x7, x8, x9, x10, x11, x12, x13, x14, x15], (a, b, c, d, e, f, g, h)) of (W, r) \<Rightarrow> (ws16_of W, r))"
proof -
  note K = fips_K512_block_3
  show ?thesis unfolding K sha512_rounds3_def
    by (simp only: Let_case_prod prod.case sha512_roll_Cons case_prod_Let case_prod_case_prod sha512_roll_last ws16_of_list
        cong del: prod.case_cong_weak)
qed

lemma sha512_rounds4_fips:
  "sha512_rounds4 ((x0, x1, x2, x3, x4, x5, x6, x7, x8, x9, x10, x11, x12, x13, x14, x15), (a, b, c, d, e, f, g, h)) =
     snd (fold (sha2_roll sha512_Sigma0 sha512_Sigma1 sha512_sigma0 sha512_sigma1) (take 16 (drop 64 fips_K512)) ([x0, x1, x2, x3, x4, x5, x6, x7, x8, x9, x10, x11, x12, x13, x14, x15], (a, b, c, d, e, f, g, h)))"
proof -
  have K: "take 16 (drop 64 fips_K512) = drop 64 fips_K512" by simp
  show ?thesis unfolding K unfolding fips_K512_block_4 sha512_rounds4_def
    by (simp only: Let_case_prod prod.case sha512_roll_Cons snd_Let snd_case_prod sha512_roll_last_regs ws16_of_list
        cong del: prod.case_cong_weak)
qed

lemma sha512_rounds1_roll:
  assumes "length W = 16"
  shows "sha512_rounds1 (ws16_of W, r) = (case fold (sha2_roll sha512_Sigma0 sha512_Sigma1 sha512_sigma0 sha512_sigma1) (take 16 (drop 16 fips_K512)) (W, r) of (W, r) \<Rightarrow> (ws16_of W, r))"
proof -
  obtain x0 x1 x2 x3 x4 x5 x6 x7 x8 x9 x10 x11 x12 x13 x14 x15 where W: "W = [x0, x1, x2, x3, x4, x5, x6, x7, x8, x9, x10, x11, x12, x13, x14, x15]" using list16_ex [OF assms] by blast
  obtain a b c d e f g h where r: "r = (a, b, c, d, e, f, g, h)" using regs8_ex [of r] by blast
  show ?thesis by (simp only: W r ws16_of_list sha512_rounds1_fips)
qed

lemma sha512_rounds2_roll:
  assumes "length W = 16"
  shows "sha512_rounds2 (ws16_of W, r) = (case fold (sha2_roll sha512_Sigma0 sha512_Sigma1 sha512_sigma0 sha512_sigma1) (take 16 (drop 32 fips_K512)) (W, r) of (W, r) \<Rightarrow> (ws16_of W, r))"
proof -
  obtain x0 x1 x2 x3 x4 x5 x6 x7 x8 x9 x10 x11 x12 x13 x14 x15 where W: "W = [x0, x1, x2, x3, x4, x5, x6, x7, x8, x9, x10, x11, x12, x13, x14, x15]" using list16_ex [OF assms] by blast
  obtain a b c d e f g h where r: "r = (a, b, c, d, e, f, g, h)" using regs8_ex [of r] by blast
  show ?thesis by (simp only: W r ws16_of_list sha512_rounds2_fips)
qed

lemma sha512_rounds3_roll:
  assumes "length W = 16"
  shows "sha512_rounds3 (ws16_of W, r) = (case fold (sha2_roll sha512_Sigma0 sha512_Sigma1 sha512_sigma0 sha512_sigma1) (take 16 (drop 48 fips_K512)) (W, r) of (W, r) \<Rightarrow> (ws16_of W, r))"
proof -
  obtain x0 x1 x2 x3 x4 x5 x6 x7 x8 x9 x10 x11 x12 x13 x14 x15 where W: "W = [x0, x1, x2, x3, x4, x5, x6, x7, x8, x9, x10, x11, x12, x13, x14, x15]" using list16_ex [OF assms] by blast
  obtain a b c d e f g h where r: "r = (a, b, c, d, e, f, g, h)" using regs8_ex [of r] by blast
  show ?thesis by (simp only: W r ws16_of_list sha512_rounds3_fips)
qed

lemma sha512_rounds4_roll:
  assumes "length W = 16"
  shows "sha512_rounds4 (ws16_of W, r) = snd (fold (sha2_roll sha512_Sigma0 sha512_Sigma1 sha512_sigma0 sha512_sigma1) (take 16 (drop 64 fips_K512)) (W, r))"
proof -
  obtain x0 x1 x2 x3 x4 x5 x6 x7 x8 x9 x10 x11 x12 x13 x14 x15 where W: "W = [x0, x1, x2, x3, x4, x5, x6, x7, x8, x9, x10, x11, x12, x13, x14, x15]" using list16_ex [OF assms] by blast
  obtain a b c d e f g h where r: "r = (a, b, c, d, e, f, g, h)" using regs8_ex [of r] by blast
  show ?thesis by (simp only: W r ws16_of_list sha512_rounds4_fips)
qed

lemma fips_K512_split: "fips_K512 = take 16 fips_K512 @ take 16 (drop 16 fips_K512) @ take 16 (drop 32 fips_K512) @ take 16 (drop 48 fips_K512) @ take 16 (drop 64 fips_K512)"
  by (rule list_blocks5) simp

theorem sha512_Transform_fips: "sha512_Transform s chunk = fips_sha512_block s chunk"
proof -
  define M where "M = map (\<lambda>i. ReadBE64 (drop (8 * i) chunk)) [0..<16]"
  have lM: "length M = 16" by (simp add: M_def)
  have lK: "length (take 16 fips_K512) = 16" by simp
  let ?F = "fold (sha2_roll sha512_Sigma0 sha512_Sigma1 sha512_sigma0 sha512_sigma1)"
  define r0 where "r0 = fold (\<lambda>(k, w). sha2_step sha512_Sigma0 sha512_Sigma1 k w) (zip (take 16 fips_K512) M) (regs8_of s)"
  have 0: "sha512_rounds0 chunk (s ! 0, s ! 1, s ! 2, s ! 3, s ! 4, s ! 5, s ! 6, s ! 7) = (ws16_of M, r0)"
    by (simp add: sha512_rounds0_fips Let_def M_def [symmetric] r0_def regs8_of_def)
  obtain W1 r1 where 1: "sha512_rounds1 (ws16_of M, r0) = (ws16_of W1, r1)" and l1: "length W1 = 16"
    and f1: "?F (take 16 (drop 16 fips_K512) @ take 16 (drop 32 fips_K512) @ take 16 (drop 48 fips_K512) @ take 16 (drop 64 fips_K512)) (M, r0) = ?F (take 16 (drop 32 fips_K512) @ take 16 (drop 48 fips_K512) @ take 16 (drop 64 fips_K512)) (W1, r1)"
    using fold_roll_append [where rnd = sha512_rounds1, OF lM sha512_rounds1_roll [OF lM]] by blast
  obtain W2 r2 where 2: "sha512_rounds2 (ws16_of W1, r1) = (ws16_of W2, r2)" and l2: "length W2 = 16"
    and f2: "?F (take 16 (drop 32 fips_K512) @ take 16 (drop 48 fips_K512) @ take 16 (drop 64 fips_K512)) (W1, r1) = ?F (take 16 (drop 48 fips_K512) @ take 16 (drop 64 fips_K512)) (W2, r2)"
    using fold_roll_append [where rnd = sha512_rounds2, OF l1 sha512_rounds2_roll [OF l1]] by blast
  obtain W3 r3 where 3: "sha512_rounds3 (ws16_of W2, r2) = (ws16_of W3, r3)" and l3: "length W3 = 16"
    and f3: "?F (take 16 (drop 48 fips_K512) @ take 16 (drop 64 fips_K512)) (W2, r2) = ?F (take 16 (drop 64 fips_K512)) (W3, r3)"
    using fold_roll_append [where rnd = sha512_rounds3, OF l2 sha512_rounds3_roll [OF l2]] by blast
  have "sha2_compress sha512_Sigma0 sha512_Sigma1 sha512_sigma0 sha512_sigma1 fips_K512 M (regs8_of s) =
      sha512_rounds4 (sha512_rounds3 (sha512_rounds2 (sha512_rounds1 (sha512_rounds0 chunk (s ! 0, s ! 1, s ! 2, s ! 3, s ! 4, s ! 5, s ! 6, s ! 7)))))"
    by (subst fips_K512_split) (simp only: sha2_compress_roll [OF lM lK] r0_def [symmetric] f1 f2 f3 0 1 2 3 sha512_rounds4_roll [OF l3])
  then show ?thesis
    unfolding sha512_Transform_def fips_sha512_block_def sha512_sigmas [symmetric] M_def [symmetric]
    by (simp add: add_regs8_def Let_def)
qed

lemma CSHA512_full_blocks_simps:
  "length d < 128 \<Longrightarrow> CSHA512_full_blocks h d = (h, d)"
  "length b = 128 \<Longrightarrow> CSHA512_full_blocks h (b @ d) =
     CSHA512_full_blocks (h\<lparr>hs_s := sha512_Transform (hs_s h) b, hs_bytes := hs_bytes h + word_of_nat 128\<rparr>) d"
  by (subst CSHA512_full_blocks.simps; simp)+

interpretation sha512: block_hasher 128 sha512_Transform CSHA512_full_blocks CSHA512_Write
proof
  fix h :: "u64 hasher" and d :: bytes
  assume "unat (hs_bytes h) mod 128 = 0 \<or> unat (hs_bytes h) mod 128 + length d < 128"
  moreover obtain h1 d1 where "CSHA512_full_blocks h d = (h1, d1)" by (rule prod.exhaust)
  moreover have "unat (hs_bytes h1) mod 128 = unat (hs_bytes h) mod 128"
    if "CSHA512_full_blocks h d = (h1, d1)" for h1 d1 using that
  proof (induction h d arbitrary: h1 d1 rule: CSHA512_full_blocks.induct)
    case (1 h d)
    have z: "unat (hs_bytes h + 128) mod 128 = unat (hs_bytes h) mod 128"
      using unat_add_mod [of 128 "hs_bytes h" 128] by simp
    show ?case
    proof (cases "128 \<le> length d")
      case True
      then show ?thesis
        using "1.IH" [OF True, of h1 d1] "1.prems" z by (simp add: CSHA512_full_blocks.simps [of h d])
    next
      case False
      then show ?thesis using "1.prems" by (simp add: CSHA512_full_blocks.simps [of h d])
    qed
  qed
  ultimately show "CSHA512_Write h d = (case CSHA512_full_blocks h d of (h, d) \<Rightarrow>
        if d = [] then Some h
        else do { buf \<leftarrow> memcpy (hs_buf h) (int (unat (hs_bytes h) mod 128)) d 0 (int (length d));
                  Some (h\<lparr>hs_buf := buf, hs_bytes := hs_bytes h + word_of_nat (length d)\<rparr>) })"
    by (auto simp: CSHA512_Write_def Let_def)
next
  fix h :: "u64 hasher" and d :: bytes and k
  assume k: "unat (hs_bytes h) mod 128 = k" "k \<noteq> 0" "128 \<le> k + length d" "length (hs_buf h) = 128"
  have "k < 128" using k(1) by auto
  show "\<exists>buf. memcpy (hs_buf h) (int k) d 0 (int (128 - k)) = Some buf \<and>
        CSHA512_Write h d = CSHA512_Write (h\<lparr>hs_s := sha512_Transform (hs_s h) buf, hs_buf := buf, hs_bytes := hs_bytes h + word_of_nat (128 - k)\<rparr>) (drop (128 - k) d)"
    using k unat_add_mod [of 128 "hs_bytes h" "128 - k"] \<open>k < 128\<close>
    by (simp add: CSHA512_Write_def [of h] CSHA512_Write_def [of "_\<lparr>hs_bytes := _\<rparr>"] memcpy_def mod_add_left_eq [symmetric, of "unat _"] Let_def)
qed (simp_all add: CSHA512_full_blocks_simps)

lemma sizedesc512: "n < 2 ^ 61 \<Longrightarrow> replicate 8 0 @ WriteBE64 (push_bit 3 (word_of_nat n)) = rev (wlist 16 (8 * n))"
proof -
  assume "n < 2 ^ 61"
  then have "8 * n div 2 ^ 64 = 0" by simp
  then have "wlist 16 (8 * n) = (wlist 8 (8 * n) @ wlist 8 0 :: bytes)"
    using wlist_add [where 'a = 8, of 8 8 "8 * n"] by simp
  then show ?thesis unfolding WriteBE64_bits wlist_0 by simp
qed

lemma length_sha512: "length (sha512_Transform s b) = 8" "length sha512_Initialize = 8"
  by (simp_all add: sha512_Transform_def sha512_Initialize_def split: prod.split)

lemma CSHA512_represents: "length junk = 128 \<Longrightarrow> represents 128 sha512_Transform sha512_Initialize (CSHA512 junk) []"
  unfolding CSHA512_def by (rule sha512.represents_init)

lemma CSHA512_Finalize_fips:
  assumes "represents 128 sha512_Transform sha512_Initialize h m" and "length m < 2 ^ 61"
  obtains h' where "CSHA512_Finalize h = Some (h', fips_sha512 m)" "length (hs_buf h') = 128"
proof -
  let ?lf = "rev (wlist 16 (8 * length m))"
  have c: "hs_bytes h = word_of_nat (length m)" using assms(1) by (rule sha512.represents_count)
  have lf: "replicate 8 0 @ WriteBE64 (push_bit 3 (hs_bytes h)) = ?lf"
    unfolding c by (rule sizedesc512) (use assms(2) in simp)
  define n where "n = 1 + (239 - unat (hs_bytes h) mod 128) mod 128"
  obtain h1 h2 where w: "rd (0x80 # replicate (128 - 1) 0) n = Some (take n (0x80 # replicate (128 - 1) 0))"
      "CSHA512_Write h (take n (0x80 # replicate (128 - 1) 0)) = Some h1" "CSHA512_Write h1 ?lf = Some h2"
      "hs_s h2 = md_hash 128 sha512_Transform sha512_Initialize (md_pad 128 ?lf m)" "length (hs_buf h2) = 128"
    by (rule sha512.Write_padding [OF assms(1), of n ?lf]) (auto simp: n_def)
  have tr: "sha512_Transform = fips_sha512_block" by (intro ext) (rule sha512_Transform_fips)
  have l8: "length (hs_s h2) = 8"
    unfolding w(4) md_hash_def by (rule length_foldl_const) (simp_all add: length_sha512)
  have f: "fips_sha512 m = concat (map WriteBE64 (hs_s h2))"
    unfolding w(4) fips_sha512_def fips_H512_eq sha512_Initialize_def tr by simp
  have "CSHA512_Finalize h = Some (h2, fips_sha512 m)"
    using w(1-3) unfolding CSHA512_Finalize_def f lf n_def [symmetric] Let_def by (simp add: concat_map_nth [OF l8])
  then show ?thesis using w(5) by (rule that)
qed

interpretation sha512d: stream_digest "represents 128 sha512_Transform sha512_Initialize" CSHA512_Write CSHA512_Finalize fips_sha512 "\<lambda>m. length m < 2 ^ 61"
proof
  fix h :: "u64 hasher" and m d :: bytes
  assume r: "represents 128 sha512_Transform sha512_Initialize h m"
  show "\<exists>h'. CSHA512_Write h d = Some h' \<and> represents 128 sha512_Transform sha512_Initialize h' (m @ d)"
    by (rule sha512.Write_represents [OF r, of d]) blast
next
  fix h :: "u64 hasher" and m :: bytes
  assume r: "represents 128 sha512_Transform sha512_Initialize h m" "length m < 2 ^ 61"
  show "\<exists>h'. CSHA512_Finalize h = Some (h', fips_sha512 m)"
    by (rule CSHA512_Finalize_fips [OF r]) blast
qed

section \<open>HMAC computes the standard\<close>

lemma length_fips_sha256: "length (fips_sha256 m) = 32"
proof -
  have "length (md_hash 64 fips_sha256_block s0 p) = 8" if "length s0 = 8" for s0 p
    unfolding md_hash_def using that
    by (intro length_foldl_const) (simp_all add: fips_sha256_block_def add_regs8_def split: prod.split)
  then show ?thesis by (simp add: fips_sha256_def fips_H256_eq length_concat comp_def sum_list_triv)
qed

lemma CHMAC_SHA256_Write_all:
  "write_all CHMAC_SHA256_Write h ds = map_option (\<lambda>i. h\<lparr>hmac_inner := i\<rparr>) (write_all CSHA256_Write (hmac_inner h) ds)"
  by (induction ds arbitrary: h) (auto simp: CHMAC_SHA256_Write_def split: Option.bind_split)

lemma CHMAC_SHA256_fips:
  assumes junk: "length jo = 64" "length ji = 64" "length jk = 64"
  shows "map_option snd (do { h \<leftarrow> CHMAC_SHA256 jo ji jk key; h \<leftarrow> write_all CHMAC_SHA256_Write h ds; CHMAC_SHA256_Finalize h }) =
    Some (fips_hmac fips_sha256 64 key (concat ds))"
proof -
  define k0 where "k0 = (if length key \<le> 64 then key else fips_sha256 key)"
  define k where "k = k0 @ replicate (64 - length k0) 0"
  have lk: "length k = 64" using length_fips_sha256 by (simp add: k_def k0_def)
  define k1 where "k1 = map (\<lambda>b. b XOR 0x5c) k"
  define k2 where "k2 = map (\<lambda>b. b XOR 0x36) k"
  have k2: "map (\<lambda>b. b XOR (0x5c XOR 0x36)) k1 = k2"
    unfolding k1_def k2_def by (simp add: xor.assoc [of _ "0x5c"])
  obtain o1 i1 i2 where n: "CSHA256_Write (CSHA256 jo) k1 = Some o1" "CSHA256_Write (CSHA256 ji) k2 = Some i1"
      "write_all CSHA256_Write i1 ds = Some i2"
      "\<exists>i3 o2 o3. CSHA256_Finalize i2 = Some (i3, fips_sha256 (k2 @ concat ds)) \<and>
         CSHA256_Write o1 (fips_sha256 (k2 @ concat ds)) = Some o2 \<and>
         CSHA256_Finalize o2 = Some (o3, fips_sha256 (k1 @ fips_sha256 (k2 @ concat ds)))"
    by (rule sha256d.nested_digest [where ho = "CSHA256 jo" and hi = "CSHA256 ji" and ds = ds and ka = k1 and kb = k2])
      (use CSHA256_represents junk in \<open>auto simp: k1_def k2_def lk length_fips_sha256\<close>)
  have key: "\<exists>h1 h2. CSHA256_Write (CSHA256 jk) key = Some h1 \<and> CSHA256_Finalize h1 = Some (h2, fips_sha256 key)"
    by (rule sha256d.digest_one) (use CSHA256_represents [OF junk(3)] in auto)
  have K: "(if length key \<le> 64 then Some (key @ replicate (64 - length key) 0)
      else do { h \<leftarrow> CSHA256_Write (CSHA256 jk) key; (h, hash) \<leftarrow> CSHA256_Finalize h; Some (hash @ replicate 32 0) }) = Some k"
    using key by (auto simp: k_def k0_def length_fips_sha256)
  have "CHMAC_SHA256 jo ji jk key = Some \<lparr>hmac_outer = o1, hmac_inner = i1\<rparr>"
    unfolding CHMAC_SHA256_def by (simp only: K Let_def Option.bind.bind_lunit k1_def [symmetric] k2 n(1,2))
  then show ?thesis
    using n(3,4) by (auto simp: CHMAC_SHA256_Write_all CHMAC_SHA256_Finalize_def fips_hmac_def k1_def k2_def k_def k0_def Let_def)
qed

lemma length_fips_sha512: "length (fips_sha512 m) = 64"
proof -
  have "length (md_hash 128 fips_sha512_block s0 p) = 8" if "length s0 = 8" for s0 p
    unfolding md_hash_def using that
    by (intro length_foldl_const) (simp_all add: fips_sha512_block_def add_regs8_def split: prod.split)
  then show ?thesis by (simp add: fips_sha512_def fips_H512_eq length_concat comp_def sum_list_triv)
qed

lemma CHMAC_SHA512_Write_all:
  "write_all CHMAC_SHA512_Write h ds = map_option (\<lambda>i. h\<lparr>hmac_inner := i\<rparr>) (write_all CSHA512_Write (hmac_inner h) ds)"
  by (induction ds arbitrary: h) (auto simp: CHMAC_SHA512_Write_def split: Option.bind_split)

lemma CHMAC_SHA512_fips:
  assumes junk: "length jo = 128" "length ji = 128" "length jk = 128" and len: "length key < 2 ^ 60" "length (concat ds) < 2 ^ 60"
  shows "map_option snd (do { h \<leftarrow> CHMAC_SHA512 jo ji jk key; h \<leftarrow> write_all CHMAC_SHA512_Write h ds; CHMAC_SHA512_Finalize h }) =
    Some (fips_hmac fips_sha512 128 key (concat ds))"
proof -
  define k0 where "k0 = (if length key \<le> 128 then key else fips_sha512 key)"
  define k where "k = k0 @ replicate (128 - length k0) 0"
  have lk: "length k = 128" using length_fips_sha512 by (simp add: k_def k0_def)
  define k1 where "k1 = map (\<lambda>b. b XOR 0x5c) k"
  define k2 where "k2 = map (\<lambda>b. b XOR 0x36) k"
  have k2: "map (\<lambda>b. b XOR (0x5c XOR 0x36)) k1 = k2"
    unfolding k1_def k2_def by (simp add: xor.assoc [of _ "0x5c"])
  obtain o1 i1 i2 where n: "CSHA512_Write (CSHA512 jo) k1 = Some o1" "CSHA512_Write (CSHA512 ji) k2 = Some i1"
      "write_all CSHA512_Write i1 ds = Some i2"
      "\<exists>i3 o2 o3. CSHA512_Finalize i2 = Some (i3, fips_sha512 (k2 @ concat ds)) \<and>
         CSHA512_Write o1 (fips_sha512 (k2 @ concat ds)) = Some o2 \<and>
         CSHA512_Finalize o2 = Some (o3, fips_sha512 (k1 @ fips_sha512 (k2 @ concat ds)))"
    by (rule sha512d.nested_digest [where ho = "CSHA512 jo" and hi = "CSHA512 ji" and ds = ds and ka = k1 and kb = k2])
      (use CSHA512_represents junk len in \<open>auto simp: k1_def k2_def lk length_fips_sha512\<close>)
  have key: "\<exists>h1 h2. CSHA512_Write (CSHA512 jk) key = Some h1 \<and> CSHA512_Finalize h1 = Some (h2, fips_sha512 key)"
    by (rule sha512d.digest_one) (use CSHA512_represents [OF junk(3)] len in auto)
  have K: "(if length key \<le> 128 then Some (key @ replicate (128 - length key) 0)
      else do { h \<leftarrow> CSHA512_Write (CSHA512 jk) key; (h, hash) \<leftarrow> CSHA512_Finalize h; Some (hash @ replicate 64 0) }) = Some k"
    using key by (auto simp: k_def k0_def length_fips_sha512)
  have "CHMAC_SHA512 jo ji jk key = Some \<lparr>hmac_outer = o1, hmac_inner = i1\<rparr>"
    unfolding CHMAC_SHA512_def by (simp only: K Let_def Option.bind.bind_lunit k1_def [symmetric] k2 n(1,2))
  then show ?thesis
    using n(3,4) by (auto simp: CHMAC_SHA512_Write_all CHMAC_SHA512_Finalize_def fips_hmac_def k1_def k2_def k_def k0_def Let_def)
qed

end
