(* ===== verification/Sha1.thy ===== *)
theory Sha1
  imports Sha2
begin

text \<open>
  \<^verbatim>\<open>crypto/sha1.cpp\<close>: the unrolled block function, one definition per paragraph of sixteen
  \<^verbatim>\<open>Round\<close> lines, and the class \<^verbatim>\<open>CSHA1\<close>. The reference is SHA-1 of FIPS 180-4 as one step per round over
  a schedule of eighty words.
\<close>

section \<open>The reference: FIPS 180-4\<close>

type_synonym 'a regs5 = "'a \<times> 'a \<times> 'a \<times> 'a \<times> 'a"

definition fips_Parity :: "u32 \<Rightarrow> u32 \<Rightarrow> u32 \<Rightarrow> u32" where
  "fips_Parity x y z = x XOR y XOR z"

text \<open>The function and the constant of each of the eighty rounds.\<close>

definition fips_sha1_rounds :: "((u32 \<Rightarrow> u32 \<Rightarrow> u32 \<Rightarrow> u32) \<times> u32) list" where
  "fips_sha1_rounds =
     replicate 20 (fips_Ch, 0x5a827999) @ replicate 20 (fips_Parity, 0x6ed9eba1) @
     replicate 20 (fips_Maj, 0x8f1bbcdc) @ replicate 20 (fips_Parity, 0xca62c1d6)"

definition fips_sha1_step :: "(u32 \<Rightarrow> u32 \<Rightarrow> u32 \<Rightarrow> u32) \<times> u32 \<Rightarrow> u32 \<Rightarrow> u32 regs5 \<Rightarrow> u32 regs5" where
  "fips_sha1_step = (\<lambda>(f, K) W (a, b, c, d, e).
     (word_rotl 5 a + f b c d + e + K + W, a, word_rotl 30 b, c, d))"

primrec fips_sha1_schedule :: "nat \<Rightarrow> u32 list \<Rightarrow> u32 list" where
  "fips_sha1_schedule 0 W = W"
| "fips_sha1_schedule (Suc n) W = (let t = length W in
     fips_sha1_schedule n (W @ [word_rotl 1 (W ! (t - 3) XOR W ! (t - 8) XOR W ! (t - 14) XOR W ! (t - 16))]))"

definition fips_sha1_block :: "u32 list \<Rightarrow> bytes \<Rightarrow> u32 list" where
  "fips_sha1_block H B =
     (case fold (\<lambda>(k, w). fips_sha1_step k w)
             (zip fips_sha1_rounds (fips_sha1_schedule 64 (map (\<lambda>i. ReadBE32 (drop (4 * i) B)) [0..<16])))
             (H ! 0, H ! 1, H ! 2, H ! 3, H ! 4)
      of (a, b, c, d, e) \<Rightarrow> [H ! 0 + a, H ! 1 + b, H ! 2 + c, H ! 3 + d, H ! 4 + e])"

definition fips_sha1 :: "bytes \<Rightarrow> bytes" where
  "fips_sha1 m = concat (map WriteBE32
     (md_hash 64 fips_sha1_block [0x67452301, 0xefcdab89, 0x98badcfe, 0x10325476, 0xc3d2e1f0]
        (md_pad 64 (rev (wlist 8 (8 * length m))) m)))"

section \<open>The code\<close>

text \<open>\<^verbatim>\<open>Round\<close> updates its reference parameters \<^verbatim>\<open>b\<close> and \<^verbatim>\<open>e\<close>: they are the result.\<close>

definition sha1_Round :: "u32 \<Rightarrow> u32 \<Rightarrow> u32 \<Rightarrow> u32 \<Rightarrow> u32 \<Rightarrow> u32 \<Rightarrow> u32 \<Rightarrow> u32 \<Rightarrow> u32 \<times> u32" where
  "sha1_Round a b c d e f k w =
     (push_bit 30 b OR drop_bit 2 b, e + ((push_bit 5 a OR drop_bit 27 a) + f + k + w))"

definition sha1_f1 :: "u32 \<Rightarrow> u32 \<Rightarrow> u32 \<Rightarrow> u32" where
  "sha1_f1 b c d = d XOR (b AND (c XOR d))"

definition sha1_f2 :: "u32 \<Rightarrow> u32 \<Rightarrow> u32 \<Rightarrow> u32" where
  "sha1_f2 b c d = (b XOR c) XOR d"

definition sha1_f3 :: "u32 \<Rightarrow> u32 \<Rightarrow> u32 \<Rightarrow> u32" where
  "sha1_f3 b c d = (b AND c) OR (d AND (b OR c))"

definition sha1_left :: "u32 \<Rightarrow> u32" where
  "sha1_left x = push_bit 1 x OR drop_bit 31 x"

definition sha1_Initialize :: "u32 list" where
  "sha1_Initialize = [0x67452301, 0xEFCDAB89, 0x98BADCFE, 0x10325476, 0xC3D2E1F0]"

definition sha1_k1 :: u32 where
  "sha1_k1 = 0x5A827999"

definition sha1_k2 :: u32 where
  "sha1_k2 = 0x6ED9EBA1"

definition sha1_k3 :: u32 where
  "sha1_k3 = 0x8F1BBCDC"

definition sha1_k4 :: u32 where
  "sha1_k4 = 0xCA62C1D6"

definition sha1_rounds0 :: "bytes \<Rightarrow> u32 regs5 \<Rightarrow> u32 ws16 \<times> u32 regs5" where
  "sha1_rounds0 chunk = (\<lambda>(a, b, c, d, e). let
     w0 = ReadBE32 (drop 0 chunk); (b, e) = sha1_Round a b c d e (sha1_f1 b c d) sha1_k1 w0;
     w1 = ReadBE32 (drop 4 chunk); (a, d) = sha1_Round e a b c d (sha1_f1 a b c) sha1_k1 w1;
     w2 = ReadBE32 (drop 8 chunk); (e, c) = sha1_Round d e a b c (sha1_f1 e a b) sha1_k1 w2;
     w3 = ReadBE32 (drop 12 chunk); (d, b) = sha1_Round c d e a b (sha1_f1 d e a) sha1_k1 w3;
     w4 = ReadBE32 (drop 16 chunk); (c, a) = sha1_Round b c d e a (sha1_f1 c d e) sha1_k1 w4;
     w5 = ReadBE32 (drop 20 chunk); (b, e) = sha1_Round a b c d e (sha1_f1 b c d) sha1_k1 w5;
     w6 = ReadBE32 (drop 24 chunk); (a, d) = sha1_Round e a b c d (sha1_f1 a b c) sha1_k1 w6;
     w7 = ReadBE32 (drop 28 chunk); (e, c) = sha1_Round d e a b c (sha1_f1 e a b) sha1_k1 w7;
     w8 = ReadBE32 (drop 32 chunk); (d, b) = sha1_Round c d e a b (sha1_f1 d e a) sha1_k1 w8;
     w9 = ReadBE32 (drop 36 chunk); (c, a) = sha1_Round b c d e a (sha1_f1 c d e) sha1_k1 w9;
     w10 = ReadBE32 (drop 40 chunk); (b, e) = sha1_Round a b c d e (sha1_f1 b c d) sha1_k1 w10;
     w11 = ReadBE32 (drop 44 chunk); (a, d) = sha1_Round e a b c d (sha1_f1 a b c) sha1_k1 w11;
     w12 = ReadBE32 (drop 48 chunk); (e, c) = sha1_Round d e a b c (sha1_f1 e a b) sha1_k1 w12;
     w13 = ReadBE32 (drop 52 chunk); (d, b) = sha1_Round c d e a b (sha1_f1 d e a) sha1_k1 w13;
     w14 = ReadBE32 (drop 56 chunk); (c, a) = sha1_Round b c d e a (sha1_f1 c d e) sha1_k1 w14;
     w15 = ReadBE32 (drop 60 chunk); (b, e) = sha1_Round a b c d e (sha1_f1 b c d) sha1_k1 w15
     in ((w0, w1, w2, w3, w4, w5, w6, w7, w8, w9, w10, w11, w12, w13, w14, w15), (a, b, c, d, e)))"

definition sha1_rounds1 :: "u32 ws16 \<times> u32 regs5 \<Rightarrow> u32 ws16 \<times> u32 regs5" where
  "sha1_rounds1 = (\<lambda>((w0, w1, w2, w3, w4, w5, w6, w7, w8, w9, w10, w11, w12, w13, w14, w15), (a, b, c, d, e)). let
     w0 = sha1_left (((w0 XOR w13) XOR w8) XOR w2); (a, d) = sha1_Round e a b c d (sha1_f1 a b c) sha1_k1 w0;
     w1 = sha1_left (((w1 XOR w14) XOR w9) XOR w3); (e, c) = sha1_Round d e a b c (sha1_f1 e a b) sha1_k1 w1;
     w2 = sha1_left (((w2 XOR w15) XOR w10) XOR w4); (d, b) = sha1_Round c d e a b (sha1_f1 d e a) sha1_k1 w2;
     w3 = sha1_left (((w3 XOR w0) XOR w11) XOR w5); (c, a) = sha1_Round b c d e a (sha1_f1 c d e) sha1_k1 w3;
     w4 = sha1_left (((w4 XOR w1) XOR w12) XOR w6); (b, e) = sha1_Round a b c d e (sha1_f2 b c d) sha1_k2 w4;
     w5 = sha1_left (((w5 XOR w2) XOR w13) XOR w7); (a, d) = sha1_Round e a b c d (sha1_f2 a b c) sha1_k2 w5;
     w6 = sha1_left (((w6 XOR w3) XOR w14) XOR w8); (e, c) = sha1_Round d e a b c (sha1_f2 e a b) sha1_k2 w6;
     w7 = sha1_left (((w7 XOR w4) XOR w15) XOR w9); (d, b) = sha1_Round c d e a b (sha1_f2 d e a) sha1_k2 w7;
     w8 = sha1_left (((w8 XOR w5) XOR w0) XOR w10); (c, a) = sha1_Round b c d e a (sha1_f2 c d e) sha1_k2 w8;
     w9 = sha1_left (((w9 XOR w6) XOR w1) XOR w11); (b, e) = sha1_Round a b c d e (sha1_f2 b c d) sha1_k2 w9;
     w10 = sha1_left (((w10 XOR w7) XOR w2) XOR w12); (a, d) = sha1_Round e a b c d (sha1_f2 a b c) sha1_k2 w10;
     w11 = sha1_left (((w11 XOR w8) XOR w3) XOR w13); (e, c) = sha1_Round d e a b c (sha1_f2 e a b) sha1_k2 w11;
     w12 = sha1_left (((w12 XOR w9) XOR w4) XOR w14); (d, b) = sha1_Round c d e a b (sha1_f2 d e a) sha1_k2 w12;
     w13 = sha1_left (((w13 XOR w10) XOR w5) XOR w15); (c, a) = sha1_Round b c d e a (sha1_f2 c d e) sha1_k2 w13;
     w14 = sha1_left (((w14 XOR w11) XOR w6) XOR w0); (b, e) = sha1_Round a b c d e (sha1_f2 b c d) sha1_k2 w14;
     w15 = sha1_left (((w15 XOR w12) XOR w7) XOR w1); (a, d) = sha1_Round e a b c d (sha1_f2 a b c) sha1_k2 w15
     in ((w0, w1, w2, w3, w4, w5, w6, w7, w8, w9, w10, w11, w12, w13, w14, w15), (a, b, c, d, e)))"

definition sha1_rounds2 :: "u32 ws16 \<times> u32 regs5 \<Rightarrow> u32 ws16 \<times> u32 regs5" where
  "sha1_rounds2 = (\<lambda>((w0, w1, w2, w3, w4, w5, w6, w7, w8, w9, w10, w11, w12, w13, w14, w15), (a, b, c, d, e)). let
     w0 = sha1_left (((w0 XOR w13) XOR w8) XOR w2); (e, c) = sha1_Round d e a b c (sha1_f2 e a b) sha1_k2 w0;
     w1 = sha1_left (((w1 XOR w14) XOR w9) XOR w3); (d, b) = sha1_Round c d e a b (sha1_f2 d e a) sha1_k2 w1;
     w2 = sha1_left (((w2 XOR w15) XOR w10) XOR w4); (c, a) = sha1_Round b c d e a (sha1_f2 c d e) sha1_k2 w2;
     w3 = sha1_left (((w3 XOR w0) XOR w11) XOR w5); (b, e) = sha1_Round a b c d e (sha1_f2 b c d) sha1_k2 w3;
     w4 = sha1_left (((w4 XOR w1) XOR w12) XOR w6); (a, d) = sha1_Round e a b c d (sha1_f2 a b c) sha1_k2 w4;
     w5 = sha1_left (((w5 XOR w2) XOR w13) XOR w7); (e, c) = sha1_Round d e a b c (sha1_f2 e a b) sha1_k2 w5;
     w6 = sha1_left (((w6 XOR w3) XOR w14) XOR w8); (d, b) = sha1_Round c d e a b (sha1_f2 d e a) sha1_k2 w6;
     w7 = sha1_left (((w7 XOR w4) XOR w15) XOR w9); (c, a) = sha1_Round b c d e a (sha1_f2 c d e) sha1_k2 w7;
     w8 = sha1_left (((w8 XOR w5) XOR w0) XOR w10); (b, e) = sha1_Round a b c d e (sha1_f3 b c d) sha1_k3 w8;
     w9 = sha1_left (((w9 XOR w6) XOR w1) XOR w11); (a, d) = sha1_Round e a b c d (sha1_f3 a b c) sha1_k3 w9;
     w10 = sha1_left (((w10 XOR w7) XOR w2) XOR w12); (e, c) = sha1_Round d e a b c (sha1_f3 e a b) sha1_k3 w10;
     w11 = sha1_left (((w11 XOR w8) XOR w3) XOR w13); (d, b) = sha1_Round c d e a b (sha1_f3 d e a) sha1_k3 w11;
     w12 = sha1_left (((w12 XOR w9) XOR w4) XOR w14); (c, a) = sha1_Round b c d e a (sha1_f3 c d e) sha1_k3 w12;
     w13 = sha1_left (((w13 XOR w10) XOR w5) XOR w15); (b, e) = sha1_Round a b c d e (sha1_f3 b c d) sha1_k3 w13;
     w14 = sha1_left (((w14 XOR w11) XOR w6) XOR w0); (a, d) = sha1_Round e a b c d (sha1_f3 a b c) sha1_k3 w14;
     w15 = sha1_left (((w15 XOR w12) XOR w7) XOR w1); (e, c) = sha1_Round d e a b c (sha1_f3 e a b) sha1_k3 w15
     in ((w0, w1, w2, w3, w4, w5, w6, w7, w8, w9, w10, w11, w12, w13, w14, w15), (a, b, c, d, e)))"

definition sha1_rounds3 :: "u32 ws16 \<times> u32 regs5 \<Rightarrow> u32 ws16 \<times> u32 regs5" where
  "sha1_rounds3 = (\<lambda>((w0, w1, w2, w3, w4, w5, w6, w7, w8, w9, w10, w11, w12, w13, w14, w15), (a, b, c, d, e)). let
     w0 = sha1_left (((w0 XOR w13) XOR w8) XOR w2); (d, b) = sha1_Round c d e a b (sha1_f3 d e a) sha1_k3 w0;
     w1 = sha1_left (((w1 XOR w14) XOR w9) XOR w3); (c, a) = sha1_Round b c d e a (sha1_f3 c d e) sha1_k3 w1;
     w2 = sha1_left (((w2 XOR w15) XOR w10) XOR w4); (b, e) = sha1_Round a b c d e (sha1_f3 b c d) sha1_k3 w2;
     w3 = sha1_left (((w3 XOR w0) XOR w11) XOR w5); (a, d) = sha1_Round e a b c d (sha1_f3 a b c) sha1_k3 w3;
     w4 = sha1_left (((w4 XOR w1) XOR w12) XOR w6); (e, c) = sha1_Round d e a b c (sha1_f3 e a b) sha1_k3 w4;
     w5 = sha1_left (((w5 XOR w2) XOR w13) XOR w7); (d, b) = sha1_Round c d e a b (sha1_f3 d e a) sha1_k3 w5;
     w6 = sha1_left (((w6 XOR w3) XOR w14) XOR w8); (c, a) = sha1_Round b c d e a (sha1_f3 c d e) sha1_k3 w6;
     w7 = sha1_left (((w7 XOR w4) XOR w15) XOR w9); (b, e) = sha1_Round a b c d e (sha1_f3 b c d) sha1_k3 w7;
     w8 = sha1_left (((w8 XOR w5) XOR w0) XOR w10); (a, d) = sha1_Round e a b c d (sha1_f3 a b c) sha1_k3 w8;
     w9 = sha1_left (((w9 XOR w6) XOR w1) XOR w11); (e, c) = sha1_Round d e a b c (sha1_f3 e a b) sha1_k3 w9;
     w10 = sha1_left (((w10 XOR w7) XOR w2) XOR w12); (d, b) = sha1_Round c d e a b (sha1_f3 d e a) sha1_k3 w10;
     w11 = sha1_left (((w11 XOR w8) XOR w3) XOR w13); (c, a) = sha1_Round b c d e a (sha1_f3 c d e) sha1_k3 w11;
     w12 = sha1_left (((w12 XOR w9) XOR w4) XOR w14); (b, e) = sha1_Round a b c d e (sha1_f2 b c d) sha1_k4 w12;
     w13 = sha1_left (((w13 XOR w10) XOR w5) XOR w15); (a, d) = sha1_Round e a b c d (sha1_f2 a b c) sha1_k4 w13;
     w14 = sha1_left (((w14 XOR w11) XOR w6) XOR w0); (e, c) = sha1_Round d e a b c (sha1_f2 e a b) sha1_k4 w14;
     w15 = sha1_left (((w15 XOR w12) XOR w7) XOR w1); (d, b) = sha1_Round c d e a b (sha1_f2 d e a) sha1_k4 w15
     in ((w0, w1, w2, w3, w4, w5, w6, w7, w8, w9, w10, w11, w12, w13, w14, w15), (a, b, c, d, e)))"

definition sha1_rounds4 :: "u32 ws16 \<times> u32 regs5 \<Rightarrow> u32 regs5" where
  "sha1_rounds4 = (\<lambda>((w0, w1, w2, w3, w4, w5, w6, w7, w8, w9, w10, w11, w12, w13, w14, w15), (a, b, c, d, e)). let
     w0 = sha1_left (((w0 XOR w13) XOR w8) XOR w2); (c, a) = sha1_Round b c d e a (sha1_f2 c d e) sha1_k4 w0;
     w1 = sha1_left (((w1 XOR w14) XOR w9) XOR w3); (b, e) = sha1_Round a b c d e (sha1_f2 b c d) sha1_k4 w1;
     w2 = sha1_left (((w2 XOR w15) XOR w10) XOR w4); (a, d) = sha1_Round e a b c d (sha1_f2 a b c) sha1_k4 w2;
     w3 = sha1_left (((w3 XOR w0) XOR w11) XOR w5); (e, c) = sha1_Round d e a b c (sha1_f2 e a b) sha1_k4 w3;
     w4 = sha1_left (((w4 XOR w1) XOR w12) XOR w6); (d, b) = sha1_Round c d e a b (sha1_f2 d e a) sha1_k4 w4;
     w5 = sha1_left (((w5 XOR w2) XOR w13) XOR w7); (c, a) = sha1_Round b c d e a (sha1_f2 c d e) sha1_k4 w5;
     w6 = sha1_left (((w6 XOR w3) XOR w14) XOR w8); (b, e) = sha1_Round a b c d e (sha1_f2 b c d) sha1_k4 w6;
     w7 = sha1_left (((w7 XOR w4) XOR w15) XOR w9); (a, d) = sha1_Round e a b c d (sha1_f2 a b c) sha1_k4 w7;
     w8 = sha1_left (((w8 XOR w5) XOR w0) XOR w10); (e, c) = sha1_Round d e a b c (sha1_f2 e a b) sha1_k4 w8;
     w9 = sha1_left (((w9 XOR w6) XOR w1) XOR w11); (d, b) = sha1_Round c d e a b (sha1_f2 d e a) sha1_k4 w9;
     w10 = sha1_left (((w10 XOR w7) XOR w2) XOR w12); (c, a) = sha1_Round b c d e a (sha1_f2 c d e) sha1_k4 w10;
     w11 = sha1_left (((w11 XOR w8) XOR w3) XOR w13); (b, e) = sha1_Round a b c d e (sha1_f2 b c d) sha1_k4 w11;
     w12 = sha1_left (((w12 XOR w9) XOR w4) XOR w14); (a, d) = sha1_Round e a b c d (sha1_f2 a b c) sha1_k4 w12;
     (e, c) = sha1_Round d e a b c (sha1_f2 e a b) sha1_k4 (sha1_left (((w13 XOR w10) XOR w5) XOR w15));
     (d, b) = sha1_Round c d e a b (sha1_f2 d e a) sha1_k4 (sha1_left (((w14 XOR w11) XOR w6) XOR w0));
     (c, a) = sha1_Round b c d e a (sha1_f2 c d e) sha1_k4 (sha1_left (((w15 XOR w12) XOR w7) XOR w1))
     in (a, b, c, d, e))"

definition sha1_Transform :: "u32 list \<Rightarrow> bytes \<Rightarrow> u32 list" where
  "sha1_Transform s chunk =
     (let (a, b, c, d, e) = sha1_rounds4 (sha1_rounds3 (sha1_rounds2 (sha1_rounds1 (sha1_rounds0 chunk (s ! 0, s ! 1, s ! 2, s ! 3, s ! 4)))))
      in [s ! 0 + a, s ! 1 + b, s ! 2 + c, s ! 3 + d, s ! 4 + e])"

text \<open>The constructor leaves \<^verbatim>\<open>buf\<close> uninitialised: its content is an argument.\<close>

definition CSHA1 :: "bytes \<Rightarrow> u32 hasher" where
  "CSHA1 junk = \<lparr>hs_s = sha1_Initialize, hs_buf = junk, hs_bytes = 0\<rparr>"

function CSHA1_full_blocks :: "u32 hasher \<Rightarrow> bytes \<Rightarrow> u32 hasher \<times> bytes" where
  "CSHA1_full_blocks h data =
     (if 64 \<le> length data
      then CSHA1_full_blocks (h\<lparr>hs_s := sha1_Transform (hs_s h) (take 64 data), hs_bytes := hs_bytes h + 64\<rparr>) (drop 64 data)
      else (h, data))"
  by pat_completeness auto
termination by (relation "measure (\<lambda>(h, data). length data)") auto

declare CSHA1_full_blocks.simps [simp del]

definition CSHA1_Write :: "u32 hasher \<Rightarrow> bytes \<Rightarrow> u32 hasher option" where
  "CSHA1_Write h data =
     (let bufsize = unat (hs_bytes h) mod 64 in
      do {
        (h, data, bufsize) \<leftarrow>
          (if bufsize \<noteq> 0 \<and> 64 \<le> bufsize + length data
           then do {
             buf \<leftarrow> memcpy (hs_buf h) (int bufsize) data 0 (int (64 - bufsize));
             Some (h\<lparr>hs_s := sha1_Transform (hs_s h) buf, hs_buf := buf, hs_bytes := hs_bytes h + word_of_nat (64 - bufsize)\<rparr>,
                   drop (64 - bufsize) data, 0)
           }
           else Some (h, data, bufsize));
        let (h, data) = CSHA1_full_blocks h data;
        if data \<noteq> []
        then do {
          buf \<leftarrow> memcpy (hs_buf h) (int bufsize) data 0 (int (length data));
          Some (h\<lparr>hs_buf := buf, hs_bytes := hs_bytes h + word_of_nat (length data)\<rparr>)
        }
        else Some h
      })"

text \<open>\<^verbatim>\<open>Finalize\<close> writes the padding into the object itself, so the object is part of the result.\<close>

definition CSHA1_Finalize :: "u32 hasher \<Rightarrow> (u32 hasher \<times> bytes) option" where
  "CSHA1_Finalize h =
     (let pad = 0x80 # replicate 63 0;
          sizedesc = WriteBE64 (push_bit 3 (hs_bytes h))
      in do {
        p \<leftarrow> rd pad (1 + (119 - unat (hs_bytes h) mod 64) mod 64);
        h \<leftarrow> CSHA1_Write h p;
        h \<leftarrow> CSHA1_Write h sizedesc;
        Some (h, concat (map (\<lambda>i. WriteBE32 (hs_s h ! i)) [0..<5]))
      })"

definition CSHA1_Reset :: "u32 hasher \<Rightarrow> u32 hasher" where
  "CSHA1_Reset h = h\<lparr>hs_s := sha1_Initialize, hs_bytes := 0\<rparr>"

section \<open>SHA-1 computes the standard\<close>

lemma rotl_shifts: "0 < k \<Longrightarrow> k < LENGTH('a) \<Longrightarrow> push_bit k x OR drop_bit (LENGTH('a) - k) x = word_rotl k (x :: 'a::len word)"
  using rotr_shifts [of "LENGTH('a) - k" x]
  by (simp add: word_rotl_eq_word_rotr or.commute)

lemma sha1_functions: "sha1_f1 = fips_Ch" "sha1_f2 = fips_Parity" "sha1_f3 = fips_Maj"
  by (simp_all add: fun_eq_iff sha1_f1_def sha1_f2_def sha1_f3_def Ch_fips Maj_fips fips_Parity_def xor.assoc)

lemma sha1_left_rotl: "sha1_left x = word_rotl 1 x"
  unfolding sha1_left_def using rotl_shifts [of 1 x] by simp

text \<open>The schedule as a window of sixteen words that moves with the rounds.\<close>

definition sha1_next :: "u32 list \<Rightarrow> u32" where
  "sha1_next W = sha1_left (((W ! 0 XOR W ! 13) XOR W ! 8) XOR W ! 2)"

definition sha1_roll where
  "sha1_roll K = (\<lambda>(W, r). let w = sha1_next W in (tl W @ [w], fips_sha1_step K w r))"

primrec sha1_news :: "nat \<Rightarrow> u32 list \<Rightarrow> u32 list" where
  "sha1_news 0 W = []"
| "sha1_news (Suc n) W = (let w = sha1_next W in w # sha1_news n (tl W @ [w]))"

lemma sha1_schedule_news: "length W = 16 \<Longrightarrow> fips_sha1_schedule n (P @ W) = P @ W @ sha1_news n W"
proof (induction n arbitrary: P W)
  case (Suc n)
  obtain w V where W: "W = w # V" and V: "length V = 15" using Suc.prems by (cases W) auto
  have nx: "word_rotl 1 ((P @ W) ! (length (P @ W) - 3) XOR (P @ W) ! (length (P @ W) - 8) XOR
      (P @ W) ! (length (P @ W) - 14) XOR (P @ W) ! (length (P @ W) - 16)) = sha1_next W"
    using Suc.prems by (simp add: sha1_next_def sha1_left_rotl nth_append ac_simps)
  have "fips_sha1_schedule (Suc n) (P @ W) = fips_sha1_schedule n ((P @ [w]) @ (V @ [sha1_next W]))"
    unfolding fips_sha1_schedule.simps Let_def nx by (simp add: W)
  also have "\<dots> = (P @ [w]) @ (V @ [sha1_next W]) @ sha1_news n (V @ [sha1_next W])"
    by (rule Suc.IH) (simp add: V)
  finally show ?case by (simp add: W Let_def)
qed simp

lemma fold_sha1_roll:
  "snd (fold sha1_roll ks (W, r)) = fold (\<lambda>(k, w). fips_sha1_step k w) (zip ks (sha1_news (length ks) W)) r"
  by (induction ks arbitrary: W r) (simp_all add: sha1_roll_def Let_def)

lemma length_fold_sha1_roll: "length W = 16 \<Longrightarrow> length (fst (fold sha1_roll ks (W, r))) = 16"
  by (induction ks arbitrary: W r) (simp_all add: sha1_roll_def Let_def)

lemma sha1_rot: "push_bit 5 a OR drop_bit 27 a = word_rotl 5 (a :: u32)" "push_bit 30 b OR drop_bit 2 b = word_rotl 30 (b :: u32)"
  by (simp_all flip: rotl_shifts)

lemma sha1_step_Round:
  "fips_sha1_step (f, k) w (a, b, c, d, e) =
     (case sha1_Round a b c d e (f b c d) k w of (b', e') \<Rightarrow> (e', a, b', c, d))"
  unfolding sha1_Round_def sha1_rot by (simp add: fips_sha1_step_def ac_simps)

lemma sha1_step_Cons:
  "fold (\<lambda>(k, w). fips_sha1_step k w) (((f, k), w) # xs) (a, b, c, d, e) =
     (case sha1_Round a b c d e (f b c d) k w of (b', e') \<Rightarrow>
        fold (\<lambda>(k, w). fips_sha1_step k w) xs (e', a, b', c, d))"
  by (simp add: sha1_step_Round split: prod.split)

lemma sha1_roll_Cons:
  "fold sha1_roll ((f, k) # ks) ([x0, x1, x2, x3, x4, x5, x6, x7, x8, x9, x10, x11, x12, x13, x14, x15], (a, b, c, d, e)) =
     (let w = sha1_left (((x0 XOR x13) XOR x8) XOR x2) in
      case sha1_Round a b c d e (f b c d) k w of (b', e') \<Rightarrow>
        fold sha1_roll ks ([x1, x2, x3, x4, x5, x6, x7, x8, x9, x10, x11, x12, x13, x14, x15, w], (e', a, b', c, d)))"
  by (simp only: fold_simps) (simp add: sha1_roll_def sha1_next_def sha1_step_Round Let_def split: prod.split)

text \<open>The last three lines of the source do not store the schedule word.\<close>

lemma sha1_roll_last:
  "snd (fold sha1_roll [(f, k), (f', k'), (f'', k'')] ([x0, x1, x2, x3, x4, x5, x6, x7, x8, x9, x10, x11, x12, x13, x14, x15], (a, b, c, d, e))) =
     (case sha1_Round a b c d e (f b c d) k (sha1_left (((x0 XOR x13) XOR x8) XOR x2)) of (b, e) \<Rightarrow>
      case sha1_Round e a b c d (f' a b c) k' (sha1_left (((x1 XOR x14) XOR x9) XOR x3)) of (a, d) \<Rightarrow>
      case sha1_Round d e a b c (f'' e a b) k'' (sha1_left (((x2 XOR x15) XOR x10) XOR x4)) of (e, c) \<Rightarrow>
        (c, d, e, a, b))"
  by (simp only: sha1_roll_Cons fold_simps(1)) (simp add: Let_def split: prod.split)

lemma sha1_roll_more:
  "fold sha1_roll ((f, k) # k' # k'' # j # ks) ([x0, x1, x2, x3, x4, x5, x6, x7, x8, x9, x10, x11, x12, x13, x14, x15], (a, b, c, d, e)) =
     (let w = sha1_left (((x0 XOR x13) XOR x8) XOR x2) in
      case sha1_Round a b c d e (f b c d) k w of (b', e') \<Rightarrow>
        fold sha1_roll (k' # k'' # j # ks) ([x1, x2, x3, x4, x5, x6, x7, x8, x9, x10, x11, x12, x13, x14, x15, w], (e', a, b', c, d)))"
  by (rule sha1_roll_Cons)

lemma fips_sha1_rounds_code: "fips_sha1_rounds =
  [(sha1_f1, sha1_k1), (sha1_f1, sha1_k1), (sha1_f1, sha1_k1), (sha1_f1, sha1_k1), (sha1_f1, sha1_k1), (sha1_f1, sha1_k1), (sha1_f1, sha1_k1), (sha1_f1, sha1_k1), (sha1_f1, sha1_k1), (sha1_f1, sha1_k1), (sha1_f1, sha1_k1), (sha1_f1, sha1_k1), (sha1_f1, sha1_k1), (sha1_f1, sha1_k1), (sha1_f1, sha1_k1), (sha1_f1, sha1_k1), (sha1_f1, sha1_k1), (sha1_f1, sha1_k1), (sha1_f1, sha1_k1), (sha1_f1, sha1_k1), (sha1_f2, sha1_k2), (sha1_f2, sha1_k2), (sha1_f2, sha1_k2), (sha1_f2, sha1_k2), (sha1_f2, sha1_k2), (sha1_f2, sha1_k2), (sha1_f2, sha1_k2), (sha1_f2, sha1_k2), (sha1_f2, sha1_k2), (sha1_f2, sha1_k2), (sha1_f2, sha1_k2), (sha1_f2, sha1_k2), (sha1_f2, sha1_k2), (sha1_f2, sha1_k2), (sha1_f2, sha1_k2), (sha1_f2, sha1_k2), (sha1_f2, sha1_k2), (sha1_f2, sha1_k2), (sha1_f2, sha1_k2), (sha1_f2, sha1_k2), (sha1_f3, sha1_k3), (sha1_f3, sha1_k3), (sha1_f3, sha1_k3), (sha1_f3, sha1_k3), (sha1_f3, sha1_k3), (sha1_f3, sha1_k3), (sha1_f3, sha1_k3), (sha1_f3, sha1_k3), (sha1_f3, sha1_k3), (sha1_f3, sha1_k3), (sha1_f3, sha1_k3), (sha1_f3, sha1_k3), (sha1_f3, sha1_k3), (sha1_f3, sha1_k3), (sha1_f3, sha1_k3), (sha1_f3, sha1_k3), (sha1_f3, sha1_k3), (sha1_f3, sha1_k3), (sha1_f3, sha1_k3), (sha1_f3, sha1_k3), (sha1_f2, sha1_k4), (sha1_f2, sha1_k4), (sha1_f2, sha1_k4), (sha1_f2, sha1_k4), (sha1_f2, sha1_k4), (sha1_f2, sha1_k4), (sha1_f2, sha1_k4), (sha1_f2, sha1_k4), (sha1_f2, sha1_k4), (sha1_f2, sha1_k4), (sha1_f2, sha1_k4), (sha1_f2, sha1_k4), (sha1_f2, sha1_k4), (sha1_f2, sha1_k4), (sha1_f2, sha1_k4), (sha1_f2, sha1_k4), (sha1_f2, sha1_k4), (sha1_f2, sha1_k4), (sha1_f2, sha1_k4), (sha1_f2, sha1_k4)]"
  by (simp add: fips_sha1_rounds_def sha1_functions sha1_k1_def sha1_k2_def sha1_k3_def sha1_k4_def numeral_eq_Suc)

text \<open>
  The variable that plays the part of the first register moves by one in each paragraph, since
  sixteen rounds rotate five registers by one place.
\<close>

lemma sha1_rounds0_fips:
  "sha1_rounds0 chunk (a, b, c, d, e) =
     (let M = map (\<lambda>i. ReadBE32 (drop (4 * i) chunk)) [0..<16] in
      (ws16_of M, case fold (\<lambda>(k, w). fips_sha1_step k w) (zip (take 16 fips_sha1_rounds) M) (a, b, c, d, e) of (e, a, b, c, d) \<Rightarrow> (a, b, c, d, e)))"
proof -
  have M: "map (\<lambda>i. ReadBE32 (drop (4 * i) chunk)) [0..<16] =
    [ReadBE32 (drop 0 chunk), ReadBE32 (drop 4 chunk), ReadBE32 (drop 8 chunk), ReadBE32 (drop 12 chunk), ReadBE32 (drop 16 chunk), ReadBE32 (drop 20 chunk), ReadBE32 (drop 24 chunk), ReadBE32 (drop 28 chunk), ReadBE32 (drop 32 chunk), ReadBE32 (drop 36 chunk), ReadBE32 (drop 40 chunk), ReadBE32 (drop 44 chunk), ReadBE32 (drop 48 chunk), ReadBE32 (drop 52 chunk), ReadBE32 (drop 56 chunk), ReadBE32 (drop 60 chunk)]"
    by (simp add: upt_rec)
  have K: "take 16 fips_sha1_rounds = [(sha1_f1, sha1_k1), (sha1_f1, sha1_k1), (sha1_f1, sha1_k1), (sha1_f1, sha1_k1), (sha1_f1, sha1_k1), (sha1_f1, sha1_k1), (sha1_f1, sha1_k1), (sha1_f1, sha1_k1), (sha1_f1, sha1_k1), (sha1_f1, sha1_k1), (sha1_f1, sha1_k1), (sha1_f1, sha1_k1), (sha1_f1, sha1_k1), (sha1_f1, sha1_k1), (sha1_f1, sha1_k1), (sha1_f1, sha1_k1)]"
    by (simp add: fips_sha1_rounds_code)
  show ?thesis unfolding sha1_rounds0_def Let_case_prod M K
    by (simp only: Let_def zip_Cons_Cons zip.simps list.case prod.case ws16_of_list sha1_step_Cons fold_simps(1) Pair_case_prod case_prod_case_prod
        cong del: prod.case_cong_weak)
qed

lemma sha1_rounds1_fips:
  "sha1_rounds1 ((x0, x1, x2, x3, x4, x5, x6, x7, x8, x9, x10, x11, x12, x13, x14, x15), (a, b, c, d, e)) =
     (case fold sha1_roll (take 16 (drop 16 fips_sha1_rounds)) ([x0, x1, x2, x3, x4, x5, x6, x7, x8, x9, x10, x11, x12, x13, x14, x15], (e, a, b, c, d)) of (W, (d, e, a, b, c)) \<Rightarrow> (ws16_of W, (a, b, c, d, e)))"
proof -
  have K: "take 16 (drop 16 fips_sha1_rounds) = [(sha1_f1, sha1_k1), (sha1_f1, sha1_k1), (sha1_f1, sha1_k1), (sha1_f1, sha1_k1), (sha1_f2, sha1_k2), (sha1_f2, sha1_k2), (sha1_f2, sha1_k2), (sha1_f2, sha1_k2), (sha1_f2, sha1_k2), (sha1_f2, sha1_k2), (sha1_f2, sha1_k2), (sha1_f2, sha1_k2), (sha1_f2, sha1_k2), (sha1_f2, sha1_k2), (sha1_f2, sha1_k2), (sha1_f2, sha1_k2)]"
    by (simp add: fips_sha1_rounds_code)
  show ?thesis unfolding sha1_rounds1_def K
  by (simp only: Let_case_prod prod.case sha1_roll_Cons fold_simps(1) case_prod_Let case_prod_case_prod ws16_of_list
      cong del: prod.case_cong_weak)
qed

lemma sha1_rounds2_fips:
  "sha1_rounds2 ((x0, x1, x2, x3, x4, x5, x6, x7, x8, x9, x10, x11, x12, x13, x14, x15), (a, b, c, d, e)) =
     (case fold sha1_roll (take 16 (drop 32 fips_sha1_rounds)) ([x0, x1, x2, x3, x4, x5, x6, x7, x8, x9, x10, x11, x12, x13, x14, x15], (d, e, a, b, c)) of (W, (c, d, e, a, b)) \<Rightarrow> (ws16_of W, (a, b, c, d, e)))"
proof -
  have K: "take 16 (drop 32 fips_sha1_rounds) = [(sha1_f2, sha1_k2), (sha1_f2, sha1_k2), (sha1_f2, sha1_k2), (sha1_f2, sha1_k2), (sha1_f2, sha1_k2), (sha1_f2, sha1_k2), (sha1_f2, sha1_k2), (sha1_f2, sha1_k2), (sha1_f3, sha1_k3), (sha1_f3, sha1_k3), (sha1_f3, sha1_k3), (sha1_f3, sha1_k3), (sha1_f3, sha1_k3), (sha1_f3, sha1_k3), (sha1_f3, sha1_k3), (sha1_f3, sha1_k3)]"
    by (simp add: fips_sha1_rounds_code)
  show ?thesis unfolding sha1_rounds2_def K
  by (simp only: Let_case_prod prod.case sha1_roll_Cons fold_simps(1) case_prod_Let case_prod_case_prod ws16_of_list
      cong del: prod.case_cong_weak)
qed

lemma sha1_rounds3_fips:
  "sha1_rounds3 ((x0, x1, x2, x3, x4, x5, x6, x7, x8, x9, x10, x11, x12, x13, x14, x15), (a, b, c, d, e)) =
     (case fold sha1_roll (take 16 (drop 48 fips_sha1_rounds)) ([x0, x1, x2, x3, x4, x5, x6, x7, x8, x9, x10, x11, x12, x13, x14, x15], (c, d, e, a, b)) of (W, (b, c, d, e, a)) \<Rightarrow> (ws16_of W, (a, b, c, d, e)))"
proof -
  have K: "take 16 (drop 48 fips_sha1_rounds) = [(sha1_f3, sha1_k3), (sha1_f3, sha1_k3), (sha1_f3, sha1_k3), (sha1_f3, sha1_k3), (sha1_f3, sha1_k3), (sha1_f3, sha1_k3), (sha1_f3, sha1_k3), (sha1_f3, sha1_k3), (sha1_f3, sha1_k3), (sha1_f3, sha1_k3), (sha1_f3, sha1_k3), (sha1_f3, sha1_k3), (sha1_f2, sha1_k4), (sha1_f2, sha1_k4), (sha1_f2, sha1_k4), (sha1_f2, sha1_k4)]"
    by (simp add: fips_sha1_rounds_code)
  show ?thesis unfolding sha1_rounds3_def K
  by (simp only: Let_case_prod prod.case sha1_roll_Cons fold_simps(1) case_prod_Let case_prod_case_prod ws16_of_list
      cong del: prod.case_cong_weak)
qed

lemma sha1_rounds4_fips:
  "sha1_rounds4 ((x0, x1, x2, x3, x4, x5, x6, x7, x8, x9, x10, x11, x12, x13, x14, x15), (a, b, c, d, e)) =
     (case snd (fold sha1_roll (take 16 (drop 64 fips_sha1_rounds)) ([x0, x1, x2, x3, x4, x5, x6, x7, x8, x9, x10, x11, x12, x13, x14, x15], (b, c, d, e, a))) of (a, b, c, d, e) \<Rightarrow> (a, b, c, d, e))"
proof -
  have K: "take 16 (drop 64 fips_sha1_rounds) = [(sha1_f2, sha1_k4), (sha1_f2, sha1_k4), (sha1_f2, sha1_k4), (sha1_f2, sha1_k4), (sha1_f2, sha1_k4), (sha1_f2, sha1_k4), (sha1_f2, sha1_k4), (sha1_f2, sha1_k4), (sha1_f2, sha1_k4), (sha1_f2, sha1_k4), (sha1_f2, sha1_k4), (sha1_f2, sha1_k4), (sha1_f2, sha1_k4), (sha1_f2, sha1_k4), (sha1_f2, sha1_k4), (sha1_f2, sha1_k4)]"
    by (simp add: fips_sha1_rounds_code)
  show ?thesis unfolding sha1_rounds4_def K
  by (simp only: Let_case_prod prod.case sha1_roll_more sha1_roll_last snd_Let snd_case_prod case_prod_Let case_prod_case_prod ws16_of_list
      cong del: prod.case_cong_weak)
qed

lemma sha1_rounds1_roll:
  "length W = 16 \<Longrightarrow> sha1_rounds1 (ws16_of W, (a, b, c, d, e)) =
     (case fold sha1_roll (take 16 (drop 16 fips_sha1_rounds)) (W, (e, a, b, c, d)) of (W, (d, e, a, b, c)) \<Rightarrow> (ws16_of W, (a, b, c, d, e)))"
  by (drule list16_ex) (auto simp only: ws16_of_list sha1_rounds1_fips)

lemma sha1_rounds2_roll:
  "length W = 16 \<Longrightarrow> sha1_rounds2 (ws16_of W, (a, b, c, d, e)) =
     (case fold sha1_roll (take 16 (drop 32 fips_sha1_rounds)) (W, (d, e, a, b, c)) of (W, (c, d, e, a, b)) \<Rightarrow> (ws16_of W, (a, b, c, d, e)))"
  by (drule list16_ex) (auto simp only: ws16_of_list sha1_rounds2_fips)

lemma sha1_rounds3_roll:
  "length W = 16 \<Longrightarrow> sha1_rounds3 (ws16_of W, (a, b, c, d, e)) =
     (case fold sha1_roll (take 16 (drop 48 fips_sha1_rounds)) (W, (c, d, e, a, b)) of (W, (b, c, d, e, a)) \<Rightarrow> (ws16_of W, (a, b, c, d, e)))"
  by (drule list16_ex) (auto simp only: ws16_of_list sha1_rounds3_fips)

lemma sha1_rounds4_roll:
  "length W = 16 \<Longrightarrow> sha1_rounds4 (ws16_of W, (a, b, c, d, e)) =
     (case snd (fold sha1_roll (take 16 (drop 64 fips_sha1_rounds)) (W, (b, c, d, e, a))) of (a, b, c, d, e) \<Rightarrow> (a, b, c, d, e))"
  by (drule list16_ex) (auto simp only: ws16_of_list sha1_rounds4_fips)

lemma fips_sha1_rounds_split: "fips_sha1_rounds = take 16 fips_sha1_rounds @ take 16 (drop 16 fips_sha1_rounds) @ take 16 (drop 32 fips_sha1_rounds) @ take 16 (drop 48 fips_sha1_rounds) @ take 16 (drop 64 fips_sha1_rounds)"
  by (simp add: fips_sha1_rounds_code)

theorem sha1_Transform_fips: "sha1_Transform s chunk = fips_sha1_block s chunk"
proof -
  define M where "M = map (\<lambda>i. ReadBE32 (drop (4 * i) chunk)) [0..<16]"
  have lM: "length M = 16" by (simp add: M_def)
  have lK: "length (take 16 fips_sha1_rounds) = 16" by (simp add: fips_sha1_rounds_def)
  obtain e0 a0 b0 c0 d0 where r0: "fold (\<lambda>(k, w). fips_sha1_step k w) (zip (take 16 fips_sha1_rounds) M) (s ! 0, s ! 1, s ! 2, s ! 3, s ! 4) = (e0, a0, b0, c0, d0)"
    by (rule prod_cases5)
  have 0: "sha1_rounds0 chunk (s ! 0, s ! 1, s ! 2, s ! 3, s ! 4) = (ws16_of M, (a0, b0, c0, d0, e0))"
    by (simp only: sha1_rounds0_fips Let_def M_def [symmetric] r0 prod.case)
  obtain W1 d1 e1 a1 b1 c1 where f1: "fold sha1_roll (take 16 (drop 16 fips_sha1_rounds)) (M, (e0, a0, b0, c0, d0)) = (W1, (d1, e1, a1, b1, c1))"
    by (rule prod_cases6)
  have 1: "sha1_rounds1 (ws16_of M, (a0, b0, c0, d0, e0)) = (ws16_of W1, (a1, b1, c1, d1, e1))"
    using f1 by (simp add: sha1_rounds1_roll [OF lM])
  have l1: "length W1 = 16" using length_fold_sha1_roll [OF lM, of "take 16 (drop 16 fips_sha1_rounds)" "(e0, a0, b0, c0, d0)"] f1 by simp
  obtain W2 c2 d2 e2 a2 b2 where f2: "fold sha1_roll (take 16 (drop 32 fips_sha1_rounds)) (W1, (d1, e1, a1, b1, c1)) = (W2, (c2, d2, e2, a2, b2))"
    by (rule prod_cases6)
  have 2: "sha1_rounds2 (ws16_of W1, (a1, b1, c1, d1, e1)) = (ws16_of W2, (a2, b2, c2, d2, e2))"
    using f2 by (simp add: sha1_rounds2_roll [OF l1])
  have l2: "length W2 = 16" using length_fold_sha1_roll [OF l1, of "take 16 (drop 32 fips_sha1_rounds)" "(d1, e1, a1, b1, c1)"] f2 by simp
  obtain W3 b3 c3 d3 e3 a3 where f3: "fold sha1_roll (take 16 (drop 48 fips_sha1_rounds)) (W2, (c2, d2, e2, a2, b2)) = (W3, (b3, c3, d3, e3, a3))"
    by (rule prod_cases6)
  have 3: "sha1_rounds3 (ws16_of W2, (a2, b2, c2, d2, e2)) = (ws16_of W3, (a3, b3, c3, d3, e3))"
    using f3 by (simp add: sha1_rounds3_roll [OF l2])
  have l3: "length W3 = 16" using length_fold_sha1_roll [OF l2, of "take 16 (drop 48 fips_sha1_rounds)" "(c2, d2, e2, a2, b2)"] f3 by simp
  have lz: "length fips_sha1_rounds = 80" by (simp add: fips_sha1_rounds_def)
  have sch: "fips_sha1_schedule 64 M = M @ sha1_news 64 M" using sha1_schedule_news [OF lM, of 64 "[]"] by simp
  have "fold (\<lambda>(k, w). fips_sha1_step k w) (zip fips_sha1_rounds (fips_sha1_schedule 64 M)) (s ! 0, s ! 1, s ! 2, s ! 3, s ! 4) =
    snd (fold sha1_roll (take 16 (drop 16 fips_sha1_rounds) @ take 16 (drop 32 fips_sha1_rounds) @ take 16 (drop 48 fips_sha1_rounds) @ take 16 (drop 64 fips_sha1_rounds)) (M, (e0, a0, b0, c0, d0)))"
    unfolding fold_sha1_roll by (subst fips_sha1_rounds_split) (simp add: sch zip_append [of "take 16 _"] lM lz r0 [simplified])
  also have "\<dots> = snd (fold sha1_roll (take 16 (drop 64 fips_sha1_rounds)) (W3, (b3, c3, d3, e3, a3)))"
    by (simp add: f1 f2 f3)
  finally show ?thesis
    unfolding sha1_Transform_def fips_sha1_block_def M_def [symmetric]
    by (simp add: 0 [simplified] 1 2 3 sha1_rounds4_roll [OF l3] Let_def split: prod.split)
qed

lemma CSHA1_full_blocks_simps:
  "length d < 64 \<Longrightarrow> CSHA1_full_blocks h d = (h, d)"
  "length b = 64 \<Longrightarrow> CSHA1_full_blocks h (b @ d) =
     CSHA1_full_blocks (h\<lparr>hs_s := sha1_Transform (hs_s h) b, hs_bytes := hs_bytes h + word_of_nat 64\<rparr>) d"
  by (subst CSHA1_full_blocks.simps; simp)+

interpretation sha1: block_hasher 64 sha1_Transform CSHA1_full_blocks CSHA1_Write
proof
  fix h :: "u32 hasher" and d :: bytes
  assume "unat (hs_bytes h) mod 64 = 0 \<or> unat (hs_bytes h) mod 64 + length d < 64"
  moreover obtain h1 d1 where "CSHA1_full_blocks h d = (h1, d1)" by (rule prod.exhaust)
  moreover have "unat (hs_bytes h1) mod 64 = unat (hs_bytes h) mod 64"
    if "CSHA1_full_blocks h d = (h1, d1)" for h1 d1 using that
  proof (induction h d arbitrary: h1 d1 rule: CSHA1_full_blocks.induct)
    case (1 h d)
    have z: "unat (hs_bytes h + 64) mod 64 = unat (hs_bytes h) mod 64"
      using unat_add_mod [of 64 "hs_bytes h" 64] by simp
    show ?case
    proof (cases "64 \<le> length d")
      case True
      then show ?thesis
        using "1.IH" [OF True, of h1 d1] "1.prems" z by (simp add: CSHA1_full_blocks.simps [of h d])
    next
      case False
      then show ?thesis using "1.prems" by (simp add: CSHA1_full_blocks.simps [of h d])
    qed
  qed
  ultimately show "CSHA1_Write h d = (case CSHA1_full_blocks h d of (h, d) \<Rightarrow>
        if d = [] then Some h
        else do { buf \<leftarrow> memcpy (hs_buf h) (int (unat (hs_bytes h) mod 64)) d 0 (int (length d));
                  Some (h\<lparr>hs_buf := buf, hs_bytes := hs_bytes h + word_of_nat (length d)\<rparr>) })"
    by (auto simp: CSHA1_Write_def Let_def)
next
  fix h :: "u32 hasher" and d :: bytes and k
  assume k: "unat (hs_bytes h) mod 64 = k" "k \<noteq> 0" "64 \<le> k + length d" "length (hs_buf h) = 64"
  have "k < 64" using k(1) by auto
  show "\<exists>buf. memcpy (hs_buf h) (int k) d 0 (int (64 - k)) = Some buf \<and>
        CSHA1_Write h d = CSHA1_Write (h\<lparr>hs_s := sha1_Transform (hs_s h) buf, hs_buf := buf, hs_bytes := hs_bytes h + word_of_nat (64 - k)\<rparr>) (drop (64 - k) d)"
    using k unat_add_mod [of 64 "hs_bytes h" "64 - k"] \<open>k < 64\<close>
    by (simp add: CSHA1_Write_def [of h] CSHA1_Write_def [of "_\<lparr>hs_bytes := _\<rparr>"] memcpy_def mod_add_left_eq [symmetric, of "unat _"] Let_def)
qed (simp_all add: CSHA1_full_blocks_simps)

lemma length_sha1: "length (sha1_Transform s b) = 5" "length sha1_Initialize = 5"
  by (simp_all add: sha1_Transform_def sha1_Initialize_def split: prod.split)

lemma CSHA1_represents: "length junk = 64 \<Longrightarrow> represents 64 sha1_Transform sha1_Initialize (CSHA1 junk) []"
  unfolding CSHA1_def by (rule sha1.represents_init)

lemma CSHA1_Finalize_fips:
  assumes "represents 64 sha1_Transform sha1_Initialize h m"
  obtains h' where "CSHA1_Finalize h = Some (h', fips_sha1 m)" "length (hs_buf h') = 64"
proof -
  let ?lf = "rev (wlist 8 (8 * length m))"
  have c: "hs_bytes h = word_of_nat (length m)" using assms(1) by (rule sha1.represents_count)
  have lf: "WriteBE64 (push_bit 3 (hs_bytes h)) = ?lf"
    unfolding c by (rule WriteBE64_bits)
  define n where "n = 1 + (119 - unat (hs_bytes h) mod 64) mod 64"
  obtain h1 h2 where w: "rd (0x80 # replicate (64 - 1) 0) n = Some (take n (0x80 # replicate (64 - 1) 0))"
      "CSHA1_Write h (take n (0x80 # replicate (64 - 1) 0)) = Some h1" "CSHA1_Write h1 ?lf = Some h2"
      "hs_s h2 = md_hash 64 sha1_Transform sha1_Initialize (md_pad 64 ?lf m)" "length (hs_buf h2) = 64"
    by (rule sha1.Write_padding [OF assms(1), of n ?lf]) (auto simp: n_def)
  have tr: "sha1_Transform = fips_sha1_block" by (intro ext) (rule sha1_Transform_fips)
  have l5: "length (hs_s h2) = 5"
    unfolding w(4) md_hash_def by (rule length_foldl_const) (simp_all add: length_sha1)
  have f: "fips_sha1 m = concat (map WriteBE32 (hs_s h2))"
    unfolding w(4) fips_sha1_def sha1_Initialize_def tr by simp
  have "CSHA1_Finalize h = Some (h2, fips_sha1 m)"
    using w(1-3) unfolding CSHA1_Finalize_def f lf n_def [symmetric] Let_def by (simp add: concat_map_nth [OF l5])
  then show ?thesis using w(5) by (rule that)
qed

interpretation sha1d: stream_digest "represents 64 sha1_Transform sha1_Initialize" CSHA1_Write CSHA1_Finalize fips_sha1 "\<lambda>m. True"
proof
  fix h :: "u32 hasher" and m d :: bytes
  assume r: "represents 64 sha1_Transform sha1_Initialize h m"
  show "\<exists>h'. CSHA1_Write h d = Some h' \<and> represents 64 sha1_Transform sha1_Initialize h' (m @ d)"
    by (rule sha1.Write_represents [OF r, of d]) blast
next
  fix h :: "u32 hasher" and m :: bytes
  assume r: "represents 64 sha1_Transform sha1_Initialize h m"
  show "\<exists>h'. CSHA1_Finalize h = Some (h', fips_sha1 m)"
    by (rule CSHA1_Finalize_fips [OF r]) blast
qed

lemma length_fips_sha1: "length (fips_sha1 m) = 20"
proof -
  have "length (md_hash 64 fips_sha1_block s0 p) = 5" if "length s0 = 5" for s0 p
    unfolding md_hash_def using that
    by (intro length_foldl_const) (simp_all add: fips_sha1_block_def split: prod.split)
  then show ?thesis by (simp add: fips_sha1_def length_concat comp_def sum_list_triv)
qed

end
