(* ===== verification/Ripemd160.thy ===== *)
theory Ripemd160
  imports Sha1
begin

text \<open>
  \<^verbatim>\<open>crypto/ripemd160.cpp\<close>: the block function, one definition per paragraph of the source in which
  the left and the right line of the algorithm alternate, and the class \<^verbatim>\<open>CRIPEMD160\<close>. The reference is the
  description of RIPEMD-160 by its tables: two independent lines of eighty steps.
\<close>

section \<open>The reference: tables of message words and rotations\<close>

definition rmd_r_left :: "nat list list" where
  "rmd_r_left = [
     [0, 1, 2, 3, 4, 5, 6, 7, 8, 9, 10, 11, 12, 13, 14, 15],
     [7, 4, 13, 1, 10, 6, 15, 3, 12, 0, 9, 5, 2, 14, 11, 8],
     [3, 10, 14, 4, 9, 15, 8, 1, 2, 7, 0, 6, 13, 11, 5, 12],
     [1, 9, 11, 10, 0, 8, 12, 4, 13, 3, 7, 15, 14, 5, 6, 2],
     [4, 0, 5, 9, 7, 12, 2, 10, 14, 1, 3, 8, 11, 6, 15, 13]]"

definition rmd_s_left :: "nat list list" where
  "rmd_s_left = [
     [11, 14, 15, 12, 5, 8, 7, 9, 11, 13, 14, 15, 6, 7, 9, 8],
     [7, 6, 8, 13, 11, 9, 7, 15, 7, 12, 15, 9, 11, 7, 13, 12],
     [11, 13, 6, 7, 14, 9, 13, 15, 14, 8, 13, 6, 5, 12, 7, 5],
     [11, 12, 14, 15, 14, 15, 9, 8, 9, 14, 5, 6, 8, 6, 5, 12],
     [9, 15, 5, 11, 6, 8, 13, 12, 5, 12, 13, 14, 11, 8, 5, 6]]"

definition rmd_r_right :: "nat list list" where
  "rmd_r_right = [
     [5, 14, 7, 0, 9, 2, 11, 4, 13, 6, 15, 8, 1, 10, 3, 12],
     [6, 11, 3, 7, 0, 13, 5, 10, 14, 15, 8, 12, 4, 9, 1, 2],
     [15, 5, 1, 3, 7, 14, 6, 9, 11, 8, 12, 2, 10, 0, 4, 13],
     [8, 6, 4, 1, 3, 11, 15, 0, 5, 12, 2, 13, 9, 7, 10, 14],
     [12, 15, 10, 4, 1, 5, 8, 7, 6, 2, 13, 14, 0, 3, 9, 11]]"

definition rmd_s_right :: "nat list list" where
  "rmd_s_right = [
     [8, 9, 9, 11, 13, 15, 15, 5, 7, 7, 8, 11, 14, 14, 12, 6],
     [9, 13, 15, 7, 12, 8, 9, 11, 7, 7, 12, 7, 6, 15, 13, 11],
     [9, 7, 15, 11, 8, 6, 6, 14, 12, 13, 5, 14, 13, 13, 7, 5],
     [15, 5, 8, 11, 14, 14, 6, 14, 6, 9, 12, 9, 12, 5, 15, 8],
     [8, 5, 12, 9, 12, 5, 14, 6, 8, 13, 6, 5, 15, 13, 11, 11]]"

text \<open>The five Boolean functions of the standard, and the round constants of the two lines.\<close>

definition rmd_f :: "(u32 \<Rightarrow> u32 \<Rightarrow> u32 \<Rightarrow> u32) list" where
  "rmd_f = [
     \<lambda>x y z. x XOR y XOR z,
     \<lambda>x y z. (x AND y) OR (NOT x AND z),
     \<lambda>x y z. (x OR NOT y) XOR z,
     \<lambda>x y z. (x AND z) OR (y AND NOT z),
     \<lambda>x y z. x XOR (y OR NOT z)]"

definition rmd_K_left :: "u32 list" where
  "rmd_K_left = [0, 0x5a827999, 0x6ed9eba1, 0x8f1bbcdc, 0xa953fd4e]"

definition rmd_K_right :: "u32 list" where
  "rmd_K_right = [0x50a28be6, 0x5c4dd124, 0x6d703ef3, 0x7a6d76e9, 0]"

definition rmd_step :: "(u32 \<Rightarrow> u32 \<Rightarrow> u32 \<Rightarrow> u32) \<times> u32 \<times> u32 \<times> nat \<Rightarrow> u32 regs5 \<Rightarrow> u32 regs5" where
  "rmd_step = (\<lambda>(f, k, x, s) (a, b, c, d, e).
     (e, word_rotl s (a + f b c d + x + k) + e, b, word_rotl 10 c, d))"

text \<open>The sixteen steps of one round: function, constant, message word and rotation of each.\<close>

definition rmd_row :: "u32 list \<Rightarrow> (u32 \<Rightarrow> u32 \<Rightarrow> u32 \<Rightarrow> u32) \<Rightarrow> u32 \<Rightarrow> nat list \<Rightarrow> nat list \<Rightarrow> ((u32 \<Rightarrow> u32 \<Rightarrow> u32 \<Rightarrow> u32) \<times> u32 \<times> u32 \<times> nat) list" where
  "rmd_row X f k rs ss = map (\<lambda>(r, s). (f, k, X ! r, s)) (zip rs ss)"

definition rmd_left :: "u32 list \<Rightarrow> nat \<Rightarrow> ((u32 \<Rightarrow> u32 \<Rightarrow> u32 \<Rightarrow> u32) \<times> u32 \<times> u32 \<times> nat) list" where
  "rmd_left X j = rmd_row X (rmd_f ! j) (rmd_K_left ! j) (rmd_r_left ! j) (rmd_s_left ! j)"

definition rmd_right :: "u32 list \<Rightarrow> nat \<Rightarrow> ((u32 \<Rightarrow> u32 \<Rightarrow> u32 \<Rightarrow> u32) \<times> u32 \<times> u32 \<times> nat) list" where
  "rmd_right X j = rmd_row X (rmd_f ! (4 - j)) (rmd_K_right ! j) (rmd_r_right ! j) (rmd_s_right ! j)"

definition rmd_block :: "u32 list \<Rightarrow> bytes \<Rightarrow> u32 list" where
  "rmd_block H B =
     (let X = map (\<lambda>i. ReadLE32 (drop (4 * i) B)) [0..<16];
          r = (H ! 0, H ! 1, H ! 2, H ! 3, H ! 4);
          (a, b, c, d, e) = fold rmd_step (concat (map (rmd_left X) [0, 1, 2, 3, 4])) r;
          (a', b', c', d', e') = fold rmd_step (concat (map (rmd_right X) [0, 1, 2, 3, 4])) r
      in [H ! 1 + c + d', H ! 2 + d + e', H ! 3 + e + a', H ! 4 + a + b', H ! 0 + b + c'])"

definition rmd160 :: "bytes \<Rightarrow> bytes" where
  "rmd160 m = concat (map WriteLE32
     (md_hash 64 rmd_block [0x67452301, 0xefcdab89, 0x98badcfe, 0x10325476, 0xc3d2e1f0]
        (md_pad 64 (wlist 8 (8 * length m)) m)))"

section \<open>The code\<close>

definition ripemd160_f1 :: "u32 \<Rightarrow> u32 \<Rightarrow> u32 \<Rightarrow> u32" where
  "ripemd160_f1 x y z = (x XOR y) XOR z"

definition ripemd160_f2 :: "u32 \<Rightarrow> u32 \<Rightarrow> u32 \<Rightarrow> u32" where
  "ripemd160_f2 x y z = (x AND y) OR (NOT x AND z)"

definition ripemd160_f3 :: "u32 \<Rightarrow> u32 \<Rightarrow> u32 \<Rightarrow> u32" where
  "ripemd160_f3 x y z = (x OR NOT y) XOR z"

definition ripemd160_f4 :: "u32 \<Rightarrow> u32 \<Rightarrow> u32 \<Rightarrow> u32" where
  "ripemd160_f4 x y z = (x AND z) OR (y AND NOT z)"

definition ripemd160_f5 :: "u32 \<Rightarrow> u32 \<Rightarrow> u32 \<Rightarrow> u32" where
  "ripemd160_f5 x y z = x XOR (y OR NOT z)"

definition ripemd160_Initialize :: "u32 list" where
  "ripemd160_Initialize = [0x67452301, 0xEFCDAB89, 0x98BADCFE, 0x10325476, 0xC3D2E1F0]"

definition ripemd160_rol :: "u32 \<Rightarrow> nat \<Rightarrow> u32" where
  "ripemd160_rol x i = push_bit i x OR drop_bit (32 - i) x"

text \<open>\<^verbatim>\<open>Round\<close> updates its reference parameters \<^verbatim>\<open>a\<close> and \<^verbatim>\<open>c\<close>: they are the result.\<close>

definition ripemd160_Round :: "u32 \<Rightarrow> u32 \<Rightarrow> u32 \<Rightarrow> u32 \<Rightarrow> u32 \<Rightarrow> u32 \<Rightarrow> u32 \<Rightarrow> u32 \<Rightarrow> nat \<Rightarrow> u32 \<times> u32" where
  "ripemd160_Round a b c d e f x k r = (ripemd160_rol (a + f + x + k) r + e, ripemd160_rol c 10)"

definition ripemd160_R11 :: "u32 \<Rightarrow> u32 \<Rightarrow> u32 \<Rightarrow> u32 \<Rightarrow> u32 \<Rightarrow> u32 \<Rightarrow> nat \<Rightarrow> u32 \<times> u32" where
  "ripemd160_R11 a b c d e x r = ripemd160_Round a b c d e (ripemd160_f1 b c d) x 0 r"

definition ripemd160_R21 :: "u32 \<Rightarrow> u32 \<Rightarrow> u32 \<Rightarrow> u32 \<Rightarrow> u32 \<Rightarrow> u32 \<Rightarrow> nat \<Rightarrow> u32 \<times> u32" where
  "ripemd160_R21 a b c d e x r = ripemd160_Round a b c d e (ripemd160_f2 b c d) x 0x5A827999 r"

definition ripemd160_R31 :: "u32 \<Rightarrow> u32 \<Rightarrow> u32 \<Rightarrow> u32 \<Rightarrow> u32 \<Rightarrow> u32 \<Rightarrow> nat \<Rightarrow> u32 \<times> u32" where
  "ripemd160_R31 a b c d e x r = ripemd160_Round a b c d e (ripemd160_f3 b c d) x 0x6ED9EBA1 r"

definition ripemd160_R41 :: "u32 \<Rightarrow> u32 \<Rightarrow> u32 \<Rightarrow> u32 \<Rightarrow> u32 \<Rightarrow> u32 \<Rightarrow> nat \<Rightarrow> u32 \<times> u32" where
  "ripemd160_R41 a b c d e x r = ripemd160_Round a b c d e (ripemd160_f4 b c d) x 0x8F1BBCDC r"

definition ripemd160_R51 :: "u32 \<Rightarrow> u32 \<Rightarrow> u32 \<Rightarrow> u32 \<Rightarrow> u32 \<Rightarrow> u32 \<Rightarrow> nat \<Rightarrow> u32 \<times> u32" where
  "ripemd160_R51 a b c d e x r = ripemd160_Round a b c d e (ripemd160_f5 b c d) x 0xA953FD4E r"

definition ripemd160_R12 :: "u32 \<Rightarrow> u32 \<Rightarrow> u32 \<Rightarrow> u32 \<Rightarrow> u32 \<Rightarrow> u32 \<Rightarrow> nat \<Rightarrow> u32 \<times> u32" where
  "ripemd160_R12 a b c d e x r = ripemd160_Round a b c d e (ripemd160_f5 b c d) x 0x50A28BE6 r"

definition ripemd160_R22 :: "u32 \<Rightarrow> u32 \<Rightarrow> u32 \<Rightarrow> u32 \<Rightarrow> u32 \<Rightarrow> u32 \<Rightarrow> nat \<Rightarrow> u32 \<times> u32" where
  "ripemd160_R22 a b c d e x r = ripemd160_Round a b c d e (ripemd160_f4 b c d) x 0x5C4DD124 r"

definition ripemd160_R32 :: "u32 \<Rightarrow> u32 \<Rightarrow> u32 \<Rightarrow> u32 \<Rightarrow> u32 \<Rightarrow> u32 \<Rightarrow> nat \<Rightarrow> u32 \<times> u32" where
  "ripemd160_R32 a b c d e x r = ripemd160_Round a b c d e (ripemd160_f3 b c d) x 0x6D703EF3 r"

definition ripemd160_R42 :: "u32 \<Rightarrow> u32 \<Rightarrow> u32 \<Rightarrow> u32 \<Rightarrow> u32 \<Rightarrow> u32 \<Rightarrow> nat \<Rightarrow> u32 \<times> u32" where
  "ripemd160_R42 a b c d e x r = ripemd160_Round a b c d e (ripemd160_f2 b c d) x 0x7A6D76E9 r"

definition ripemd160_R52 :: "u32 \<Rightarrow> u32 \<Rightarrow> u32 \<Rightarrow> u32 \<Rightarrow> u32 \<Rightarrow> u32 \<Rightarrow> nat \<Rightarrow> u32 \<times> u32" where
  "ripemd160_R52 a b c d e x r = ripemd160_Round a b c d e (ripemd160_f1 b c d) x 0 r"

definition ripemd160_rounds0 :: "u32 ws16 \<Rightarrow> u32 regs5 \<times> u32 regs5 \<Rightarrow> u32 regs5 \<times> u32 regs5" where
  "ripemd160_rounds0 = (\<lambda>(w0, w1, w2, w3, w4, w5, w6, w7, w8, w9, w10, w11, w12, w13, w14, w15) ((a1, b1, c1, d1, e1), (a2, b2, c2, d2, e2)). let
     (a1, c1) = ripemd160_R11 a1 b1 c1 d1 e1 w0 11; (a2, c2) = ripemd160_R12 a2 b2 c2 d2 e2 w5 8;
     (e1, b1) = ripemd160_R11 e1 a1 b1 c1 d1 w1 14; (e2, b2) = ripemd160_R12 e2 a2 b2 c2 d2 w14 9;
     (d1, a1) = ripemd160_R11 d1 e1 a1 b1 c1 w2 15; (d2, a2) = ripemd160_R12 d2 e2 a2 b2 c2 w7 9;
     (c1, e1) = ripemd160_R11 c1 d1 e1 a1 b1 w3 12; (c2, e2) = ripemd160_R12 c2 d2 e2 a2 b2 w0 11;
     (b1, d1) = ripemd160_R11 b1 c1 d1 e1 a1 w4 5; (b2, d2) = ripemd160_R12 b2 c2 d2 e2 a2 w9 13;
     (a1, c1) = ripemd160_R11 a1 b1 c1 d1 e1 w5 8; (a2, c2) = ripemd160_R12 a2 b2 c2 d2 e2 w2 15;
     (e1, b1) = ripemd160_R11 e1 a1 b1 c1 d1 w6 7; (e2, b2) = ripemd160_R12 e2 a2 b2 c2 d2 w11 15;
     (d1, a1) = ripemd160_R11 d1 e1 a1 b1 c1 w7 9; (d2, a2) = ripemd160_R12 d2 e2 a2 b2 c2 w4 5;
     (c1, e1) = ripemd160_R11 c1 d1 e1 a1 b1 w8 11; (c2, e2) = ripemd160_R12 c2 d2 e2 a2 b2 w13 7;
     (b1, d1) = ripemd160_R11 b1 c1 d1 e1 a1 w9 13; (b2, d2) = ripemd160_R12 b2 c2 d2 e2 a2 w6 7;
     (a1, c1) = ripemd160_R11 a1 b1 c1 d1 e1 w10 14; (a2, c2) = ripemd160_R12 a2 b2 c2 d2 e2 w15 8;
     (e1, b1) = ripemd160_R11 e1 a1 b1 c1 d1 w11 15; (e2, b2) = ripemd160_R12 e2 a2 b2 c2 d2 w8 11;
     (d1, a1) = ripemd160_R11 d1 e1 a1 b1 c1 w12 6; (d2, a2) = ripemd160_R12 d2 e2 a2 b2 c2 w1 14;
     (c1, e1) = ripemd160_R11 c1 d1 e1 a1 b1 w13 7; (c2, e2) = ripemd160_R12 c2 d2 e2 a2 b2 w10 14;
     (b1, d1) = ripemd160_R11 b1 c1 d1 e1 a1 w14 9; (b2, d2) = ripemd160_R12 b2 c2 d2 e2 a2 w3 12;
     (a1, c1) = ripemd160_R11 a1 b1 c1 d1 e1 w15 8; (a2, c2) = ripemd160_R12 a2 b2 c2 d2 e2 w12 6
     in ((a1, b1, c1, d1, e1), (a2, b2, c2, d2, e2)))"

definition ripemd160_rounds1 :: "u32 ws16 \<Rightarrow> u32 regs5 \<times> u32 regs5 \<Rightarrow> u32 regs5 \<times> u32 regs5" where
  "ripemd160_rounds1 = (\<lambda>(w0, w1, w2, w3, w4, w5, w6, w7, w8, w9, w10, w11, w12, w13, w14, w15) ((a1, b1, c1, d1, e1), (a2, b2, c2, d2, e2)). let
     (e1, b1) = ripemd160_R21 e1 a1 b1 c1 d1 w7 7; (e2, b2) = ripemd160_R22 e2 a2 b2 c2 d2 w6 9;
     (d1, a1) = ripemd160_R21 d1 e1 a1 b1 c1 w4 6; (d2, a2) = ripemd160_R22 d2 e2 a2 b2 c2 w11 13;
     (c1, e1) = ripemd160_R21 c1 d1 e1 a1 b1 w13 8; (c2, e2) = ripemd160_R22 c2 d2 e2 a2 b2 w3 15;
     (b1, d1) = ripemd160_R21 b1 c1 d1 e1 a1 w1 13; (b2, d2) = ripemd160_R22 b2 c2 d2 e2 a2 w7 7;
     (a1, c1) = ripemd160_R21 a1 b1 c1 d1 e1 w10 11; (a2, c2) = ripemd160_R22 a2 b2 c2 d2 e2 w0 12;
     (e1, b1) = ripemd160_R21 e1 a1 b1 c1 d1 w6 9; (e2, b2) = ripemd160_R22 e2 a2 b2 c2 d2 w13 8;
     (d1, a1) = ripemd160_R21 d1 e1 a1 b1 c1 w15 7; (d2, a2) = ripemd160_R22 d2 e2 a2 b2 c2 w5 9;
     (c1, e1) = ripemd160_R21 c1 d1 e1 a1 b1 w3 15; (c2, e2) = ripemd160_R22 c2 d2 e2 a2 b2 w10 11;
     (b1, d1) = ripemd160_R21 b1 c1 d1 e1 a1 w12 7; (b2, d2) = ripemd160_R22 b2 c2 d2 e2 a2 w14 7;
     (a1, c1) = ripemd160_R21 a1 b1 c1 d1 e1 w0 12; (a2, c2) = ripemd160_R22 a2 b2 c2 d2 e2 w15 7;
     (e1, b1) = ripemd160_R21 e1 a1 b1 c1 d1 w9 15; (e2, b2) = ripemd160_R22 e2 a2 b2 c2 d2 w8 12;
     (d1, a1) = ripemd160_R21 d1 e1 a1 b1 c1 w5 9; (d2, a2) = ripemd160_R22 d2 e2 a2 b2 c2 w12 7;
     (c1, e1) = ripemd160_R21 c1 d1 e1 a1 b1 w2 11; (c2, e2) = ripemd160_R22 c2 d2 e2 a2 b2 w4 6;
     (b1, d1) = ripemd160_R21 b1 c1 d1 e1 a1 w14 7; (b2, d2) = ripemd160_R22 b2 c2 d2 e2 a2 w9 15;
     (a1, c1) = ripemd160_R21 a1 b1 c1 d1 e1 w11 13; (a2, c2) = ripemd160_R22 a2 b2 c2 d2 e2 w1 13;
     (e1, b1) = ripemd160_R21 e1 a1 b1 c1 d1 w8 12; (e2, b2) = ripemd160_R22 e2 a2 b2 c2 d2 w2 11
     in ((a1, b1, c1, d1, e1), (a2, b2, c2, d2, e2)))"

definition ripemd160_rounds2 :: "u32 ws16 \<Rightarrow> u32 regs5 \<times> u32 regs5 \<Rightarrow> u32 regs5 \<times> u32 regs5" where
  "ripemd160_rounds2 = (\<lambda>(w0, w1, w2, w3, w4, w5, w6, w7, w8, w9, w10, w11, w12, w13, w14, w15) ((a1, b1, c1, d1, e1), (a2, b2, c2, d2, e2)). let
     (d1, a1) = ripemd160_R31 d1 e1 a1 b1 c1 w3 11; (d2, a2) = ripemd160_R32 d2 e2 a2 b2 c2 w15 9;
     (c1, e1) = ripemd160_R31 c1 d1 e1 a1 b1 w10 13; (c2, e2) = ripemd160_R32 c2 d2 e2 a2 b2 w5 7;
     (b1, d1) = ripemd160_R31 b1 c1 d1 e1 a1 w14 6; (b2, d2) = ripemd160_R32 b2 c2 d2 e2 a2 w1 15;
     (a1, c1) = ripemd160_R31 a1 b1 c1 d1 e1 w4 7; (a2, c2) = ripemd160_R32 a2 b2 c2 d2 e2 w3 11;
     (e1, b1) = ripemd160_R31 e1 a1 b1 c1 d1 w9 14; (e2, b2) = ripemd160_R32 e2 a2 b2 c2 d2 w7 8;
     (d1, a1) = ripemd160_R31 d1 e1 a1 b1 c1 w15 9; (d2, a2) = ripemd160_R32 d2 e2 a2 b2 c2 w14 6;
     (c1, e1) = ripemd160_R31 c1 d1 e1 a1 b1 w8 13; (c2, e2) = ripemd160_R32 c2 d2 e2 a2 b2 w6 6;
     (b1, d1) = ripemd160_R31 b1 c1 d1 e1 a1 w1 15; (b2, d2) = ripemd160_R32 b2 c2 d2 e2 a2 w9 14;
     (a1, c1) = ripemd160_R31 a1 b1 c1 d1 e1 w2 14; (a2, c2) = ripemd160_R32 a2 b2 c2 d2 e2 w11 12;
     (e1, b1) = ripemd160_R31 e1 a1 b1 c1 d1 w7 8; (e2, b2) = ripemd160_R32 e2 a2 b2 c2 d2 w8 13;
     (d1, a1) = ripemd160_R31 d1 e1 a1 b1 c1 w0 13; (d2, a2) = ripemd160_R32 d2 e2 a2 b2 c2 w12 5;
     (c1, e1) = ripemd160_R31 c1 d1 e1 a1 b1 w6 6; (c2, e2) = ripemd160_R32 c2 d2 e2 a2 b2 w2 14;
     (b1, d1) = ripemd160_R31 b1 c1 d1 e1 a1 w13 5; (b2, d2) = ripemd160_R32 b2 c2 d2 e2 a2 w10 13;
     (a1, c1) = ripemd160_R31 a1 b1 c1 d1 e1 w11 12; (a2, c2) = ripemd160_R32 a2 b2 c2 d2 e2 w0 13;
     (e1, b1) = ripemd160_R31 e1 a1 b1 c1 d1 w5 7; (e2, b2) = ripemd160_R32 e2 a2 b2 c2 d2 w4 7;
     (d1, a1) = ripemd160_R31 d1 e1 a1 b1 c1 w12 5; (d2, a2) = ripemd160_R32 d2 e2 a2 b2 c2 w13 5
     in ((a1, b1, c1, d1, e1), (a2, b2, c2, d2, e2)))"

definition ripemd160_rounds3 :: "u32 ws16 \<Rightarrow> u32 regs5 \<times> u32 regs5 \<Rightarrow> u32 regs5 \<times> u32 regs5" where
  "ripemd160_rounds3 = (\<lambda>(w0, w1, w2, w3, w4, w5, w6, w7, w8, w9, w10, w11, w12, w13, w14, w15) ((a1, b1, c1, d1, e1), (a2, b2, c2, d2, e2)). let
     (c1, e1) = ripemd160_R41 c1 d1 e1 a1 b1 w1 11; (c2, e2) = ripemd160_R42 c2 d2 e2 a2 b2 w8 15;
     (b1, d1) = ripemd160_R41 b1 c1 d1 e1 a1 w9 12; (b2, d2) = ripemd160_R42 b2 c2 d2 e2 a2 w6 5;
     (a1, c1) = ripemd160_R41 a1 b1 c1 d1 e1 w11 14; (a2, c2) = ripemd160_R42 a2 b2 c2 d2 e2 w4 8;
     (e1, b1) = ripemd160_R41 e1 a1 b1 c1 d1 w10 15; (e2, b2) = ripemd160_R42 e2 a2 b2 c2 d2 w1 11;
     (d1, a1) = ripemd160_R41 d1 e1 a1 b1 c1 w0 14; (d2, a2) = ripemd160_R42 d2 e2 a2 b2 c2 w3 14;
     (c1, e1) = ripemd160_R41 c1 d1 e1 a1 b1 w8 15; (c2, e2) = ripemd160_R42 c2 d2 e2 a2 b2 w11 14;
     (b1, d1) = ripemd160_R41 b1 c1 d1 e1 a1 w12 9; (b2, d2) = ripemd160_R42 b2 c2 d2 e2 a2 w15 6;
     (a1, c1) = ripemd160_R41 a1 b1 c1 d1 e1 w4 8; (a2, c2) = ripemd160_R42 a2 b2 c2 d2 e2 w0 14;
     (e1, b1) = ripemd160_R41 e1 a1 b1 c1 d1 w13 9; (e2, b2) = ripemd160_R42 e2 a2 b2 c2 d2 w5 6;
     (d1, a1) = ripemd160_R41 d1 e1 a1 b1 c1 w3 14; (d2, a2) = ripemd160_R42 d2 e2 a2 b2 c2 w12 9;
     (c1, e1) = ripemd160_R41 c1 d1 e1 a1 b1 w7 5; (c2, e2) = ripemd160_R42 c2 d2 e2 a2 b2 w2 12;
     (b1, d1) = ripemd160_R41 b1 c1 d1 e1 a1 w15 6; (b2, d2) = ripemd160_R42 b2 c2 d2 e2 a2 w13 9;
     (a1, c1) = ripemd160_R41 a1 b1 c1 d1 e1 w14 8; (a2, c2) = ripemd160_R42 a2 b2 c2 d2 e2 w9 12;
     (e1, b1) = ripemd160_R41 e1 a1 b1 c1 d1 w5 6; (e2, b2) = ripemd160_R42 e2 a2 b2 c2 d2 w7 5;
     (d1, a1) = ripemd160_R41 d1 e1 a1 b1 c1 w6 5; (d2, a2) = ripemd160_R42 d2 e2 a2 b2 c2 w10 15;
     (c1, e1) = ripemd160_R41 c1 d1 e1 a1 b1 w2 12; (c2, e2) = ripemd160_R42 c2 d2 e2 a2 b2 w14 8
     in ((a1, b1, c1, d1, e1), (a2, b2, c2, d2, e2)))"

definition ripemd160_rounds4 :: "u32 ws16 \<Rightarrow> u32 regs5 \<times> u32 regs5 \<Rightarrow> u32 regs5 \<times> u32 regs5" where
  "ripemd160_rounds4 = (\<lambda>(w0, w1, w2, w3, w4, w5, w6, w7, w8, w9, w10, w11, w12, w13, w14, w15) ((a1, b1, c1, d1, e1), (a2, b2, c2, d2, e2)). let
     (b1, d1) = ripemd160_R51 b1 c1 d1 e1 a1 w4 9; (b2, d2) = ripemd160_R52 b2 c2 d2 e2 a2 w12 8;
     (a1, c1) = ripemd160_R51 a1 b1 c1 d1 e1 w0 15; (a2, c2) = ripemd160_R52 a2 b2 c2 d2 e2 w15 5;
     (e1, b1) = ripemd160_R51 e1 a1 b1 c1 d1 w5 5; (e2, b2) = ripemd160_R52 e2 a2 b2 c2 d2 w10 12;
     (d1, a1) = ripemd160_R51 d1 e1 a1 b1 c1 w9 11; (d2, a2) = ripemd160_R52 d2 e2 a2 b2 c2 w4 9;
     (c1, e1) = ripemd160_R51 c1 d1 e1 a1 b1 w7 6; (c2, e2) = ripemd160_R52 c2 d2 e2 a2 b2 w1 12;
     (b1, d1) = ripemd160_R51 b1 c1 d1 e1 a1 w12 8; (b2, d2) = ripemd160_R52 b2 c2 d2 e2 a2 w5 5;
     (a1, c1) = ripemd160_R51 a1 b1 c1 d1 e1 w2 13; (a2, c2) = ripemd160_R52 a2 b2 c2 d2 e2 w8 14;
     (e1, b1) = ripemd160_R51 e1 a1 b1 c1 d1 w10 12; (e2, b2) = ripemd160_R52 e2 a2 b2 c2 d2 w7 6;
     (d1, a1) = ripemd160_R51 d1 e1 a1 b1 c1 w14 5; (d2, a2) = ripemd160_R52 d2 e2 a2 b2 c2 w6 8;
     (c1, e1) = ripemd160_R51 c1 d1 e1 a1 b1 w1 12; (c2, e2) = ripemd160_R52 c2 d2 e2 a2 b2 w2 13;
     (b1, d1) = ripemd160_R51 b1 c1 d1 e1 a1 w3 13; (b2, d2) = ripemd160_R52 b2 c2 d2 e2 a2 w13 6;
     (a1, c1) = ripemd160_R51 a1 b1 c1 d1 e1 w8 14; (a2, c2) = ripemd160_R52 a2 b2 c2 d2 e2 w14 5;
     (e1, b1) = ripemd160_R51 e1 a1 b1 c1 d1 w11 11; (e2, b2) = ripemd160_R52 e2 a2 b2 c2 d2 w0 15;
     (d1, a1) = ripemd160_R51 d1 e1 a1 b1 c1 w6 8; (d2, a2) = ripemd160_R52 d2 e2 a2 b2 c2 w3 13;
     (c1, e1) = ripemd160_R51 c1 d1 e1 a1 b1 w15 5; (c2, e2) = ripemd160_R52 c2 d2 e2 a2 b2 w9 11;
     (b1, d1) = ripemd160_R51 b1 c1 d1 e1 a1 w13 6; (b2, d2) = ripemd160_R52 b2 c2 d2 e2 a2 w11 11
     in ((a1, b1, c1, d1, e1), (a2, b2, c2, d2, e2)))"

definition ripemd160_Transform :: "u32 list \<Rightarrow> bytes \<Rightarrow> u32 list" where
  "ripemd160_Transform s chunk =
     (let r1 = (s ! 0, s ! 1, s ! 2, s ! 3, s ! 4);
          w = (ReadLE32 (drop 0 chunk), ReadLE32 (drop 4 chunk), ReadLE32 (drop 8 chunk), ReadLE32 (drop 12 chunk), ReadLE32 (drop 16 chunk), ReadLE32 (drop 20 chunk), ReadLE32 (drop 24 chunk), ReadLE32 (drop 28 chunk), ReadLE32 (drop 32 chunk), ReadLE32 (drop 36 chunk), ReadLE32 (drop 40 chunk), ReadLE32 (drop 44 chunk), ReadLE32 (drop 48 chunk), ReadLE32 (drop 52 chunk), ReadLE32 (drop 56 chunk), ReadLE32 (drop 60 chunk));
          ((a1, b1, c1, d1, e1), (a2, b2, c2, d2, e2)) =
            ripemd160_rounds4 w (ripemd160_rounds3 w (ripemd160_rounds2 w (ripemd160_rounds1 w (ripemd160_rounds0 w (r1, r1)))))
      in [s ! 1 + c1 + d2, s ! 2 + d1 + e2, s ! 3 + e1 + a2, s ! 4 + a1 + b2, s ! 0 + b1 + c2])"

text \<open>The constructor leaves \<^verbatim>\<open>buf\<close> uninitialised: its content is an argument.\<close>

definition CRIPEMD160 :: "bytes \<Rightarrow> u32 hasher" where
  "CRIPEMD160 junk = \<lparr>hs_s = ripemd160_Initialize, hs_buf = junk, hs_bytes = 0\<rparr>"

function CRIPEMD160_full_blocks :: "u32 hasher \<Rightarrow> bytes \<Rightarrow> u32 hasher \<times> bytes" where
  "CRIPEMD160_full_blocks h data =
     (if 64 \<le> length data
      then CRIPEMD160_full_blocks (h\<lparr>hs_s := ripemd160_Transform (hs_s h) (take 64 data), hs_bytes := hs_bytes h + 64\<rparr>) (drop 64 data)
      else (h, data))"
  by pat_completeness auto
termination by (relation "measure (\<lambda>(h, data). length data)") auto

declare CRIPEMD160_full_blocks.simps [simp del]

definition CRIPEMD160_Write :: "u32 hasher \<Rightarrow> bytes \<Rightarrow> u32 hasher option" where
  "CRIPEMD160_Write h data =
     (let bufsize = unat (hs_bytes h) mod 64 in
      do {
        (h, data, bufsize) \<leftarrow>
          (if bufsize \<noteq> 0 \<and> 64 \<le> bufsize + length data
           then do {
             buf \<leftarrow> memcpy (hs_buf h) (int bufsize) data 0 (int (64 - bufsize));
             Some (h\<lparr>hs_s := ripemd160_Transform (hs_s h) buf, hs_buf := buf, hs_bytes := hs_bytes h + word_of_nat (64 - bufsize)\<rparr>,
                   drop (64 - bufsize) data, 0)
           }
           else Some (h, data, bufsize));
        let (h, data) = CRIPEMD160_full_blocks h data;
        if data \<noteq> []
        then do {
          buf \<leftarrow> memcpy (hs_buf h) (int bufsize) data 0 (int (length data));
          Some (h\<lparr>hs_buf := buf, hs_bytes := hs_bytes h + word_of_nat (length data)\<rparr>)
        }
        else Some h
      })"

text \<open>\<^verbatim>\<open>Finalize\<close> writes the padding into the object itself, so the object is part of the result.\<close>

definition CRIPEMD160_Finalize :: "u32 hasher \<Rightarrow> (u32 hasher \<times> bytes) option" where
  "CRIPEMD160_Finalize h =
     (let pad = 0x80 # replicate 63 0;
          sizedesc = WriteLE64 (push_bit 3 (hs_bytes h))
      in do {
        p \<leftarrow> rd pad (1 + (119 - unat (hs_bytes h) mod 64) mod 64);
        h \<leftarrow> CRIPEMD160_Write h p;
        h \<leftarrow> CRIPEMD160_Write h sizedesc;
        Some (h, concat (map (\<lambda>i. WriteLE32 (hs_s h ! i)) [0..<5]))
      })"

definition CRIPEMD160_Reset :: "u32 hasher \<Rightarrow> u32 hasher" where
  "CRIPEMD160_Reset h = h\<lparr>hs_s := ripemd160_Initialize, hs_bytes := 0\<rparr>"

section \<open>RIPEMD-160 computes the standard\<close>

lemma ripemd160_rol_rotl: "0 < r \<Longrightarrow> r < 32 \<Longrightarrow> ripemd160_rol x r = word_rotl r x"
  using rotl_shifts [of r x] by (simp add: ripemd160_rol_def)

text \<open>
  A step of the reference moves the registers; the code keeps them in place and renames. The two
  lines run in lock step.
\<close>

definition rmd_step2 where
  "rmd_step2 = (\<lambda>(p, q) (r1, r2). (rmd_step p r1, rmd_step q r2))"

lemma fold_rmd_step2:
  "length ps = length qs \<Longrightarrow> fold rmd_step2 (zip ps qs) (r1, r2) = (fold rmd_step ps r1, fold rmd_step qs r2)"
  by (induction ps qs arbitrary: r1 r2 rule: list_induct2) (simp_all add: rmd_step2_def)

lemma rmd_step_Round:
  "0 < s \<Longrightarrow> s < 32 \<Longrightarrow> rmd_step (f, k, x, s) (a, b, c, d, e) =
     (case ripemd160_Round a b c d e (f b c d) x k s of (a', c') \<Rightarrow> (e, a', b, c', d))"
  by (simp add: rmd_step_def ripemd160_Round_def ripemd160_rol_rotl)

text \<open>Both rotations of a pair of lines are between 1 and 31.\<close>

lemma rmd_step2_Cons:
  "0 < s \<and> s < 32 \<and> 0 < s' \<and> s' < 32 \<Longrightarrow>
   fold rmd_step2 (((f, k, x, s), (f', k', x', s')) # xs) ((a, b, c, d, e), (a2, b2, c2, d2, e2)) =
     (case ripemd160_Round a b c d e (f b c d) x k s of (a', c') \<Rightarrow>
      case ripemd160_Round a2 b2 c2 d2 e2 (f' b2 c2 d2) x' k' s' of (a2', c2') \<Rightarrow>
        fold rmd_step2 xs ((e, a', b, c', d), (e2, a2', b2, c2', d2)))"
  by (simp add: rmd_step2_def rmd_step_Round split: prod.split)

lemma ripemd160_functions:
  "rmd_f = [ripemd160_f1, ripemd160_f2, ripemd160_f3, ripemd160_f4, ripemd160_f5]"
  by (simp add: rmd_f_def fun_eq_iff ripemd160_f1_def ripemd160_f2_def ripemd160_f3_def ripemd160_f4_def ripemd160_f5_def xor.assoc)

lemmas rmd_tables = ripemd160_functions rmd_K_left_def rmd_K_right_def rmd_r_left_def rmd_s_left_def rmd_r_right_def rmd_s_right_def

lemma ripemd160_rounds0_fips:
  "ripemd160_rounds0 (x0, x1, x2, x3, x4, x5, x6, x7, x8, x9, x10, x11, x12, x13, x14, x15) ((a1, b1, c1, d1, e1), (a2, b2, c2, d2, e2)) =
     (case fold rmd_step2 (zip (rmd_left [x0, x1, x2, x3, x4, x5, x6, x7, x8, x9, x10, x11, x12, x13, x14, x15] 0) (rmd_right [x0, x1, x2, x3, x4, x5, x6, x7, x8, x9, x10, x11, x12, x13, x14, x15] 0)) ((a1, b1, c1, d1, e1), (a2, b2, c2, d2, e2)) of
        ((e1, a1, b1, c1, d1), (e2, a2, b2, c2, d2)) \<Rightarrow> ((a1, b1, c1, d1, e1), (a2, b2, c2, d2, e2)))"
proof -
  have K: "zip (rmd_left [x0, x1, x2, x3, x4, x5, x6, x7, x8, x9, x10, x11, x12, x13, x14, x15] 0) (rmd_right [x0, x1, x2, x3, x4, x5, x6, x7, x8, x9, x10, x11, x12, x13, x14, x15] 0) =
    [((ripemd160_f1, 0, x0, 11), (ripemd160_f5, 0x50A28BE6, x5, 8)), ((ripemd160_f1, 0, x1, 14), (ripemd160_f5, 0x50A28BE6, x14, 9)), ((ripemd160_f1, 0, x2, 15), (ripemd160_f5, 0x50A28BE6, x7, 9)), ((ripemd160_f1, 0, x3, 12), (ripemd160_f5, 0x50A28BE6, x0, 11)), ((ripemd160_f1, 0, x4, 5), (ripemd160_f5, 0x50A28BE6, x9, 13)), ((ripemd160_f1, 0, x5, 8), (ripemd160_f5, 0x50A28BE6, x2, 15)), ((ripemd160_f1, 0, x6, 7), (ripemd160_f5, 0x50A28BE6, x11, 15)), ((ripemd160_f1, 0, x7, 9), (ripemd160_f5, 0x50A28BE6, x4, 5)), ((ripemd160_f1, 0, x8, 11), (ripemd160_f5, 0x50A28BE6, x13, 7)), ((ripemd160_f1, 0, x9, 13), (ripemd160_f5, 0x50A28BE6, x6, 7)), ((ripemd160_f1, 0, x10, 14), (ripemd160_f5, 0x50A28BE6, x15, 8)), ((ripemd160_f1, 0, x11, 15), (ripemd160_f5, 0x50A28BE6, x8, 11)), ((ripemd160_f1, 0, x12, 6), (ripemd160_f5, 0x50A28BE6, x1, 14)), ((ripemd160_f1, 0, x13, 7), (ripemd160_f5, 0x50A28BE6, x10, 14)), ((ripemd160_f1, 0, x14, 9), (ripemd160_f5, 0x50A28BE6, x3, 12)), ((ripemd160_f1, 0, x15, 8), (ripemd160_f5, 0x50A28BE6, x12, 6))]"
    by (simp add: rmd_left_def rmd_right_def rmd_row_def rmd_tables)
  show ?thesis unfolding ripemd160_rounds0_def K ripemd160_R11_def ripemd160_R12_def
    by (simp only: Let_case_prod prod.case rmd_step2_Cons fold_simps(1) case_prod_case_prod zero_less_numeral numeral_less_iff less_num_simps simp_thms
        cong del: prod.case_cong_weak)
qed

lemma ripemd160_rounds1_fips:
  "ripemd160_rounds1 (x0, x1, x2, x3, x4, x5, x6, x7, x8, x9, x10, x11, x12, x13, x14, x15) ((a1, b1, c1, d1, e1), (a2, b2, c2, d2, e2)) =
     (case fold rmd_step2 (zip (rmd_left [x0, x1, x2, x3, x4, x5, x6, x7, x8, x9, x10, x11, x12, x13, x14, x15] 1) (rmd_right [x0, x1, x2, x3, x4, x5, x6, x7, x8, x9, x10, x11, x12, x13, x14, x15] 1)) ((e1, a1, b1, c1, d1), (e2, a2, b2, c2, d2)) of
        ((d1, e1, a1, b1, c1), (d2, e2, a2, b2, c2)) \<Rightarrow> ((a1, b1, c1, d1, e1), (a2, b2, c2, d2, e2)))"
proof -
  have K: "zip (rmd_left [x0, x1, x2, x3, x4, x5, x6, x7, x8, x9, x10, x11, x12, x13, x14, x15] 1) (rmd_right [x0, x1, x2, x3, x4, x5, x6, x7, x8, x9, x10, x11, x12, x13, x14, x15] 1) =
    [((ripemd160_f2, 0x5A827999, x7, 7), (ripemd160_f4, 0x5C4DD124, x6, 9)), ((ripemd160_f2, 0x5A827999, x4, 6), (ripemd160_f4, 0x5C4DD124, x11, 13)), ((ripemd160_f2, 0x5A827999, x13, 8), (ripemd160_f4, 0x5C4DD124, x3, 15)), ((ripemd160_f2, 0x5A827999, x1, 13), (ripemd160_f4, 0x5C4DD124, x7, 7)), ((ripemd160_f2, 0x5A827999, x10, 11), (ripemd160_f4, 0x5C4DD124, x0, 12)), ((ripemd160_f2, 0x5A827999, x6, 9), (ripemd160_f4, 0x5C4DD124, x13, 8)), ((ripemd160_f2, 0x5A827999, x15, 7), (ripemd160_f4, 0x5C4DD124, x5, 9)), ((ripemd160_f2, 0x5A827999, x3, 15), (ripemd160_f4, 0x5C4DD124, x10, 11)), ((ripemd160_f2, 0x5A827999, x12, 7), (ripemd160_f4, 0x5C4DD124, x14, 7)), ((ripemd160_f2, 0x5A827999, x0, 12), (ripemd160_f4, 0x5C4DD124, x15, 7)), ((ripemd160_f2, 0x5A827999, x9, 15), (ripemd160_f4, 0x5C4DD124, x8, 12)), ((ripemd160_f2, 0x5A827999, x5, 9), (ripemd160_f4, 0x5C4DD124, x12, 7)), ((ripemd160_f2, 0x5A827999, x2, 11), (ripemd160_f4, 0x5C4DD124, x4, 6)), ((ripemd160_f2, 0x5A827999, x14, 7), (ripemd160_f4, 0x5C4DD124, x9, 15)), ((ripemd160_f2, 0x5A827999, x11, 13), (ripemd160_f4, 0x5C4DD124, x1, 13)), ((ripemd160_f2, 0x5A827999, x8, 12), (ripemd160_f4, 0x5C4DD124, x2, 11))]"
    by (simp add: rmd_left_def rmd_right_def rmd_row_def rmd_tables)
  show ?thesis unfolding ripemd160_rounds1_def K ripemd160_R21_def ripemd160_R22_def
    by (simp only: Let_case_prod prod.case rmd_step2_Cons fold_simps(1) case_prod_case_prod zero_less_numeral numeral_less_iff less_num_simps simp_thms
        cong del: prod.case_cong_weak)
qed

lemma ripemd160_rounds2_fips:
  "ripemd160_rounds2 (x0, x1, x2, x3, x4, x5, x6, x7, x8, x9, x10, x11, x12, x13, x14, x15) ((a1, b1, c1, d1, e1), (a2, b2, c2, d2, e2)) =
     (case fold rmd_step2 (zip (rmd_left [x0, x1, x2, x3, x4, x5, x6, x7, x8, x9, x10, x11, x12, x13, x14, x15] 2) (rmd_right [x0, x1, x2, x3, x4, x5, x6, x7, x8, x9, x10, x11, x12, x13, x14, x15] 2)) ((d1, e1, a1, b1, c1), (d2, e2, a2, b2, c2)) of
        ((c1, d1, e1, a1, b1), (c2, d2, e2, a2, b2)) \<Rightarrow> ((a1, b1, c1, d1, e1), (a2, b2, c2, d2, e2)))"
proof -
  have K: "zip (rmd_left [x0, x1, x2, x3, x4, x5, x6, x7, x8, x9, x10, x11, x12, x13, x14, x15] 2) (rmd_right [x0, x1, x2, x3, x4, x5, x6, x7, x8, x9, x10, x11, x12, x13, x14, x15] 2) =
    [((ripemd160_f3, 0x6ED9EBA1, x3, 11), (ripemd160_f3, 0x6D703EF3, x15, 9)), ((ripemd160_f3, 0x6ED9EBA1, x10, 13), (ripemd160_f3, 0x6D703EF3, x5, 7)), ((ripemd160_f3, 0x6ED9EBA1, x14, 6), (ripemd160_f3, 0x6D703EF3, x1, 15)), ((ripemd160_f3, 0x6ED9EBA1, x4, 7), (ripemd160_f3, 0x6D703EF3, x3, 11)), ((ripemd160_f3, 0x6ED9EBA1, x9, 14), (ripemd160_f3, 0x6D703EF3, x7, 8)), ((ripemd160_f3, 0x6ED9EBA1, x15, 9), (ripemd160_f3, 0x6D703EF3, x14, 6)), ((ripemd160_f3, 0x6ED9EBA1, x8, 13), (ripemd160_f3, 0x6D703EF3, x6, 6)), ((ripemd160_f3, 0x6ED9EBA1, x1, 15), (ripemd160_f3, 0x6D703EF3, x9, 14)), ((ripemd160_f3, 0x6ED9EBA1, x2, 14), (ripemd160_f3, 0x6D703EF3, x11, 12)), ((ripemd160_f3, 0x6ED9EBA1, x7, 8), (ripemd160_f3, 0x6D703EF3, x8, 13)), ((ripemd160_f3, 0x6ED9EBA1, x0, 13), (ripemd160_f3, 0x6D703EF3, x12, 5)), ((ripemd160_f3, 0x6ED9EBA1, x6, 6), (ripemd160_f3, 0x6D703EF3, x2, 14)), ((ripemd160_f3, 0x6ED9EBA1, x13, 5), (ripemd160_f3, 0x6D703EF3, x10, 13)), ((ripemd160_f3, 0x6ED9EBA1, x11, 12), (ripemd160_f3, 0x6D703EF3, x0, 13)), ((ripemd160_f3, 0x6ED9EBA1, x5, 7), (ripemd160_f3, 0x6D703EF3, x4, 7)), ((ripemd160_f3, 0x6ED9EBA1, x12, 5), (ripemd160_f3, 0x6D703EF3, x13, 5))]"
    by (simp add: rmd_left_def rmd_right_def rmd_row_def rmd_tables)
  show ?thesis unfolding ripemd160_rounds2_def K ripemd160_R31_def ripemd160_R32_def
    by (simp only: Let_case_prod prod.case rmd_step2_Cons fold_simps(1) case_prod_case_prod zero_less_numeral numeral_less_iff less_num_simps simp_thms
        cong del: prod.case_cong_weak)
qed

lemma ripemd160_rounds3_fips:
  "ripemd160_rounds3 (x0, x1, x2, x3, x4, x5, x6, x7, x8, x9, x10, x11, x12, x13, x14, x15) ((a1, b1, c1, d1, e1), (a2, b2, c2, d2, e2)) =
     (case fold rmd_step2 (zip (rmd_left [x0, x1, x2, x3, x4, x5, x6, x7, x8, x9, x10, x11, x12, x13, x14, x15] 3) (rmd_right [x0, x1, x2, x3, x4, x5, x6, x7, x8, x9, x10, x11, x12, x13, x14, x15] 3)) ((c1, d1, e1, a1, b1), (c2, d2, e2, a2, b2)) of
        ((b1, c1, d1, e1, a1), (b2, c2, d2, e2, a2)) \<Rightarrow> ((a1, b1, c1, d1, e1), (a2, b2, c2, d2, e2)))"
proof -
  have K: "zip (rmd_left [x0, x1, x2, x3, x4, x5, x6, x7, x8, x9, x10, x11, x12, x13, x14, x15] 3) (rmd_right [x0, x1, x2, x3, x4, x5, x6, x7, x8, x9, x10, x11, x12, x13, x14, x15] 3) =
    [((ripemd160_f4, 0x8F1BBCDC, x1, 11), (ripemd160_f2, 0x7A6D76E9, x8, 15)), ((ripemd160_f4, 0x8F1BBCDC, x9, 12), (ripemd160_f2, 0x7A6D76E9, x6, 5)), ((ripemd160_f4, 0x8F1BBCDC, x11, 14), (ripemd160_f2, 0x7A6D76E9, x4, 8)), ((ripemd160_f4, 0x8F1BBCDC, x10, 15), (ripemd160_f2, 0x7A6D76E9, x1, 11)), ((ripemd160_f4, 0x8F1BBCDC, x0, 14), (ripemd160_f2, 0x7A6D76E9, x3, 14)), ((ripemd160_f4, 0x8F1BBCDC, x8, 15), (ripemd160_f2, 0x7A6D76E9, x11, 14)), ((ripemd160_f4, 0x8F1BBCDC, x12, 9), (ripemd160_f2, 0x7A6D76E9, x15, 6)), ((ripemd160_f4, 0x8F1BBCDC, x4, 8), (ripemd160_f2, 0x7A6D76E9, x0, 14)), ((ripemd160_f4, 0x8F1BBCDC, x13, 9), (ripemd160_f2, 0x7A6D76E9, x5, 6)), ((ripemd160_f4, 0x8F1BBCDC, x3, 14), (ripemd160_f2, 0x7A6D76E9, x12, 9)), ((ripemd160_f4, 0x8F1BBCDC, x7, 5), (ripemd160_f2, 0x7A6D76E9, x2, 12)), ((ripemd160_f4, 0x8F1BBCDC, x15, 6), (ripemd160_f2, 0x7A6D76E9, x13, 9)), ((ripemd160_f4, 0x8F1BBCDC, x14, 8), (ripemd160_f2, 0x7A6D76E9, x9, 12)), ((ripemd160_f4, 0x8F1BBCDC, x5, 6), (ripemd160_f2, 0x7A6D76E9, x7, 5)), ((ripemd160_f4, 0x8F1BBCDC, x6, 5), (ripemd160_f2, 0x7A6D76E9, x10, 15)), ((ripemd160_f4, 0x8F1BBCDC, x2, 12), (ripemd160_f2, 0x7A6D76E9, x14, 8))]"
    by (simp add: rmd_left_def rmd_right_def rmd_row_def rmd_tables)
  show ?thesis unfolding ripemd160_rounds3_def K ripemd160_R41_def ripemd160_R42_def
    by (simp only: Let_case_prod prod.case rmd_step2_Cons fold_simps(1) case_prod_case_prod zero_less_numeral numeral_less_iff less_num_simps simp_thms
        cong del: prod.case_cong_weak)
qed

lemma ripemd160_rounds4_fips:
  "ripemd160_rounds4 (x0, x1, x2, x3, x4, x5, x6, x7, x8, x9, x10, x11, x12, x13, x14, x15) ((a1, b1, c1, d1, e1), (a2, b2, c2, d2, e2)) =
     (case fold rmd_step2 (zip (rmd_left [x0, x1, x2, x3, x4, x5, x6, x7, x8, x9, x10, x11, x12, x13, x14, x15] 4) (rmd_right [x0, x1, x2, x3, x4, x5, x6, x7, x8, x9, x10, x11, x12, x13, x14, x15] 4)) ((b1, c1, d1, e1, a1), (b2, c2, d2, e2, a2)) of
        ((a1, b1, c1, d1, e1), (a2, b2, c2, d2, e2)) \<Rightarrow> ((a1, b1, c1, d1, e1), (a2, b2, c2, d2, e2)))"
proof -
  have K: "zip (rmd_left [x0, x1, x2, x3, x4, x5, x6, x7, x8, x9, x10, x11, x12, x13, x14, x15] 4) (rmd_right [x0, x1, x2, x3, x4, x5, x6, x7, x8, x9, x10, x11, x12, x13, x14, x15] 4) =
    [((ripemd160_f5, 0xA953FD4E, x4, 9), (ripemd160_f1, 0, x12, 8)), ((ripemd160_f5, 0xA953FD4E, x0, 15), (ripemd160_f1, 0, x15, 5)), ((ripemd160_f5, 0xA953FD4E, x5, 5), (ripemd160_f1, 0, x10, 12)), ((ripemd160_f5, 0xA953FD4E, x9, 11), (ripemd160_f1, 0, x4, 9)), ((ripemd160_f5, 0xA953FD4E, x7, 6), (ripemd160_f1, 0, x1, 12)), ((ripemd160_f5, 0xA953FD4E, x12, 8), (ripemd160_f1, 0, x5, 5)), ((ripemd160_f5, 0xA953FD4E, x2, 13), (ripemd160_f1, 0, x8, 14)), ((ripemd160_f5, 0xA953FD4E, x10, 12), (ripemd160_f1, 0, x7, 6)), ((ripemd160_f5, 0xA953FD4E, x14, 5), (ripemd160_f1, 0, x6, 8)), ((ripemd160_f5, 0xA953FD4E, x1, 12), (ripemd160_f1, 0, x2, 13)), ((ripemd160_f5, 0xA953FD4E, x3, 13), (ripemd160_f1, 0, x13, 6)), ((ripemd160_f5, 0xA953FD4E, x8, 14), (ripemd160_f1, 0, x14, 5)), ((ripemd160_f5, 0xA953FD4E, x11, 11), (ripemd160_f1, 0, x0, 15)), ((ripemd160_f5, 0xA953FD4E, x6, 8), (ripemd160_f1, 0, x3, 13)), ((ripemd160_f5, 0xA953FD4E, x15, 5), (ripemd160_f1, 0, x9, 11)), ((ripemd160_f5, 0xA953FD4E, x13, 6), (ripemd160_f1, 0, x11, 11))]"
    by (simp add: rmd_left_def rmd_right_def rmd_row_def rmd_tables)
  show ?thesis unfolding ripemd160_rounds4_def K ripemd160_R51_def ripemd160_R52_def
    by (simp only: Let_case_prod prod.case rmd_step2_Cons fold_simps(1) case_prod_case_prod zero_less_numeral numeral_less_iff less_num_simps simp_thms
        cong del: prod.case_cong_weak)
qed

lemma length_rmd_rows: "j < 5 \<Longrightarrow> length (rmd_left X j) = 16" "j < 5 \<Longrightarrow> length (rmd_right X j) = 16"
  by (auto simp: rmd_left_def rmd_right_def rmd_row_def rmd_tables numeral_eq_Suc less_Suc_eq)

lemma ripemd160_rounds0_lines:
  "length X = 16 \<Longrightarrow> ripemd160_rounds0 (ws16_of X) ((a1, b1, c1, d1, e1), (a2, b2, c2, d2, e2)) =
     (case fold rmd_step (rmd_left X 0) (a1, b1, c1, d1, e1) of (e1, a1, b1, c1, d1) \<Rightarrow>
      case fold rmd_step (rmd_right X 0) (a2, b2, c2, d2, e2) of (e2, a2, b2, c2, d2) \<Rightarrow> ((a1, b1, c1, d1, e1), (a2, b2, c2, d2, e2)))"
  by (drule list16_ex) (auto simp only: ws16_of_list ripemd160_rounds0_fips fold_rmd_step2 length_rmd_rows simp_thms split: prod.split)

lemma ripemd160_rounds1_lines:
  "length X = 16 \<Longrightarrow> ripemd160_rounds1 (ws16_of X) ((a1, b1, c1, d1, e1), (a2, b2, c2, d2, e2)) =
     (case fold rmd_step (rmd_left X 1) (e1, a1, b1, c1, d1) of (d1, e1, a1, b1, c1) \<Rightarrow>
      case fold rmd_step (rmd_right X 1) (e2, a2, b2, c2, d2) of (d2, e2, a2, b2, c2) \<Rightarrow> ((a1, b1, c1, d1, e1), (a2, b2, c2, d2, e2)))"
  by (drule list16_ex) (auto simp only: ws16_of_list ripemd160_rounds1_fips fold_rmd_step2 length_rmd_rows simp_thms split: prod.split)

lemma ripemd160_rounds2_lines:
  "length X = 16 \<Longrightarrow> ripemd160_rounds2 (ws16_of X) ((a1, b1, c1, d1, e1), (a2, b2, c2, d2, e2)) =
     (case fold rmd_step (rmd_left X 2) (d1, e1, a1, b1, c1) of (c1, d1, e1, a1, b1) \<Rightarrow>
      case fold rmd_step (rmd_right X 2) (d2, e2, a2, b2, c2) of (c2, d2, e2, a2, b2) \<Rightarrow> ((a1, b1, c1, d1, e1), (a2, b2, c2, d2, e2)))"
  by (drule list16_ex) (auto simp only: ws16_of_list ripemd160_rounds2_fips fold_rmd_step2 length_rmd_rows simp_thms split: prod.split)

lemma ripemd160_rounds3_lines:
  "length X = 16 \<Longrightarrow> ripemd160_rounds3 (ws16_of X) ((a1, b1, c1, d1, e1), (a2, b2, c2, d2, e2)) =
     (case fold rmd_step (rmd_left X 3) (c1, d1, e1, a1, b1) of (b1, c1, d1, e1, a1) \<Rightarrow>
      case fold rmd_step (rmd_right X 3) (c2, d2, e2, a2, b2) of (b2, c2, d2, e2, a2) \<Rightarrow> ((a1, b1, c1, d1, e1), (a2, b2, c2, d2, e2)))"
  by (drule list16_ex) (auto simp only: ws16_of_list ripemd160_rounds3_fips fold_rmd_step2 length_rmd_rows simp_thms split: prod.split)

lemma ripemd160_rounds4_lines:
  "length X = 16 \<Longrightarrow> ripemd160_rounds4 (ws16_of X) ((a1, b1, c1, d1, e1), (a2, b2, c2, d2, e2)) =
     (case fold rmd_step (rmd_left X 4) (b1, c1, d1, e1, a1) of (a1, b1, c1, d1, e1) \<Rightarrow>
      case fold rmd_step (rmd_right X 4) (b2, c2, d2, e2, a2) of (a2, b2, c2, d2, e2) \<Rightarrow> ((a1, b1, c1, d1, e1), (a2, b2, c2, d2, e2)))"
  by (drule list16_ex) (auto simp only: ws16_of_list ripemd160_rounds4_fips fold_rmd_step2 length_rmd_rows simp_thms split: prod.split)

theorem ripemd160_Transform_spec: "ripemd160_Transform s chunk = rmd_block s chunk"
proof -
  define X where "X = map (\<lambda>i. ReadLE32 (drop (4 * i) chunk)) [0..<16]"
  have lX: "length X = 16" by (simp add: X_def)
  have w: "(ReadLE32 (drop 0 chunk), ReadLE32 (drop 4 chunk), ReadLE32 (drop 8 chunk), ReadLE32 (drop 12 chunk), ReadLE32 (drop 16 chunk), ReadLE32 (drop 20 chunk), ReadLE32 (drop 24 chunk), ReadLE32 (drop 28 chunk), ReadLE32 (drop 32 chunk), ReadLE32 (drop 36 chunk), ReadLE32 (drop 40 chunk), ReadLE32 (drop 44 chunk), ReadLE32 (drop 48 chunk), ReadLE32 (drop 52 chunk), ReadLE32 (drop 56 chunk), ReadLE32 (drop 60 chunk)) = ws16_of X"
    by (simp add: X_def upt_rec ws16_of_list)
  define r where "r = (s ! 0, s ! 1, s ! 2, s ! 3, s ! 4)"
  obtain a1x b1x c1x d1x e1x where r: "r = (a1x, b1x, c1x, d1x, e1x)" by (rule prod_cases5)
  obtain e1p a1p b1p c1p d1p where l0: "fold rmd_step (rmd_left X 0) r = (e1p, a1p, b1p, c1p, d1p)" by (rule prod_cases5)
  obtain e2p a2p b2p c2p d2p where r0: "fold rmd_step (rmd_right X 0) r = (e2p, a2p, b2p, c2p, d2p)" by (rule prod_cases5)
  obtain d1q e1q a1q b1q c1q where l1: "fold rmd_step (rmd_left X 1) (e1p, a1p, b1p, c1p, d1p) = (d1q, e1q, a1q, b1q, c1q)" by (rule prod_cases5)
  obtain d2q e2q a2q b2q c2q where r1: "fold rmd_step (rmd_right X 1) (e2p, a2p, b2p, c2p, d2p) = (d2q, e2q, a2q, b2q, c2q)" by (rule prod_cases5)
  obtain c1u d1u e1u a1u b1u where l2: "fold rmd_step (rmd_left X 2) (d1q, e1q, a1q, b1q, c1q) = (c1u, d1u, e1u, a1u, b1u)" by (rule prod_cases5)
  obtain c2u d2u e2u a2u b2u where r2: "fold rmd_step (rmd_right X 2) (d2q, e2q, a2q, b2q, c2q) = (c2u, d2u, e2u, a2u, b2u)" by (rule prod_cases5)
  obtain b1v c1v d1v e1v a1v where l3: "fold rmd_step (rmd_left X 3) (c1u, d1u, e1u, a1u, b1u) = (b1v, c1v, d1v, e1v, a1v)" by (rule prod_cases5)
  obtain b2v c2v d2v e2v a2v where r3: "fold rmd_step (rmd_right X 3) (c2u, d2u, e2u, a2u, b2u) = (b2v, c2v, d2v, e2v, a2v)" by (rule prod_cases5)
  obtain a1z b1z c1z d1z e1z where l4: "fold rmd_step (rmd_left X 4) (b1v, c1v, d1v, e1v, a1v) = (a1z, b1z, c1z, d1z, e1z)" by (rule prod_cases5)
  obtain a2z b2z c2z d2z e2z where r4: "fold rmd_step (rmd_right X 4) (b2v, c2v, d2v, e2v, a2v) = (a2z, b2z, c2z, d2z, e2z)" by (rule prod_cases5)
  have 0: "ripemd160_rounds0 (ws16_of X) (r, r) = ((a1p, b1p, c1p, d1p, e1p), (a2p, b2p, c2p, d2p, e2p))"
    using l0 r0 unfolding r by (simp add: ripemd160_rounds0_lines [OF lX])
  have 1: "ripemd160_rounds1 (ws16_of X) ((a1p, b1p, c1p, d1p, e1p), (a2p, b2p, c2p, d2p, e2p)) = ((a1q, b1q, c1q, d1q, e1q), (a2q, b2q, c2q, d2q, e2q))"
    using l1 r1 by (simp add: ripemd160_rounds1_lines [OF lX])
  have 2: "ripemd160_rounds2 (ws16_of X) ((a1q, b1q, c1q, d1q, e1q), (a2q, b2q, c2q, d2q, e2q)) = ((a1u, b1u, c1u, d1u, e1u), (a2u, b2u, c2u, d2u, e2u))"
    using l2 r2 by (simp add: ripemd160_rounds2_lines [OF lX])
  have 3: "ripemd160_rounds3 (ws16_of X) ((a1u, b1u, c1u, d1u, e1u), (a2u, b2u, c2u, d2u, e2u)) = ((a1v, b1v, c1v, d1v, e1v), (a2v, b2v, c2v, d2v, e2v))"
    using l3 r3 by (simp add: ripemd160_rounds3_lines [OF lX])
  have 4: "ripemd160_rounds4 (ws16_of X) ((a1v, b1v, c1v, d1v, e1v), (a2v, b2v, c2v, d2v, e2v)) = ((a1z, b1z, c1z, d1z, e1z), (a2z, b2z, c2z, d2z, e2z))"
    using l4 r4 by (simp add: ripemd160_rounds4_lines [OF lX])
  show ?thesis
    unfolding ripemd160_Transform_def rmd_block_def X_def [symmetric] w Let_def r_def [symmetric] 0 1 2 3 4
    by (simp add: l0 l1 [simplified] l2 l3 l4 r0 r1 [simplified] r2 r3 r4)
qed

lemma CRIPEMD160_full_blocks_simps:
  "length d < 64 \<Longrightarrow> CRIPEMD160_full_blocks h d = (h, d)"
  "length b = 64 \<Longrightarrow> CRIPEMD160_full_blocks h (b @ d) =
     CRIPEMD160_full_blocks (h\<lparr>hs_s := ripemd160_Transform (hs_s h) b, hs_bytes := hs_bytes h + word_of_nat 64\<rparr>) d"
  by (subst CRIPEMD160_full_blocks.simps; simp)+

interpretation rmd160h: block_hasher 64 ripemd160_Transform CRIPEMD160_full_blocks CRIPEMD160_Write
proof
  fix h :: "u32 hasher" and d :: bytes
  assume "unat (hs_bytes h) mod 64 = 0 \<or> unat (hs_bytes h) mod 64 + length d < 64"
  moreover obtain h1 d1 where "CRIPEMD160_full_blocks h d = (h1, d1)" by (rule prod.exhaust)
  moreover have "unat (hs_bytes h1) mod 64 = unat (hs_bytes h) mod 64"
    if "CRIPEMD160_full_blocks h d = (h1, d1)" for h1 d1 using that
  proof (induction h d arbitrary: h1 d1 rule: CRIPEMD160_full_blocks.induct)
    case (1 h d)
    have z: "unat (hs_bytes h + 64) mod 64 = unat (hs_bytes h) mod 64"
      using unat_add_mod [of 64 "hs_bytes h" 64] by simp
    show ?case
    proof (cases "64 \<le> length d")
      case True
      then show ?thesis
        using "1.IH" [OF True, of h1 d1] "1.prems" z by (simp add: CRIPEMD160_full_blocks.simps [of h d])
    next
      case False
      then show ?thesis using "1.prems" by (simp add: CRIPEMD160_full_blocks.simps [of h d])
    qed
  qed
  ultimately show "CRIPEMD160_Write h d = (case CRIPEMD160_full_blocks h d of (h, d) \<Rightarrow>
        if d = [] then Some h
        else do { buf \<leftarrow> memcpy (hs_buf h) (int (unat (hs_bytes h) mod 64)) d 0 (int (length d));
                  Some (h\<lparr>hs_buf := buf, hs_bytes := hs_bytes h + word_of_nat (length d)\<rparr>) })"
    by (auto simp: CRIPEMD160_Write_def Let_def)
next
  fix h :: "u32 hasher" and d :: bytes and k
  assume k: "unat (hs_bytes h) mod 64 = k" "k \<noteq> 0" "64 \<le> k + length d" "length (hs_buf h) = 64"
  have "k < 64" using k(1) by auto
  show "\<exists>buf. memcpy (hs_buf h) (int k) d 0 (int (64 - k)) = Some buf \<and>
        CRIPEMD160_Write h d = CRIPEMD160_Write (h\<lparr>hs_s := ripemd160_Transform (hs_s h) buf, hs_buf := buf, hs_bytes := hs_bytes h + word_of_nat (64 - k)\<rparr>) (drop (64 - k) d)"
    using k unat_add_mod [of 64 "hs_bytes h" "64 - k"] \<open>k < 64\<close>
    by (simp add: CRIPEMD160_Write_def [of h] CRIPEMD160_Write_def [of "_\<lparr>hs_bytes := _\<rparr>"] memcpy_def mod_add_left_eq [symmetric, of "unat _"] Let_def)
qed (simp_all add: CRIPEMD160_full_blocks_simps)

lemma length_ripemd160: "length (ripemd160_Transform s b) = 5" "length ripemd160_Initialize = 5"
  by (simp_all add: ripemd160_Transform_def ripemd160_Initialize_def Let_def split: prod.split)

lemma CRIPEMD160_represents: "length junk = 64 \<Longrightarrow> represents 64 ripemd160_Transform ripemd160_Initialize (CRIPEMD160 junk) []"
  unfolding CRIPEMD160_def by (rule rmd160h.represents_init)

lemma CRIPEMD160_Finalize_spec:
  assumes "represents 64 ripemd160_Transform ripemd160_Initialize h m"
  obtains h' where "CRIPEMD160_Finalize h = Some (h', rmd160 m)" "length (hs_buf h') = 64"
proof -
  let ?lf = "wlist 8 (8 * length m)"
  have c: "hs_bytes h = word_of_nat (length m)" using assms(1) by (rule rmd160h.represents_count)
  have lf: "WriteLE64 (push_bit 3 (hs_bytes h)) = ?lf"
    unfolding c by (rule WriteLE64_bits)
  define n where "n = 1 + (119 - unat (hs_bytes h) mod 64) mod 64"
  obtain h1 h2 where w: "rd (0x80 # replicate (64 - 1) 0) n = Some (take n (0x80 # replicate (64 - 1) 0))"
      "CRIPEMD160_Write h (take n (0x80 # replicate (64 - 1) 0)) = Some h1" "CRIPEMD160_Write h1 ?lf = Some h2"
      "hs_s h2 = md_hash 64 ripemd160_Transform ripemd160_Initialize (md_pad 64 ?lf m)" "length (hs_buf h2) = 64"
    by (rule rmd160h.Write_padding [OF assms(1), of n ?lf]) (auto simp: n_def)
  have tr: "ripemd160_Transform = rmd_block" by (intro ext) (rule ripemd160_Transform_spec)
  have l5: "length (hs_s h2) = 5"
    unfolding w(4) md_hash_def by (rule length_foldl_const) (simp_all add: length_ripemd160)
  have f: "rmd160 m = concat (map WriteLE32 (hs_s h2))"
    unfolding w(4) rmd160_def ripemd160_Initialize_def tr by simp
  have "CRIPEMD160_Finalize h = Some (h2, rmd160 m)"
    using w(1-3) unfolding CRIPEMD160_Finalize_def f lf n_def [symmetric] Let_def by (simp add: concat_map_nth [OF l5])
  then show ?thesis using w(5) by (rule that)
qed

interpretation rmd160d: stream_digest "represents 64 ripemd160_Transform ripemd160_Initialize" CRIPEMD160_Write CRIPEMD160_Finalize rmd160 "\<lambda>m. True"
proof
  fix h :: "u32 hasher" and m d :: bytes
  assume r: "represents 64 ripemd160_Transform ripemd160_Initialize h m"
  show "\<exists>h'. CRIPEMD160_Write h d = Some h' \<and> represents 64 ripemd160_Transform ripemd160_Initialize h' (m @ d)"
    by (rule rmd160h.Write_represents [OF r, of d]) blast
next
  fix h :: "u32 hasher" and m :: bytes
  assume r: "represents 64 ripemd160_Transform ripemd160_Initialize h m"
  show "\<exists>h'. CRIPEMD160_Finalize h = Some (h', rmd160 m)"
    by (rule CRIPEMD160_Finalize_spec [OF r]) blast
qed

lemma length_rmd160: "length (rmd160 m) = 20"
proof -
  have "length (md_hash 64 rmd_block s0 p) = 5" if "length s0 = 5" for s0 p
    unfolding md_hash_def using that
    by (intro length_foldl_const) (simp_all add: rmd_block_def Let_def split: prod.split)
  then show ?thesis by (simp add: rmd160_def length_concat comp_def sum_list_triv)
qed

end
