(* ===== verification/Hash.thy ===== *)
theory Hash
  imports Ripemd160
begin

text \<open>
  \<^verbatim>\<open>hash.h\<close> and \<^verbatim>\<open>hash.cpp\<close>: the double SHA-256 \<^verbatim>\<open>CHash256\<close>, the address hash \<^verbatim>\<open>CHash160\<close>, the
  helpers \<^verbatim>\<open>Hash\<close> and \<^verbatim>\<open>Hash160\<close>, the hashing stream \<^verbatim>\<open>CHashWriter\<close>, \<^verbatim>\<open>MurmurHash3\<close> and the key
  derivation hash \<^verbatim>\<open>BIP32Hash\<close>. Objects with uninitialised buffers take the content of the buffer as
  an argument; the theorems hold for every content.
\<close>

section \<open>CHash256 and CHash160\<close>

definition CHash256_Finalize :: "u32 hasher \<Rightarrow> (u32 hasher \<times> bytes) option" where
  "CHash256_Finalize sha = do {
     (sha, buf) \<leftarrow> CSHA256_Finalize sha;
     sha \<leftarrow> CSHA256_Write (CSHA256_Reset sha) buf;
     CSHA256_Finalize sha
   }"

definition CHash256_Write :: "u32 hasher \<Rightarrow> bytes \<Rightarrow> u32 hasher option" where
  "CHash256_Write sha data = CSHA256_Write sha data"

definition CHash256_Reset :: "u32 hasher \<Rightarrow> u32 hasher" where
  "CHash256_Reset sha = CSHA256_Reset sha"

definition CHash160_Finalize :: "bytes \<Rightarrow> u32 hasher \<Rightarrow> (u32 hasher \<times> bytes) option" where
  "CHash160_Finalize junk sha = do {
     (sha, buf) \<leftarrow> CSHA256_Finalize sha;
     r \<leftarrow> CRIPEMD160_Write (CRIPEMD160 junk) buf;
     (r, hash) \<leftarrow> CRIPEMD160_Finalize r;
     Some (sha, hash)
   }"

definition CHash160_Write :: "u32 hasher \<Rightarrow> bytes \<Rightarrow> u32 hasher option" where
  "CHash160_Write sha data = CSHA256_Write sha data"

definition CHash160_Reset :: "u32 hasher \<Rightarrow> u32 hasher" where
  "CHash160_Reset sha = CSHA256_Reset sha"

text \<open>\<^verbatim>\<open>Hash\<close> of one, two and three byte ranges, and \<^verbatim>\<open>Hash160\<close>.\<close>

definition Hash1 :: "bytes \<Rightarrow> bytes \<Rightarrow> bytes option" where
  "Hash1 junk p = do {
     h \<leftarrow> CHash256_Write (CSHA256 junk) p;
     (h, result) \<leftarrow> CHash256_Finalize h;
     Some result
   }"

definition Hash2 :: "bytes \<Rightarrow> bytes \<Rightarrow> bytes \<Rightarrow> bytes option" where
  "Hash2 junk p1 p2 = do {
     h \<leftarrow> CHash256_Write (CSHA256 junk) p1;
     h \<leftarrow> CHash256_Write h p2;
     (h, result) \<leftarrow> CHash256_Finalize h;
     Some result
   }"

definition Hash3 :: "bytes \<Rightarrow> bytes \<Rightarrow> bytes \<Rightarrow> bytes \<Rightarrow> bytes option" where
  "Hash3 junk p1 p2 p3 = do {
     h \<leftarrow> CHash256_Write (CSHA256 junk) p1;
     h \<leftarrow> CHash256_Write h p2;
     h \<leftarrow> CHash256_Write h p3;
     (h, result) \<leftarrow> CHash256_Finalize h;
     Some result
   }"

definition Hash160 :: "bytes \<Rightarrow> bytes \<Rightarrow> bytes \<Rightarrow> bytes option" where
  "Hash160 junk junkr p = do {
     h \<leftarrow> CHash160_Write (CSHA256 junk) p;
     (h, result) \<leftarrow> CHash160_Finalize junkr h;
     Some result
   }"

section \<open>CHashWriter\<close>

record CHashWriter =
  hw_ctx :: "u32 hasher"
  hw_nType :: int
  hw_nVersion :: int

definition CHashWriter_ctor :: "bytes \<Rightarrow> int \<Rightarrow> int \<Rightarrow> CHashWriter" where
  "CHashWriter_ctor junk nTypeIn nVersionIn = \<lparr>hw_ctx = CSHA256 junk, hw_nType = nTypeIn, hw_nVersion = nVersionIn\<rparr>"

definition CHashWriter_write :: "CHashWriter \<Rightarrow> bytes \<Rightarrow> CHashWriter option" where
  "CHashWriter_write w pch = do {
     c \<leftarrow> CHash256_Write (hw_ctx w) pch;
     Some (w\<lparr>hw_ctx := c\<rparr>)
   }"

definition CHashWriter_GetHash :: "CHashWriter \<Rightarrow> (CHashWriter \<times> bytes) option" where
  "CHashWriter_GetHash w = do {
     (c, result) \<leftarrow> CHash256_Finalize (hw_ctx w);
     Some (w\<lparr>hw_ctx := c\<rparr>, result)
   }"

text \<open>
  \<^verbatim>\<open>SerializeHash\<close> of an object whose serialization, for the given type and version, is the
  sequence \<open>ser\<close> of \<^verbatim>\<open>write\<close> calls.
\<close>

definition SerializeHash :: "bytes \<Rightarrow> (int \<Rightarrow> int \<Rightarrow> bytes list) \<Rightarrow> int \<Rightarrow> int \<Rightarrow> bytes option" where
  "SerializeHash junk ser nType nVersion = do {
     ss \<leftarrow> write_all CHashWriter_write (CHashWriter_ctor junk nType nVersion) (ser nType nVersion);
     (ss, result) \<leftarrow> CHashWriter_GetHash ss;
     Some result
   }"

section \<open>MurmurHash3\<close>

definition ROTL32 :: "u32 \<Rightarrow> nat \<Rightarrow> u32" where
  "ROTL32 x r = push_bit r x OR drop_bit (32 - r) x"

text \<open>The mixing of one block into \<^verbatim>\<open>h1\<close>, and the loop over the \<open>n\<close> whole blocks.\<close>

definition murmur_block :: "u32 \<Rightarrow> u32 \<Rightarrow> u32" where
  "murmur_block h1 k1 =
     (let k1 = k1 * 0xcc9e2d51;
          k1 = ROTL32 k1 15;
          k1 = k1 * 0x1b873593;
          h1 = h1 XOR k1;
          h1 = ROTL32 h1 13
      in h1 * 5 + 0xe6546b64)"

primrec murmur_body :: "nat \<Rightarrow> u32 \<Rightarrow> bytes \<Rightarrow> u32" where
  "murmur_body 0 h1 blocks = h1"
| "murmur_body (Suc n) h1 blocks = murmur_body n (murmur_block h1 (ReadLE32 blocks)) (drop 4 blocks)"

definition murmur_tail :: "u32 \<Rightarrow> bytes \<Rightarrow> u32" where
  "murmur_tail h1 tail =
     (let k1 = (0 :: u32);
          k1 = (if length tail = 3 then k1 XOR push_bit 16 (ucast (tail ! 2)) else k1);
          k1 = (if length tail \<ge> 2 then k1 XOR push_bit 8 (ucast (tail ! 1)) else k1)
      in if length tail \<ge> 1
         then let k1 = k1 XOR ucast (tail ! 0);
                  k1 = k1 * 0xcc9e2d51;
                  k1 = ROTL32 k1 15;
                  k1 = k1 * 0x1b873593
              in h1 XOR k1
         else h1)"

definition murmur_fmix :: "u32 \<Rightarrow> u32" where
  "murmur_fmix h1 =
     (let h1 = h1 XOR drop_bit 16 h1;
          h1 = h1 * 0x85ebca6b;
          h1 = h1 XOR drop_bit 13 h1;
          h1 = h1 * 0xc2b2ae35
      in h1 XOR drop_bit 16 h1)"

definition MurmurHash3 :: "u32 \<Rightarrow> bytes \<Rightarrow> u32" where
  "MurmurHash3 nHashSeed vDataToHash =
     (let n = length vDataToHash;
          h1 = nHashSeed;
          h1 = (if 0 < n
                then murmur_tail (murmur_body (n div 4) h1 vDataToHash) (drop (n div 4 * 4) vDataToHash)
                else h1)
      in murmur_fmix (h1 XOR word_of_nat n))"

section \<open>BIP32Hash\<close>

definition BIP32Hash :: "bytes \<Rightarrow> bytes \<Rightarrow> bytes \<Rightarrow> bytes \<Rightarrow> u32 \<Rightarrow> byte \<Rightarrow> bytes \<Rightarrow> bytes option" where
  "BIP32Hash jo ji jk chainCode nChild header data =
     (let num = [ucast (drop_bit 24 nChild AND 0xFF), ucast (drop_bit 16 nChild AND 0xFF),
                 ucast (drop_bit 8 nChild AND 0xFF), ucast (drop_bit 0 nChild AND 0xFF)]
      in do {
        h \<leftarrow> CHMAC_SHA512 jo ji jk chainCode;
        h \<leftarrow> CHMAC_SHA512_Write h [header];
        h \<leftarrow> CHMAC_SHA512_Write h (take 32 data);
        h \<leftarrow> CHMAC_SHA512_Write h num;
        (h, output) \<leftarrow> CHMAC_SHA512_Finalize h;
        Some output
      })"

section \<open>What the hash functions compute\<close>

lemma Reset_represents:
  "length (hs_buf h) = 64 \<Longrightarrow> represents 64 sha256_Transform sha256_Initialize (CSHA256_Reset h) []"
  using CSHA256_represents [of "hs_buf h"] by (cases h) (simp add: CSHA256_Reset_def CSHA256_def)

interpretation hash256: stream_digest "represents 64 sha256_Transform sha256_Initialize" CHash256_Write CHash256_Finalize
  "\<lambda>m. fips_sha256 (fips_sha256 m)" "\<lambda>m. True"
proof
  fix h :: "u32 hasher" and m d :: bytes
  assume r: "represents 64 sha256_Transform sha256_Initialize h m"
  show "\<exists>h'. CHash256_Write h d = Some h' \<and> represents 64 sha256_Transform sha256_Initialize h' (m @ d)"
    unfolding CHash256_Write_def by (rule sha256d.write_law [OF r])
  obtain h1 where h1: "CSHA256_Finalize h = Some (h1, fips_sha256 m)" "length (hs_buf h1) = 64"
    by (rule CSHA256_Finalize_fips [OF r])
  from sha256d.digest_one [OF Reset_represents [OF h1(2)], of "fips_sha256 m"]
  show "\<exists>h'. CHash256_Finalize h = Some (h', fips_sha256 (fips_sha256 m))"
    by (auto simp: CHash256_Finalize_def h1(1))
qed

lemma Hash1_sha256: "length junk = 64 \<Longrightarrow> Hash1 junk p = Some (fips_sha256 (fips_sha256 p))"
  using hash256.digest_one [OF CSHA256_represents, of junk p] by (auto simp: Hash1_def)

lemma hash160_law:
  assumes "length junkr = 64" and r: "represents 64 sha256_Transform sha256_Initialize h m"
  shows "\<exists>h'. CHash160_Finalize junkr h = Some (h', rmd160 (fips_sha256 m))"
proof -
  obtain h1 where "CSHA256_Finalize h = Some (h1, fips_sha256 m)"
    using CSHA256_Finalize_fips [OF r] by blast
  then show ?thesis
    using rmd160d.digest_one [OF CRIPEMD160_represents [OF assms(1)], of "fips_sha256 m"]
    by (auto simp: CHash160_Finalize_def)
qed

lemma Hash160_spec: "length junk = 64 \<Longrightarrow> length junkr = 64 \<Longrightarrow> Hash160 junk junkr p = Some (rmd160 (fips_sha256 p))"
  using sha256d.write_law [OF CSHA256_represents, of junk p] hash160_law
  by (fastforce simp: Hash160_def CHash160_Write_def)

lemma CHashWriter_write_all:
  "write_all CHashWriter_write w ds = map_option (\<lambda>c. w\<lparr>hw_ctx := c\<rparr>) (write_all CHash256_Write (hw_ctx w) ds)"
  by (induction ds arbitrary: w) (auto simp: CHashWriter_write_def split: Option.bind_split)

lemma SerializeHash_sha256:
  assumes "length junk = 64"
  shows "SerializeHash junk ser nType nVersion = Some (fips_sha256 (fips_sha256 (concat (ser nType nVersion))))"
  using hash256.digest_chunks [OF CSHA256_represents [OF assms], of "ser nType nVersion"]
  unfolding SerializeHash_def CHashWriter_write_all CHashWriter_GetHash_def CHashWriter_ctor_def
  by (auto split: Option.bind_splits)

lemma byte_of_word: "(ucast (drop_bit k (w :: u32) AND 0xFF) :: byte) = word_of_nat (unat w div 2 ^ k)"
proof -
  have "(0xFF :: u32) = mask 8" by (simp add: mask_eq_exp_minus_1)
  then have "(ucast (drop_bit k w AND 0xFF) :: byte) = ucast (take_bit 8 (drop_bit k w))"
    by (simp only: take_bit_eq_mask)
  also have "\<dots> = ucast (drop_bit k w)" by (rule bit_word_eqI) (auto simp: bit_simps)
  also have "\<dots> = word_of_nat (unat (drop_bit k w))" by (simp only: of_nat_unat)
  finally show ?thesis by (simp only: unat_shr)
qed

lemma wlist_4: "(wlist 4 v :: bytes) = [word_of_nat v, word_of_nat (v div 2 ^ 8), word_of_nat (v div 2 ^ 16), word_of_nat (v div 2 ^ 24)]"
proof -
  have four: "(4 :: nat) = Suc (Suc (Suc (Suc 0)))" by simp
  show ?thesis unfolding four wlist.simps by (simp add: div_mult2_eq [symmetric])
qed

lemma BE32_bytes:
  "[ucast (drop_bit 24 n AND 0xFF), ucast (drop_bit 16 n AND 0xFF), ucast (drop_bit 8 n AND 0xFF), ucast (drop_bit 0 n AND 0xFF)] = WriteBE32 n"
  unfolding byte_of_word WriteBE32_def wlist_4 by simp

lemma BIP32Hash_hmac:
  assumes "length jo = 128" "length ji = 128" "length jk = 128" "length chainCode = 32" "length data = 32"
  shows "BIP32Hash jo ji jk chainCode nChild header data =
    Some (fips_hmac fips_sha512 128 chainCode (header # data @ WriteBE32 nChild))"
proof -
  have "map_option snd (do { h \<leftarrow> CHMAC_SHA512 jo ji jk chainCode;
      h \<leftarrow> write_all CHMAC_SHA512_Write h [[header], data, WriteBE32 nChild]; CHMAC_SHA512_Finalize h }) =
    Some (fips_hmac fips_sha512 128 chainCode (concat [[header], data, WriteBE32 nChild]))"
    by (rule CHMAC_SHA512_fips) (use assms in simp_all)
  moreover have "BIP32Hash jo ji jk chainCode nChild header data =
    map_option snd (do { h \<leftarrow> CHMAC_SHA512 jo ji jk chainCode;
      h \<leftarrow> write_all CHMAC_SHA512_Write h [[header], data, WriteBE32 nChild]; CHMAC_SHA512_Finalize h })"
    unfolding BIP32Hash_def BE32_bytes Let_def using assms
    by (simp split: Option.bind_split)
  ultimately show ?thesis by simp
qed

section \<open>Properties\<close>

text \<open>
  C2. SHA-256, incremental: whatever the uninitialised buffer holds and however the message is cut into
  writes, every access of \<^verbatim>\<open>Write\<close> and \<^verbatim>\<open>Finalize\<close> is in bounds and the digest is the SHA-256 of FIPS 180-4
  of the whole message.
\<close>

theorem CSHA256_stream:
  assumes "length junk = 64"
  shows "map_option snd (do { h \<leftarrow> write_all CSHA256_Write (CSHA256 junk) ds; CSHA256_Finalize h }) =
    Some (fips_sha256 (concat ds))"
  by (rule sha256d.digest_chunks) (simp_all add: CSHA256_represents assms)

theorem CSHA256_stream_witness:
  "length (replicate 64 (0 :: byte)) = 64 \<and>
   map_option snd (do { h \<leftarrow> write_all CSHA256_Write (CSHA256 (replicate 64 0)) [[0x61], [0x62, 0x63]]; CSHA256_Finalize h }) =
     Some (fips_sha256 [0x61, 0x62, 0x63])"
  using CSHA256_stream [of "replicate 64 0" "[[0x61], [0x62, 0x63]]"] by simp

text \<open>
  C27. SHA-1 and RIPEMD-160, incremental: the digests are those of FIPS 180-4 and of the RIPEMD-160 tables,
  whatever the uninitialised buffers hold and however the message is cut into writes.
\<close>

theorem CSHA1_CRIPEMD160_stream:
  assumes "length junk = 64"
  shows "map_option snd (do { h \<leftarrow> write_all CSHA1_Write (CSHA1 junk) ds; CSHA1_Finalize h }) = Some (fips_sha1 (concat ds)) \<and>
    map_option snd (do { h \<leftarrow> write_all CRIPEMD160_Write (CRIPEMD160 junk) ds; CRIPEMD160_Finalize h }) = Some (rmd160 (concat ds))"
proof
  show "map_option snd (do { h \<leftarrow> write_all CSHA1_Write (CSHA1 junk) ds; CSHA1_Finalize h }) = Some (fips_sha1 (concat ds))"
    by (rule sha1d.digest_chunks) (simp_all add: CSHA1_represents assms)
  show "map_option snd (do { h \<leftarrow> write_all CRIPEMD160_Write (CRIPEMD160 junk) ds; CRIPEMD160_Finalize h }) = Some (rmd160 (concat ds))"
    by (rule rmd160d.digest_chunks) (simp_all add: CRIPEMD160_represents assms)
qed

theorem CSHA1_CRIPEMD160_stream_witness:
  "length (replicate 64 (7 :: byte)) = 64 \<and>
   map_option snd (do { h \<leftarrow> write_all CRIPEMD160_Write (CRIPEMD160 (replicate 64 7)) [[0x61], []]; CRIPEMD160_Finalize h }) =
     Some (rmd160 [0x61])"
  using CSHA1_CRIPEMD160_stream [of "replicate 64 7" "[[0x61], []]"] by simp

text \<open>
  C34. \<^verbatim>\<open>BIP32Hash\<close> returns HMAC-SHA512 (FIPS 198) under the chain code of the header byte, the 32 data bytes
  and the big endian child number, whatever the three uninitialised buffers hold.
\<close>

theorem BIP32Hash_spec:
  assumes "length jo = 128" "length ji = 128" "length jk = 128" "length chainCode = 32" "length data = 32"
  shows "BIP32Hash jo ji jk chainCode nChild header data =
    Some (fips_hmac fips_sha512 128 chainCode (header # data @ WriteBE32 nChild))"
  using assms by (rule BIP32Hash_hmac)

theorem BIP32Hash_spec_witness:
  "length (replicate 128 (0 :: byte)) = 128 \<and> length (replicate 32 (1 :: byte)) = 32 \<and>
   BIP32Hash (replicate 128 0) (replicate 128 0) (replicate 128 0) (replicate 32 1) 5 0 (replicate 32 1) =
     Some (fips_hmac fips_sha512 128 (replicate 32 1) (0 # replicate 32 1 @ WriteBE32 5))"
  using BIP32Hash_spec [of "replicate 128 0" "replicate 128 0" "replicate 128 0" "replicate 32 1" "replicate 32 1" 5 0] by simp

text \<open>
  C36. \<^verbatim>\<open>Hash\<close> of one, two or three ranges and the hashing stream of \<^verbatim>\<open>SerializeHash\<close> return the double
  SHA-256 of the concatenation, and \<^verbatim>\<open>Hash160\<close> returns RIPEMD-160 of SHA-256.
\<close>

theorem Hash_functions_spec:
  assumes "length junk = 64" "length junkr = 64"
  shows "Hash1 junk p = Some (fips_sha256 (fips_sha256 p)) \<and>
    Hash2 junk p q = Some (fips_sha256 (fips_sha256 (p @ q))) \<and>
    Hash3 junk p q r = Some (fips_sha256 (fips_sha256 (p @ q @ r))) \<and>
    SerializeHash junk ser nType nVersion = Some (fips_sha256 (fips_sha256 (concat (ser nType nVersion)))) \<and>
    Hash160 junk junkr p = Some (rmd160 (fips_sha256 p))"
proof -
  have rep: "represents 64 sha256_Transform sha256_Initialize (CSHA256 junk) []"
    using assms(1) by (rule CSHA256_represents)
  note chunks = hash256.digest_chunks [OF rep]
  have "Hash2 junk p q = Some (fips_sha256 (fips_sha256 (p @ q)))"
    using chunks [of "[p, q]"] unfolding Hash2_def by (auto split: Option.bind_splits)
  moreover have "Hash3 junk p q r = Some (fips_sha256 (fips_sha256 (p @ q @ r)))"
    using chunks [of "[p, q, r]"] unfolding Hash3_def by (auto split: Option.bind_splits)
  ultimately show ?thesis using Hash1_sha256 Hash160_spec SerializeHash_sha256 assms by simp
qed

theorem Hash_functions_spec_witness:
  "length (replicate 64 (0 :: byte)) = 64 \<and>
   Hash2 (replicate 64 0) [1] [2, 3] = Some (fips_sha256 (fips_sha256 [1, 2, 3])) \<and>
   Hash160 (replicate 64 0) (replicate 64 0) [] = Some (rmd160 (fips_sha256 []))"
  using Hash_functions_spec [of "replicate 64 0" "replicate 64 0" "[1]" "[2, 3]"]
    Hash_functions_spec [of "replicate 64 0" "replicate 64 0" "[]"] by simp

end
