(* ===== verification/Serialize.thy ===== *)
theory Serialize
  imports Wallet_Prelude
begin

text \<open>
  \<^verbatim>\<open>serialize.h\<close>: fixed width integers, compact sizes, variable length integers, byte strings and vectors.
  A stream that is written is the list of bytes appended to it; a stream that is read is the list
  of bytes left in it, and reading past its end is the exception of \<^verbatim>\<open>CDataStream::read\<close> (an \<open>Inl\<close>).
  The locale \<open>serializable\<close> is the contract between a type and the templates that use its
  serialization.
\<close>

section \<open>Streams and fixed width integers\<close>

type_synonym 'a reader = "bytes \<Rightarrow> string + 'a \<times> bytes"

definition stream_read :: "nat \<Rightarrow> bytes reader" where
  "stream_read n s =
     (if n \<le> length s then Inr (take n s, drop n s) else Inl ''CDataStream::read(): end of data'')"

definition rbind :: "'a reader \<Rightarrow> ('a \<Rightarrow> 'b reader) \<Rightarrow> 'b reader" where
  "rbind m f s = (case m s of Inl e \<Rightarrow> Inl e | Inr (x, s') \<Rightarrow> f x s')"

definition rret :: "'a \<Rightarrow> 'a reader" where
  "rret x s = Inr (x, s)"

definition rfail :: "string \<Rightarrow> 'a reader" where
  "rfail e s = Inl e"

definition MAX_SIZE :: nat where
  "MAX_SIZE = 0x02000000"

definition ser_writedata8 :: "byte \<Rightarrow> bytes" where
  "ser_writedata8 obj = [obj]"

definition ser_writedata16 :: "u16 \<Rightarrow> bytes" where
  "ser_writedata16 obj = wlist 2 (unat obj)"

definition ser_writedata32 :: "u32 \<Rightarrow> bytes" where
  "ser_writedata32 obj = wlist 4 (unat obj)"

definition ser_writedata64 :: "u64 \<Rightarrow> bytes" where
  "ser_writedata64 obj = wlist 8 (unat obj)"

definition ser_readdata8 :: "byte reader" where
  "ser_readdata8 = rbind (stream_read 1) (\<lambda>b. rret (hd b))"

definition ser_readdata16 :: "u16 reader" where
  "ser_readdata16 = rbind (stream_read 2) (\<lambda>b. rret (word_of_nat (wval b)))"

definition ser_readdata32 :: "u32 reader" where
  "ser_readdata32 = rbind (stream_read 4) (\<lambda>b. rret (word_of_nat (wval b)))"

definition ser_readdata64 :: "u64 reader" where
  "ser_readdata64 = rbind (stream_read 8) (\<lambda>b. rret (word_of_nat (wval b)))"

text \<open>\<^verbatim>\<open>bool\<close> is one byte, and any non-zero byte reads as true.\<close>

definition Serialize_bool :: "bool \<Rightarrow> bytes" where
  "Serialize_bool a = ser_writedata8 (if a then 1 else 0)"

definition Unserialize_bool :: "bool reader" where
  "Unserialize_bool = rbind ser_readdata8 (\<lambda>f. rret (f \<noteq> 0))"

section \<open>Compact sizes\<close>

definition GetSizeOfCompactSize :: "u64 \<Rightarrow> nat" where
  "GetSizeOfCompactSize nSize =
     (if nSize < 253 then 1
      else if nSize \<le> 0xFFFF then 1 + 2
      else if nSize \<le> 0xFFFFFFFF then 1 + 4
      else 1 + 8)"

definition WriteCompactSize :: "u64 \<Rightarrow> bytes" where
  "WriteCompactSize nSize =
     (if nSize < 253 then ser_writedata8 (ucast nSize)
      else if nSize \<le> 0xFFFF then ser_writedata8 253 @ ser_writedata16 (ucast nSize)
      else if nSize \<le> 0xFFFFFFFF then ser_writedata8 254 @ ser_writedata32 (ucast nSize)
      else ser_writedata8 255 @ ser_writedata64 nSize)"

definition ReadCompactSize :: "u64 reader" where
  "ReadCompactSize =
     rbind ser_readdata8 (\<lambda>chSize.
     rbind (if chSize < 253 then rret (ucast chSize)
            else if chSize = 253 then
              rbind ser_readdata16 (\<lambda>r. let nSizeRet = ucast r in
                if nSizeRet < 253 then rfail ''non-canonical ReadCompactSize()'' else rret nSizeRet)
            else if chSize = 254 then
              rbind ser_readdata32 (\<lambda>r. let nSizeRet = ucast r in
                if nSizeRet < 0x10000 then rfail ''non-canonical ReadCompactSize()'' else rret nSizeRet)
            else
              rbind ser_readdata64 (\<lambda>nSizeRet.
                if nSizeRet < 0x100000000 then rfail ''non-canonical ReadCompactSize()'' else rret nSizeRet))
       (\<lambda>nSizeRet.
          if word_of_nat MAX_SIZE < nSizeRet then rfail ''ReadCompactSize(): size too large''
          else rret nSizeRet))"

section \<open>Variable length integers\<close>

text \<open>One step of the encoding loops: the value above \<open>0x7F\<close> becomes smaller.\<close>

lemma varint_gt:
  fixes n :: "'a::len word"
  assumes "\<not> n \<le> 0x7F"
  shows "128 \<le> unat n"
proof (cases "7 \<le> LENGTH('a)")
  case True
  then have "(2 :: nat) ^ 7 \<le> 2 ^ LENGTH('a)" by (rule power_increasing) simp
  then have "unat (0x7F :: 'a word) = 127" using unat_of_nat [where 'a = 'a, of 127] by simp
  with assms show ?thesis by (simp add: word_le_nat_alt)
next
  case False
  have "x \<in> {1, 2, 3, 4, 5, 6}" if "\<not> 7 \<le> x" "0 < x" for x :: nat
    using that by (simp only: insert_iff empty_iff) presburger
  with False have "LENGTH('a) \<in> {1, 2, 3, 4, 5, 6}" using len_gt_0 [where 'a = 'a] by blast
  then have "unat (0x7F :: 'a word) = 2 ^ LENGTH('a) - 1" using unat_of_nat [where 'a = 'a, of 127] by auto
  moreover have "unat n \<le> 2 ^ LENGTH('a) - 1" using unat_lt2p [of n] by linarith
  ultimately show ?thesis using assms by (simp add: word_le_nat_alt)
qed

lemma varint_next:
  fixes n :: "'a::len word"
  assumes "\<not> n \<le> 0x7F"
  shows "unat (drop_bit 7 n - 1) = unat n div 128 - 1"
proof -
  have g: "1 \<le> unat n div 128" using varint_gt [OF assms] by simp
  have "unat (drop_bit 7 n) = unat n div 128" by (simp add: unat_shr)
  moreover from this g have "drop_bit 7 n \<noteq> 0" by auto
  ultimately show ?thesis by (simp add: unat_minus_one)
qed

text \<open>
  The type parameter \<^verbatim>\<open>I\<close> is an unsigned word type. The buffer \<^verbatim>\<open>tmp\<close> has \<^verbatim>\<open>(sizeof(n)*8+6)/7\<close> bytes;
  writing past it is \<open>None\<close>. The last loop of \<^verbatim>\<open>WriteVarInt\<close> outputs \<^verbatim>\<open>tmp\<close> from the last byte to the
  first, so \<open>acc\<close> holds the bytes in output order.
\<close>

function GetSizeOfVarInt_loop :: "nat \<Rightarrow> 'a::len word \<Rightarrow> nat" where
  "GetSizeOfVarInt_loop nRet n =
     (let nRet = nRet + 1 in
      if n \<le> 0x7F then nRet else GetSizeOfVarInt_loop nRet (drop_bit 7 n - 1))"
  by pat_completeness auto
termination
proof (relation "measure (\<lambda>(nRet, n). unat n)", goal_cases)
  case (2 nRet n)
  then show ?case using varint_gt [of n] varint_next [of n] by auto
qed simp

definition GetSizeOfVarInt :: "'a::len word \<Rightarrow> nat" where
  "GetSizeOfVarInt n = GetSizeOfVarInt_loop 0 n"

definition varint_tmp :: "'a::len word itself \<Rightarrow> nat" where
  "varint_tmp T = (LENGTH('a) + 6) div 7"

function WriteVarInt_loop :: "nat \<Rightarrow> 'a::len word \<Rightarrow> bytes \<Rightarrow> bytes option" where
  "WriteVarInt_loop len n acc =
     (if varint_tmp TYPE('a word) \<le> len then None
      else let acc = (ucast (n AND 0x7F) OR (if len \<noteq> 0 then 0x80 else 0x00)) # acc in
        if n \<le> 0x7F then Some acc
        else WriteVarInt_loop (len + 1) (drop_bit 7 n - 1) acc)"
  by pat_completeness auto
termination by (relation "measure (\<lambda>(len, n, acc). varint_tmp TYPE('a word) - len)") auto

definition WriteVarInt :: "'a::len word \<Rightarrow> bytes option" where
  "WriteVarInt n = WriteVarInt_loop 0 n []"

fun ReadVarInt_loop :: "'a::len word \<Rightarrow> bytes \<Rightarrow> string + 'a word \<times> bytes" where
  "ReadVarInt_loop n [] = Inl ''CDataStream::read(): end of data''"
| "ReadVarInt_loop n (chData # s) =
     (let n = push_bit 7 n OR ucast (chData AND 0x7F) in
      if chData AND 0x80 \<noteq> 0 then ReadVarInt_loop (n + 1) s else Inr (n, s))"

definition ReadVarInt :: "'a::len word reader" where
  "ReadVarInt s = ReadVarInt_loop 0 s"

section \<open>Byte strings, vectors and pairs\<close>

text \<open>\<^verbatim>\<open>vector<unsigned char>\<close>, \<^verbatim>\<open>prevector\<close> of bytes and \<^verbatim>\<open>string\<close>: one blob after its size.\<close>

definition Serialize_bytes :: "bytes \<Rightarrow> bytes" where
  "Serialize_bytes v = WriteCompactSize (word_of_nat (length v)) @ v"

definition GetSerializeSize_bytes :: "bytes \<Rightarrow> nat" where
  "GetSerializeSize_bytes v = GetSizeOfCompactSize (word_of_nat (length v)) + length v"

text \<open>The blob is read in blocks of at most 5000000 bytes.\<close>

function Unserialize_blocks :: "nat \<Rightarrow> nat \<Rightarrow> bytes \<Rightarrow> bytes reader" where
  "Unserialize_blocks nSize i v s =
     (if i < nSize
      then let blk = min (nSize - i) (1 + 4999999) in
           case stream_read blk s of Inl e \<Rightarrow> Inl e | Inr (b, s) \<Rightarrow> Unserialize_blocks nSize (i + blk) (v @ b) s
      else Inr (v, s))"
  by pat_completeness auto
termination by (relation "measure (\<lambda>(nSize, i, v, s). nSize - i)") auto

definition Unserialize_bytes :: "bytes reader" where
  "Unserialize_bytes = rbind ReadCompactSize (\<lambda>nSize. Unserialize_blocks (unat nSize) 0 [])"

definition Unserialize_string :: "bytes reader" where
  "Unserialize_string = rbind ReadCompactSize (\<lambda>nSize. if nSize \<noteq> 0 then stream_read (unat nSize) else rret [])"

definition Unserialize_LimitedString :: "nat \<Rightarrow> bytes reader" where
  "Unserialize_LimitedString Limit = rbind ReadCompactSize (\<lambda>nSize.
     if Limit < unat nSize then rfail ''String length limit exceeded''
     else if nSize \<noteq> 0 then stream_read (unat nSize) else rret [])"

text \<open>
  Vectors of objects. \<open>c + 1\<close> is \<^verbatim>\<open>5000000 / sizeof(T)\<close>, the number of elements by which the vector
  is resized at a time.
\<close>

definition Serialize_vector :: "('a \<Rightarrow> bytes) \<Rightarrow> 'a list \<Rightarrow> bytes" where
  "Serialize_vector ser v = WriteCompactSize (word_of_nat (length v)) @ concat (map ser v)"

definition GetSerializeSize_vector :: "('a \<Rightarrow> nat) \<Rightarrow> 'a list \<Rightarrow> nat" where
  "GetSerializeSize_vector sz v = GetSizeOfCompactSize (word_of_nat (length v)) + sum_list (map sz v)"

primrec Unserialize_elems :: "'a reader \<Rightarrow> nat \<Rightarrow> 'a list \<Rightarrow> 'a list reader" where
  "Unserialize_elems unser 0 v = rret v"
| "Unserialize_elems unser (Suc k) v = rbind unser (\<lambda>x. Unserialize_elems unser k (v @ [x]))"

function Unserialize_mid :: "'a reader \<Rightarrow> nat \<Rightarrow> nat \<Rightarrow> nat \<Rightarrow> 'a list \<Rightarrow> 'a list reader" where
  "Unserialize_mid unser c nSize nMid v s =
     (if nMid < nSize
      then let nMid' = nMid + (c + 1);
               nMid' = (if nSize < nMid' then nSize else nMid')
           in case Unserialize_elems unser (nMid' - nMid) v s of
                Inl e \<Rightarrow> Inl e
              | Inr (v, s) \<Rightarrow> Unserialize_mid unser c nSize nMid' v s
      else Inr (v, s))"
  by pat_completeness auto
termination by (relation "measure (\<lambda>(unser, c, nSize, nMid, v, s). nSize - nMid)") auto

definition Unserialize_vector :: "'a reader \<Rightarrow> nat \<Rightarrow> 'a list reader" where
  "Unserialize_vector unser c = rbind ReadCompactSize (\<lambda>nSize. Unserialize_mid unser c (unat nSize) 0 [])"

definition Serialize_pair :: "('a \<Rightarrow> bytes) \<Rightarrow> ('b \<Rightarrow> bytes) \<Rightarrow> 'a \<times> 'b \<Rightarrow> bytes" where
  "Serialize_pair sa sb item = sa (fst item) @ sb (snd item)"

definition Unserialize_pair :: "'a reader \<Rightarrow> 'b reader \<Rightarrow> ('a \<times> 'b) reader" where
  "Unserialize_pair ua ub = rbind ua (\<lambda>x. rbind ub (\<lambda>y. rret (x, y)))"

declare GetSizeOfVarInt_loop.simps [simp del] Unserialize_blocks.simps [simp del] Unserialize_mid.simps [simp del] WriteVarInt_loop.simps [simp del]

section \<open>Readers\<close>

text \<open>
  \<open>reads m x w\<close>: the reader consumes exactly the bytes \<open>w\<close> and returns \<open>x\<close>, whatever follows.
\<close>

definition reads :: "'a reader \<Rightarrow> 'a \<Rightarrow> bytes \<Rightarrow> bool" where
  "reads m x w \<longleftrightarrow> (\<forall>s. m (w @ s) = Inr (x, s))"

lemma reads_ret: "reads (rret x) x []"
  by (simp add: reads_def rret_def)

lemma reads_bind: "reads m x w \<Longrightarrow> reads (f x) y v \<Longrightarrow> reads (rbind m f) y (w @ v)"
  by (simp add: reads_def rbind_def)

lemma reads_stream: "length b = n \<Longrightarrow> reads (stream_read n) b b"
  by (simp add: reads_def stream_read_def)

lemma rbind_Inr: "rbind m f s = Inr (y, r) \<longleftrightarrow> (\<exists>x s'. m s = Inr (x, s') \<and> f x s' = Inr (y, r))"
  by (auto simp: rbind_def split: sum.splits)

lemma stream_read_Inr: "stream_read n s = Inr (b, r) \<longleftrightarrow> s = b @ r \<and> length b = n"
  by (auto simp: stream_read_def)

lemma rret_Inr: "rret x s = Inr (y, r) \<longleftrightarrow> y = x \<and> r = s"
  by (auto simp: rret_def)

lemma rfail_Inr: "rfail e s \<noteq> Inr p"
  by (simp add: rfail_def)

lemmas reader_Inr = rbind_Inr stream_read_Inr rret_Inr rfail_Inr

lemma wval_byte_lt: "wval (b :: bytes) < 2 ^ (8 * length b)"
  using wval_lt [of b] by simp

lemma word_of_nat_wval:
  "8 * length b \<le> LENGTH('a) \<Longrightarrow> unat (word_of_nat (wval (b :: bytes)) :: 'a::len word) = wval b"
proof -
  assume "8 * length b \<le> LENGTH('a)"
  then have "(2 :: nat) ^ (8 * length b) \<le> 2 ^ LENGTH('a)" by (rule power_increasing) simp
  with wval_byte_lt [of b] have "wval b < 2 ^ LENGTH('a)" by linarith
  then show ?thesis by (simp add: unat_of_nat)
qed

lemma reads_data8: "reads ser_readdata8 x (ser_writedata8 x)"
  by (simp add: reads_def ser_readdata8_def ser_writedata8_def rbind_def stream_read_def rret_def)

lemma reads_word:
  fixes x :: "'a::len word"
  assumes "LENGTH('a) = 8 * k"
  shows "reads (rbind (stream_read k) (\<lambda>b. rret (word_of_nat (wval b)))) x (wlist k (unat x))"
proof -
  have "wval (wlist k (unat x) :: bytes) = unat x"
    using unat_lt2p [of x] assms by (simp add: wval_wlist)
  then have "word_of_nat (wval (wlist k (unat x) :: bytes)) = x" by simp
  then show ?thesis
    using reads_bind [OF reads_stream reads_ret, of "wlist k (unat x)" k "\<lambda>b. word_of_nat (wval b) :: 'a word"] by simp
qed

lemma reads_data16: "reads ser_readdata16 x (ser_writedata16 x)"
  unfolding ser_readdata16_def ser_writedata16_def by (rule reads_word) simp

lemma reads_data32: "reads ser_readdata32 x (ser_writedata32 x)"
  unfolding ser_readdata32_def ser_writedata32_def by (rule reads_word) simp

lemma reads_data64: "reads ser_readdata64 x (ser_writedata64 x)"
  unfolding ser_readdata64_def ser_writedata64_def by (rule reads_word) simp

lemma canon_word:
  fixes x :: "'a::len word"
  assumes "LENGTH('a) = 8 * k"
    and "rbind (stream_read k) (\<lambda>b. rret (word_of_nat (wval b))) s = Inr (x, r)"
  shows "s = wlist k (unat x) @ r"
proof -
  from assms(2) obtain b where b: "s = b @ r" "length b = k" "x = word_of_nat (wval b)"
    by (auto simp: reader_Inr)
  have "unat x = wval b" unfolding b(3) by (rule word_of_nat_wval) (simp add: assms(1) b(2))
  then show ?thesis using b wlist_wval [of b] by simp
qed

lemma canon_data8: "ser_readdata8 s = Inr (x, r) \<Longrightarrow> s = ser_writedata8 x @ r"
  by (auto simp: ser_readdata8_def ser_writedata8_def reader_Inr length_Suc_conv)

lemma canon_data16: "ser_readdata16 s = Inr (x, r) \<Longrightarrow> s = ser_writedata16 x @ r"
  unfolding ser_readdata16_def ser_writedata16_def by (rule canon_word) simp

lemma canon_data32: "ser_readdata32 s = Inr (x, r) \<Longrightarrow> s = ser_writedata32 x @ r"
  unfolding ser_readdata32_def ser_writedata32_def by (rule canon_word) simp

lemma canon_data64: "ser_readdata64 s = Inr (x, r) \<Longrightarrow> s = ser_writedata64 x @ r"
  unfolding ser_readdata64_def ser_writedata64_def by (rule canon_word) simp

section \<open>Compact sizes are canonical\<close>

lemma ucast_back:
  fixes x :: u64
  shows "x < 253 \<Longrightarrow> ucast (ucast x :: byte) = x" "x \<le> 0xFFFF \<Longrightarrow> ucast (ucast x :: u16) = x"
    "x \<le> 0xFFFFFFFF \<Longrightarrow> ucast (ucast x :: u32) = x"
  by (simp_all add: word_unat_eq_iff unsigned_ucast_eq unat_take_bit word_less_nat_alt word_le_nat_alt)

lemmas data_reads =
  reads_data8 [unfolded reads_def, rule_format] reads_data16 [unfolded reads_def, rule_format]
  reads_data32 [unfolded reads_def, rule_format] reads_data64 [unfolded reads_def, rule_format]

lemma ReadCompactSize_writes:
  assumes "unat n \<le> MAX_SIZE"
  shows "reads ReadCompactSize n (WriteCompactSize n)"
proof -
  have m: "\<not> word_of_nat MAX_SIZE < n" using assms by (simp add: word_less_nat_alt MAX_SIZE_def)
  have b: "n < 253 \<Longrightarrow> (ucast n :: byte) < 253"
    by (simp add: word_less_nat_alt unsigned_ucast_eq take_bit_nat_eq_self)
  have "n \<le> 0xFFFFFFFF" using assms by (simp add: word_le_nat_alt MAX_SIZE_def)
  moreover have "0x10000 \<le> n" if "\<not> n \<le> 0xFFFF" using that by (simp add: word_le_nat_alt)
  ultimately show ?thesis
    using m b ucast_back [of n]
    unfolding reads_def ReadCompactSize_def WriteCompactSize_def
    by (auto simp: rbind_def data_reads rret_def Let_def not_less not_le)
qed

lemma unat_ucast_up:
  fixes x :: "'a::len word"
  assumes "LENGTH('a) \<le> LENGTH('b)"
  shows "unat (ucast x :: 'b::len word) = unat x"
proof -
  have "(2 :: nat) ^ LENGTH('a) \<le> 2 ^ LENGTH('b)" using assms by (rule power_increasing) simp
  with unat_lt2p [of x] have "unat x < 2 ^ LENGTH('b)" by linarith
  then show ?thesis by (simp add: unsigned_ucast_eq take_bit_nat_eq_self)
qed

lemma ucast_down_up:
  fixes x :: "'a::len word"
  assumes "LENGTH('a) \<le> LENGTH('b)"
  shows "ucast (ucast x :: 'b::len word) = x"
  using unat_ucast_up [OF assms, of x] unat_lt2p [of x]
  by (simp add: word_unat_eq_iff unsigned_ucast_eq [of "ucast x :: 'b word"] take_bit_nat_eq_self)

lemma WriteCompactSize_forms:
  "x < 253 \<Longrightarrow> WriteCompactSize (ucast (x :: byte)) = ser_writedata8 x"
  "253 \<le> (ucast (y :: u16) :: u64) \<Longrightarrow> WriteCompactSize (ucast y) = ser_writedata8 253 @ ser_writedata16 y"
  "0x10000 \<le> (ucast (z :: u32) :: u64) \<Longrightarrow> WriteCompactSize (ucast z) = ser_writedata8 254 @ ser_writedata32 z"
  "0x100000000 \<le> v \<Longrightarrow> WriteCompactSize v = ser_writedata8 255 @ ser_writedata64 v"
  using unat_lt2p [of y] unat_lt2p [of z]
  by (auto simp: WriteCompactSize_def word_less_nat_alt word_le_nat_alt unat_ucast_up ucast_down_up)

lemma ReadCompactSize_canon:
  assumes "ReadCompactSize s = Inr (n, r)"
  shows "s = WriteCompactSize n @ r \<and> unat n \<le> MAX_SIZE"
proof -
  have m: "\<not> word_of_nat MAX_SIZE < n \<Longrightarrow> unat n \<le> MAX_SIZE" by (simp add: word_less_nat_alt MAX_SIZE_def)
  have last: "ch = 255" if "\<not> ch < 253" "ch \<noteq> 253" "ch \<noteq> 254" for ch :: byte
  proof -
    have "unat ch < 256" using unat_lt2p [of ch] by simp
    with that show ?thesis by (simp add: word_less_nat_alt word_unat_eq_iff)
  qed
  obtain ch t where ch: "ser_readdata8 s = Inr (ch, t)"
    using assms unfolding ReadCompactSize_def by (auto simp: rbind_Inr)
  note s = canon_data8 [OF ch]
  note rd = assms [unfolded ReadCompactSize_def rbind_Inr [of ser_readdata8] ch, simplified]
  consider "ch < 253" | "ch = 253" | "ch = 254" | "ch = 255" using last by blast
  then show ?thesis
  proof cases
    case 1
    then show ?thesis using rd m s by (auto simp: reader_Inr WriteCompactSize_forms split: if_splits)
  next
    case 2
    then show ?thesis using rd m s
      by (auto simp: reader_Inr WriteCompactSize_forms Let_def not_less dest!: canon_data16 split: if_splits)
  next
    case 3
    then show ?thesis using rd m s
      by (auto simp: reader_Inr WriteCompactSize_forms Let_def not_less dest!: canon_data32 split: if_splits)
  next
    case 4
    then show ?thesis using rd m s
      by (auto simp: reader_Inr WriteCompactSize_forms Let_def not_less dest!: canon_data64 split: if_splits)
  qed
qed

lemma length_WriteCompactSize: "length (WriteCompactSize n) = GetSizeOfCompactSize n"
  by (simp add: WriteCompactSize_def GetSizeOfCompactSize_def ser_writedata8_def ser_writedata16_def ser_writedata32_def ser_writedata64_def)

section \<open>The contract of a serializable type\<close>

text \<open>
  \<open>ok\<close> holds of the values that the serialization can carry. Reading consumes exactly what
  writing produced, and only that: no other bytes are read as the same value.
\<close>

locale serializable =
  fixes ser :: "'a \<Rightarrow> bytes"
    and unser :: "'a reader"
    and ok :: "'a \<Rightarrow> bool"
  assumes unser_ser: "ok x \<Longrightarrow> reads unser x (ser x)"
    and unser_canon: "unser s = Inr (x, r) \<Longrightarrow> ok x \<and> s = ser x @ r"
begin

lemma unser_iff: "unser s = Inr (x, r) \<longleftrightarrow> ok x \<and> s = ser x @ r"
  using unser_ser unser_canon by (auto simp: reads_def)

lemma ser_inj:
  assumes "ok x" "ok y" "ser x @ r = ser y @ q"
  shows "x = y \<and> r = q"
  using assms unser_iff [of "ser x @ r" x r] unser_iff [of "ser x @ r" y q] by simp

lemma elems_iff:
  "Unserialize_elems unser k v s = Inr (w, r) \<longleftrightarrow>
     (\<exists>xs. w = v @ xs \<and> length xs = k \<and> (\<forall>x \<in> set xs. ok x) \<and> s = concat (map ser xs) @ r)"
proof (induction k arbitrary: v s)
  case 0
  then show ?case by (auto simp: rret_Inr)
next
  case (Suc k)
  have "(\<exists>x t. unser s = Inr (x, t) \<and> Unserialize_elems unser k (v @ [x]) t = Inr (w, r)) \<longleftrightarrow>
      (\<exists>x xs. w = v @ x # xs \<and> length xs = k \<and> ok x \<and> (\<forall>x \<in> set xs. ok x) \<and> s = ser x @ concat (map ser xs) @ r)"
    by (auto simp: Suc.IH unser_iff)
  also have "\<dots> \<longleftrightarrow> (\<exists>xs. w = v @ xs \<and> length xs = Suc k \<and> (\<forall>x \<in> set xs. ok x) \<and> s = concat (map ser xs) @ r)"
    by (auto simp: length_Suc_conv)
  finally show ?case by (simp add: rbind_Inr)
qed

lemma mid_iff:
  "nMid \<le> nSize \<Longrightarrow> Unserialize_mid unser c nSize nMid v s = Inr (w, r) \<longleftrightarrow>
     (\<exists>xs. w = v @ xs \<and> length xs = nSize - nMid \<and> (\<forall>x \<in> set xs. ok x) \<and> s = concat (map ser xs) @ r)"
proof (induction "nSize - nMid" arbitrary: nMid v s rule: less_induct)
  case less
  show ?case
  proof (cases "nMid < nSize")
    case False
    then show ?thesis using less.prems by (subst Unserialize_mid.simps) auto
  next
    case True
    define m where "m = (if nSize < nMid + (c + 1) then nSize else nMid + (c + 1))"
    have m: "nMid < m" "m \<le> nSize" using True by (auto simp: m_def)
    have IH: "Unserialize_mid unser c nSize m u t = Inr (w, r) \<longleftrightarrow>
        (\<exists>xs. w = u @ xs \<and> length xs = nSize - m \<and> (\<forall>x \<in> set xs. ok x) \<and> t = concat (map ser xs) @ r)" for u t
      using m by (intro less.hyps) auto
    have "Unserialize_mid unser c nSize nMid v s = Inr (w, r) \<longleftrightarrow>
        (\<exists>u t. Unserialize_elems unser (m - nMid) v s = Inr (u, t) \<and> Unserialize_mid unser c nSize m u t = Inr (w, r))"
      using True by (subst Unserialize_mid.simps) (auto simp: m_def Let_def split: sum.split)
    also have "\<dots> \<longleftrightarrow> (\<exists>xs ys. w = v @ xs @ ys \<and> length xs = m - nMid \<and> length ys = nSize - m \<and>
        (\<forall>x \<in> set xs. ok x) \<and> (\<forall>x \<in> set ys. ok x) \<and> s = concat (map ser xs) @ concat (map ser ys) @ r)"
      (is "?E \<longleftrightarrow> ?M")
    proof
      assume ?E
      then obtain xs ys t where "w = (v @ xs) @ ys" "length xs = m - nMid" "length ys = nSize - m"
        "\<forall>x \<in> set xs. ok x" "\<forall>x \<in> set ys. ok x" "s = concat (map ser xs) @ t" "t = concat (map ser ys) @ r"
        unfolding elems_iff IH by blast
      then show ?M by (intro exI [of _ xs] exI [of _ ys]) simp
    next
      assume ?M
      then obtain xs ys where "w = (v @ xs) @ ys" "length xs = m - nMid" "length ys = nSize - m"
        "\<forall>x \<in> set xs. ok x" "\<forall>x \<in> set ys. ok x" "s = concat (map ser xs) @ concat (map ser ys) @ r" by auto
      then show ?E unfolding elems_iff IH by blast
    qed
    also have "\<dots> \<longleftrightarrow> (\<exists>zs. w = v @ zs \<and> length zs = nSize - nMid \<and> (\<forall>x \<in> set zs. ok x) \<and> s = concat (map ser zs) @ r)"
      (is "?L \<longleftrightarrow> ?R")
    proof
      assume ?L
      then obtain xs ys where "w = v @ xs @ ys" "length xs = m - nMid" "length ys = nSize - m"
        "\<forall>x \<in> set xs. ok x" "\<forall>x \<in> set ys. ok x" "s = concat (map ser xs) @ concat (map ser ys) @ r" by blast
      then show ?R using m by (intro exI [of _ "xs @ ys"]) auto
    next
      assume ?R
      then obtain zs where z: "w = v @ zs" "length zs = nSize - nMid" "\<forall>x \<in> set zs. ok x" "s = concat (map ser zs) @ r" by blast
      then show ?L using m
        by (intro exI [of _ "take (m - nMid) zs"] exI [of _ "drop (m - nMid) zs"])
          (auto simp: concat_append [symmetric] map_append [symmetric] dest: in_set_takeD in_set_dropD simp del: concat_append map_append)
    qed
    finally show ?thesis .
  qed
qed

lemma vector_contract:
  "serializable (Serialize_vector ser) (Unserialize_vector unser c) (\<lambda>v. length v \<le> MAX_SIZE \<and> (\<forall>x \<in> set v. ok x))"
proof
  have u: "unat (word_of_nat k :: u64) = k" if "k \<le> MAX_SIZE" for k
    using that by (simp add: unat_of_nat MAX_SIZE_def)
  fix v assume "length v \<le> MAX_SIZE \<and> (\<forall>x \<in> set v. ok x)"
  moreover from this have "reads ReadCompactSize (word_of_nat (length v)) (WriteCompactSize (word_of_nat (length v)))"
    by (intro ReadCompactSize_writes) (simp add: u)
  ultimately show "reads (Unserialize_vector unser c) v (Serialize_vector ser v)"
    unfolding reads_def Unserialize_vector_def Serialize_vector_def by (simp add: rbind_def mid_iff u)
next
  fix s v r assume "Unserialize_vector unser c s = Inr (v, r)"
  then obtain n t where n: "ReadCompactSize s = Inr (n, t)" and "Unserialize_mid unser c (unat n) 0 [] t = Inr (v, r)"
    unfolding Unserialize_vector_def by (auto simp: rbind_Inr)
  with ReadCompactSize_canon [OF n]
  show "(length v \<le> MAX_SIZE \<and> (\<forall>x \<in> set v. ok x)) \<and> s = Serialize_vector ser v @ r"
    unfolding Serialize_vector_def by (auto simp: mid_iff)
qed

end

lemma serializable_pair:
  assumes "serializable sa ua oka" "serializable sb ub okb"
  shows "serializable (Serialize_pair sa sb) (Unserialize_pair ua ub) (\<lambda>(x, y). oka x \<and> okb y)"
proof
  fix x assume "case x of (x, y) \<Rightarrow> oka x \<and> okb y"
  then show "reads (Unserialize_pair ua ub) x (Serialize_pair sa sb x)"
    using serializable.unser_ser [OF assms(1), of "fst x"] serializable.unser_ser [OF assms(2), of "snd x"]
    by (cases x) (auto simp: reads_def Unserialize_pair_def Serialize_pair_def rbind_def rret_def)
next
  fix s x r assume "Unserialize_pair ua ub s = Inr (x, r)"
  then show "(case x of (x, y) \<Rightarrow> oka x \<and> okb y) \<and> s = Serialize_pair sa sb x @ r"
    by (auto simp: Unserialize_pair_def Serialize_pair_def reader_Inr
        dest!: serializable.unser_canon [OF assms(1)] serializable.unser_canon [OF assms(2)])
qed

interpretation ser8: serializable ser_writedata8 ser_readdata8 "\<lambda>x. True"
  by unfold_locales (simp_all add: reads_data8 canon_data8)

interpretation ser16: serializable ser_writedata16 ser_readdata16 "\<lambda>x. True"
  by unfold_locales (simp_all add: reads_data16 canon_data16)

interpretation ser32: serializable ser_writedata32 ser_readdata32 "\<lambda>x. True"
  by unfold_locales (simp_all add: reads_data32 canon_data32)

interpretation ser64: serializable ser_writedata64 ser_readdata64 "\<lambda>x. True"
  by unfold_locales (simp_all add: reads_data64 canon_data64)

interpretation csize: serializable WriteCompactSize ReadCompactSize "\<lambda>n. unat n \<le> MAX_SIZE"
  by unfold_locales (simp_all add: ReadCompactSize_writes ReadCompactSize_canon)

text \<open>Reading a blob in blocks is reading it at once.\<close>

lemma Unserialize_blocks_iff:
  "i \<le> nSize \<Longrightarrow> Unserialize_blocks nSize i v s = Inr (w, r) \<longleftrightarrow> (\<exists>b. w = v @ b \<and> length b = nSize - i \<and> s = b @ r)"
proof (induction "nSize - i" arbitrary: i v s rule: less_induct)
  case less
  show ?case
  proof (cases "i < nSize")
    case False
    then show ?thesis using less.prems by (subst Unserialize_blocks.simps) auto
  next
    case True
    define blk where "blk = min (nSize - i) (1 + 4999999)"
    have blk: "0 < blk" "i + blk \<le> nSize" using True by (auto simp: blk_def)
    have IH: "Unserialize_blocks nSize (i + blk) u t = Inr (w, r) \<longleftrightarrow>
        (\<exists>b. w = u @ b \<and> length b = nSize - (i + blk) \<and> t = b @ r)" for u t
      using blk by (intro less.hyps) auto
    have "Unserialize_blocks nSize i v s = Inr (w, r) \<longleftrightarrow>
        (\<exists>b t. stream_read blk s = Inr (b, t) \<and> Unserialize_blocks nSize (i + blk) (v @ b) t = Inr (w, r))"
      using True by (subst Unserialize_blocks.simps) (auto simp: blk_def Let_def split: sum.split)
    also have "\<dots> \<longleftrightarrow> (\<exists>b c. s = b @ c @ r \<and> length b = blk \<and> length c = nSize - (i + blk) \<and> w = v @ b @ c)"
      unfolding IH stream_read_Inr by auto
    also have "\<dots> \<longleftrightarrow> (\<exists>b. w = v @ b \<and> length b = nSize - i \<and> s = b @ r)"
      (is "?L \<longleftrightarrow> ?R")
    proof
      assume ?L
      then obtain b c where "s = b @ c @ r" "length b = blk" "length c = nSize - (i + blk)" "w = v @ b @ c" by blast
      then show ?R using blk by (intro exI [of _ "b @ c"]) auto
    next
      assume ?R
      then obtain b where "w = v @ b" "length b = nSize - i" "s = b @ r" by blast
      then show ?L using blk by (intro exI [of _ "take blk b"] exI [of _ "drop blk b"]) auto
    qed
    finally show ?thesis .
  qed
qed

lemma unat_size: "k \<le> MAX_SIZE \<Longrightarrow> unat (word_of_nat k :: u64) = k"
  by (simp add: unat_of_nat MAX_SIZE_def)

interpretation sbytes: serializable Serialize_bytes Unserialize_bytes "\<lambda>v. length v \<le> MAX_SIZE"
proof
  fix v :: bytes assume v: "length v \<le> MAX_SIZE"
  then show "reads Unserialize_bytes v (Serialize_bytes v)"
    using ReadCompactSize_writes [of "word_of_nat (length v)"]
    unfolding reads_def Unserialize_bytes_def Serialize_bytes_def
    by (simp add: rbind_def unat_size Unserialize_blocks_iff)
next
  fix s v r assume "Unserialize_bytes s = Inr (v, r)"
  then obtain n t where n: "ReadCompactSize s = Inr (n, t)" and "Unserialize_blocks (unat n) 0 [] t = Inr (v, r)"
    unfolding Unserialize_bytes_def by (auto simp: rbind_Inr)
  with ReadCompactSize_canon [OF n] show "length v \<le> MAX_SIZE \<and> s = Serialize_bytes v @ r"
    unfolding Serialize_bytes_def by (auto simp: Unserialize_blocks_iff)
qed

section \<open>Variable length integers round trip\<close>

text \<open>The bytes of a number that precede the last one: all carry the continuation bit.\<close>

function vhi :: "nat \<Rightarrow> bytes" where
  "vhi v = (if v \<le> 127 then [] else vhi (v div 128 - 1)) @ [word_of_nat (128 + v mod 128)]"
  by pat_completeness auto
termination by (relation "measure id") auto

declare vhi.simps [simp del]

lemma and_7F: "unat (w AND 0x7F :: 'a::len word) = unat w mod 128 mod 2 ^ LENGTH('a)"
proof -
  have "(0x7F :: 'a word) = mask 7" by (simp add: mask_eq_exp_minus_1)
  then have "w AND 0x7F = take_bit 7 w" by (simp only: take_bit_eq_mask)
  moreover have "unat w mod 128 \<le> unat w" by simp
  then have "unat w mod 128 mod 2 ^ LENGTH('a) = unat w mod 128"
    using unat_lt2p [of w] by (metis le_less_trans mod_less)
  ultimately show ?thesis by (simp add: unat_take_bit)
qed

lemma flag_byte: "r < 128 \<Longrightarrow> (word_of_nat r OR 0x80 :: byte) = word_of_nat (128 + r)"
proof -
  assume r: "r < 128"
  have "word_of_nat r + (0x80 :: byte) = word_of_nat r OR 0x80"
  proof (rule disjunctive_add)
    fix n
    have "\<not> bit (word_of_nat r :: byte) 7"
      using bit_lt [of "word_of_nat r :: byte" 7 7] r by (auto simp: unat_of_nat)
    moreover have "bit (0x80 :: byte) n \<longleftrightarrow> n = 7" using bit_exp_iff [where 'a = byte, of 7 n] by auto
    ultimately show "\<not> bit (word_of_nat r :: byte) n \<or> \<not> bit (0x80 :: byte) n" by auto
  qed
  then show ?thesis by (simp add: add.commute)
qed

lemma varint_le: "n \<le> 0x7F \<Longrightarrow> unat (n :: 'a::len word) \<le> 127"
proof -
  assume "n \<le> 0x7F"
  then have "unat n \<le> unat (word_of_nat 127 :: 'a word)" by (simp add: word_le_nat_alt)
  also have "\<dots> \<le> 127" unfolding unat_of_nat by simp
  finally show ?thesis .
qed

lemma varint_room:
  assumes "\<not> n \<le> 0x7F" "unat (n :: 'a::len word) < 2 ^ (7 * (T - len))"
  shows "len + 1 < T \<and> unat (drop_bit 7 n - 1) < 2 ^ (7 * (T - (len + 1)))"
proof -
  have g: "128 \<le> unat n" using assms(1) by (rule varint_gt)
  have "\<not> T - len \<le> 1"
  proof
    assume "T - len \<le> 1"
    then have "(2 :: nat) ^ (7 * (T - len)) \<le> 2 ^ 7" by (intro power_increasing) auto
    with g assms(2) show False by simp
  qed
  then obtain k where k: "T - len = Suc (Suc k)" by (metis One_nat_def Suc_le_mono le0 not0_implies_Suc)
  have "unat n div 128 < 2 ^ (7 * Suc k)"
    using assms(2) unfolding k by (intro less_mult_imp_div_less) (simp add: power_add)
  moreover have "T - (len + 1) = Suc k" using k by simp
  ultimately have "unat (drop_bit 7 n - 1) < 2 ^ (7 * (T - (len + 1)))"
    using varint_next [OF assms(1)] less_imp_diff_less by simp
  moreover have "len + 1 < T" using k by linarith
  ultimately show ?thesis by blast
qed

lemma varint_byte: "(ucast (n AND 0x7F :: 'a::len word) :: byte) = word_of_nat (unat n mod 128)"
proof -
  have "unat n mod 128 \<le> unat n" by simp
  then have "unat n mod 128 mod 2 ^ LENGTH('a) = unat n mod 128"
    using unat_lt2p [of n] by (metis le_less_trans mod_less)
  then have "unat (n AND 0x7F) = unat n mod 128" using and_7F [of n] by simp
  then show ?thesis by (metis of_nat_unat)
qed

lemma WriteVarInt_loop_vhi:
  assumes "len < varint_tmp TYPE('a::len word)" "unat n < 2 ^ (7 * (varint_tmp TYPE('a word) - len))" "len \<noteq> 0"
  shows "WriteVarInt_loop len (n :: 'a word) acc = Some (vhi (unat n) @ acc)"
  using assms
proof (induction len n acc rule: WriteVarInt_loop.induct)
  case (1 len n acc)
  have b: "(ucast (n AND 0x7F) OR 0x80 :: byte) = word_of_nat (128 + unat n mod 128)"
    unfolding varint_byte by (rule flag_byte) simp
  show ?case
  proof (cases "n \<le> 0x7F")
    case True
    then show ?thesis using 1(2,4) varint_le [OF True] b
      by (subst WriteVarInt_loop.simps) (simp add: vhi.simps [of "unat n"] Let_def)
  next
    case False
    note room = varint_room [OF False 1(3)]
    have "WriteVarInt_loop (len + 1) (drop_bit 7 n - 1) (word_of_nat (128 + unat n mod 128) # acc) =
        Some (vhi (unat (drop_bit 7 n - 1)) @ word_of_nat (128 + unat n mod 128) # acc)"
      using 1 False room b by simp
    then show ?thesis
      using 1(2,4) False varint_gt [OF False] b
      by (subst WriteVarInt_loop.simps) (simp add: vhi.simps [of "unat n"] varint_next Let_def)
  qed
qed

text \<open>The whole encoding: the bytes before the last one, and the last seven bits.\<close>

definition vcode :: "nat \<Rightarrow> bytes" where
  "vcode v = (if v \<le> 127 then [] else vhi (v div 128 - 1)) @ [word_of_nat (v mod 128)]"

lemma WriteVarInt_vcode: "WriteVarInt (n :: 'a::len word) = Some (vcode (unat n))"
proof -
  let ?T = "varint_tmp TYPE('a word)"
  have "0 < (L + 6) div 7 \<and> L \<le> 7 * ((L + 6) div 7)" if "0 < L" for L :: nat
    using that by presburger
  then have T: "0 < ?T" "LENGTH('a) \<le> 7 * ?T" unfolding varint_tmp_def by simp_all
  have "(2 :: nat) ^ LENGTH('a) \<le> 2 ^ (7 * ?T)" using T(2) by (rule power_increasing) simp
  with unat_lt2p [of n] have lt: "unat n < 2 ^ (7 * (?T - 0))" unfolding diff_zero by linarith
  show ?thesis
  proof (cases "n \<le> 0x7F")
    case True
    then show ?thesis using T varint_le [OF True]
      by (simp add: WriteVarInt_def WriteVarInt_loop.simps [of 0] vcode_def varint_byte Let_def)
  next
    case False
    note room = varint_room [OF False lt]
    have "WriteVarInt_loop 1 (drop_bit 7 n - 1) [word_of_nat (unat n mod 128)] =
        Some (vhi (unat (drop_bit 7 n - 1)) @ [word_of_nat (unat n mod 128)])"
      using room by (intro WriteVarInt_loop_vhi) auto
    then show ?thesis using T False varint_gt [OF False]
      by (simp add: WriteVarInt_def WriteVarInt_loop.simps [of 0] vcode_def varint_byte varint_next Let_def)
  qed
qed

lemma varint_accumulate:
  assumes "r < 128"
  shows "push_bit 7 (word_of_nat a) OR ucast (word_of_nat r :: byte) = (word_of_nat (128 * a + r) :: 'a::len word)"
proof -
  have u: "unat (word_of_nat r :: byte) = r" using assms by (simp add: unat_of_nat)
  have "push_bit 7 (word_of_nat a) + ucast (word_of_nat r :: byte) = (push_bit 7 (word_of_nat a) OR ucast (word_of_nat r :: byte) :: 'a word)"
  proof (rule disjunctive_add)
    fix n
    have "\<not> bit (word_of_nat r :: byte) n" if "7 \<le> n"
      using bit_lt [of "word_of_nat r :: byte" 7 n] u assms that by auto
    then show "\<not> bit (push_bit 7 (word_of_nat a) :: 'a word) n \<or> \<not> bit (ucast (word_of_nat r :: byte) :: 'a word) n"
      by (auto simp: bit_simps)
  qed
  moreover have "(ucast (word_of_nat r :: byte) :: 'a word) = word_of_nat r" by (metis u of_nat_unat)
  ultimately show ?thesis by (simp add: push_bit_eq_mult mult.commute)
qed

lemma varint_bits:
  assumes "r < 128"
  shows "(word_of_nat (128 + r) :: byte) AND 0x7F = word_of_nat r" "(word_of_nat (128 + r) :: byte) AND 0x80 \<noteq> 0"
    "(word_of_nat r :: byte) AND 0x7F = word_of_nat r" "(word_of_nat r :: byte) AND 0x80 = 0"
proof -
  have u: "unat (word_of_nat (128 + r) :: byte) = 128 + r" "unat (word_of_nat r :: byte) = r"
    using assms by (simp_all only: unat_of_nat) simp_all
  show "(word_of_nat (128 + r) :: byte) AND 0x7F = word_of_nat r" "(word_of_nat r :: byte) AND 0x7F = word_of_nat r"
    using assms by (simp_all only: word_unat_eq_iff and_7F u) simp_all
  have "(0x80 :: byte) = 2 ^ 7" by simp
  then have "(w AND 0x80 = 0) \<longleftrightarrow> \<not> bit w 7" for w :: byte
    by (simp only: and_exp_eq_0_iff_not_bit)
  then show "(word_of_nat (128 + r) :: byte) AND 0x80 \<noteq> 0" "(word_of_nat r :: byte) AND 0x80 = 0"
    using bit_top [of "word_of_nat (128 + r) :: byte" 7] bit_top [of "word_of_nat r :: byte" 7] u assms by simp_all
qed

lemma ReadVarInt_vhi: "ReadVarInt_loop 0 (vhi v @ s) = ReadVarInt_loop (word_of_nat (v + 1) :: 'a::len word) s"
proof (induction v arbitrary: s rule: vhi.induct)
  case (1 v)
  define r where "r = v mod 128"
  have r: "r < 128" by (simp add: r_def)
  show ?case
  proof (cases "v \<le> 127")
    case True
    then have "vhi v = [word_of_nat (128 + r)]" "v = r" by (simp_all add: vhi.simps [of v] r_def)
    then show ?thesis using varint_accumulate [where 'a = 'a, OF r, of 0] varint_bits [OF r]
      by (simp add: Let_def add.commute del: of_nat_add)
  next
    case False
    have "1 \<le> v div 128" using False by (simp add: div_le_mono [of 128 v 128, simplified])
    then have q: "v div 128 - 1 + 1 = v div 128" by simp
    have v: "128 * (v div 128) + r = v" unfolding r_def by simp
    have "ReadVarInt_loop 0 (vhi v @ s) = ReadVarInt_loop 0 (vhi (v div 128 - 1) @ word_of_nat (128 + r) # s)"
      using False by (simp add: vhi.simps [of v] r_def)
    also have "\<dots> = ReadVarInt_loop (word_of_nat (v div 128) :: 'a word) (word_of_nat (128 + r) # s)"
      using "1.IH" False q by simp
    also have "\<dots> = ReadVarInt_loop (word_of_nat v + 1 :: 'a word) s"
      using varint_accumulate [where 'a = 'a, OF r, of "v div 128"] varint_bits [OF r] v by (simp add: Let_def del: of_nat_add)
    finally show ?thesis by (simp add: add.commute)
  qed
qed

lemma ReadVarInt_vcode: "ReadVarInt (vcode v @ s) = Inr (word_of_nat v :: 'a::len word, s)"
proof -
  define r where "r = v mod 128"
  have r: "r < 128" by (simp add: r_def)
  have v: "128 * (v div 128) + r = v" unfolding r_def by simp
  show ?thesis
  proof (cases "v \<le> 127")
    case True
    then have "vcode v = [word_of_nat r]" "v = r" by (simp_all add: vcode_def r_def)
    then show ?thesis using varint_accumulate [where 'a = 'a, OF r, of 0] varint_bits [OF r]
      by (simp add: ReadVarInt_def Let_def)
  next
    case False
    then have "v div 128 - 1 + 1 = v div 128" by (simp add: div_greater_zero_iff)
    then show ?thesis
      using False varint_accumulate [where 'a = 'a, OF r, of "v div 128"] varint_bits [OF r] v ReadVarInt_vhi [where 'a = 'a, of "v div 128 - 1"]
      by (simp add: ReadVarInt_def vcode_def r_def [symmetric] Let_def del: of_nat_add)
  qed
qed

lemma GetSizeOfVarInt_loop_vhi: "GetSizeOfVarInt_loop k n = k + length (vhi (unat n))"
proof (induction k n rule: GetSizeOfVarInt_loop.induct)
  case (1 k n)
  show ?case
  proof (cases "n \<le> 0x7F")
    case True
    then show ?thesis using varint_le [OF True]
      by (subst GetSizeOfVarInt_loop.simps) (simp add: vhi.simps [of "unat n"] Let_def)
  next
    case False
    then show ?thesis using varint_gt [OF False] 1 varint_next [OF False]
      by (subst GetSizeOfVarInt_loop.simps) (simp add: vhi.simps [of "unat n"] Let_def)
  qed
qed

lemma length_vcode: "length (vcode v) = length (vhi v)"
  by (simp add: vcode_def vhi.simps [of v])

text \<open>
  The comment above \<^verbatim>\<open>GetSizeOfVarInt\<close> says that every integer has exactly one encoding. Reading does not
  check for overflow, so the encoding of \<open>2 ^ 32\<close> is read as 0 into a 32 bit integer.
\<close>

lemma ReadVarInt_wraps:
  "ReadVarInt [0x8E, 0xFE, 0xFE, 0xFF, 0x00] = Inr (0 :: u32, []) \<and> ReadVarInt [0x00] = Inr (0 :: u32, [])"
  by (simp add: ReadVarInt_def Let_def)

section \<open>Properties\<close>


text \<open>
  C31. Variable length integers of any unsigned type: \<^verbatim>\<open>WriteVarInt\<close> never writes outside its buffer,
  \<^verbatim>\<open>ReadVarInt\<close> reads the number back and leaves the rest of the stream, and \<^verbatim>\<open>GetSizeOfVarInt\<close> is the number of
  bytes written.
\<close>

theorem VarInt_roundtrip:
  fixes n :: "'a::len word"
  shows "\<exists>w. WriteVarInt n = Some w \<and> length w = GetSizeOfVarInt n \<and> (\<forall>s. ReadVarInt (w @ s) = Inr (n, s))"
  using ReadVarInt_vcode [where 'a = 'a, of "unat n"]
  by (simp add: WriteVarInt_vcode GetSizeOfVarInt_def GetSizeOfVarInt_loop_vhi length_vcode)

end
