(* ===== verification/Transaction.thy ===== *)
theory Transaction
  imports Serialize Script Hash "HOL-Library.Signed_Division"
begin

text \<open>
  \<^verbatim>\<open>primitives/transaction.h\<close>, \<^verbatim>\<open>primitives/transaction.cpp\<close>, \<^verbatim>\<open>amount.h\<close> and \<^verbatim>\<open>amount.cpp\<close>: outpoints,
  inputs, outputs and transactions, their serialization, hash, value and size computations, fee rates and
  the BIP69 orders. A \<^verbatim>\<open>uint256\<close> is its 32 bytes. \<^verbatim>\<open>int32_t\<close> and \<^verbatim>\<open>int64_t\<close> members are words; \<open>sint\<close> reads their
  signed value.
\<close>

type_synonym uint256 = bytes
type_synonym CAmount = u64

section \<open>Amounts and fee rates\<close>

definition COIN :: int where
  "COIN = 100000000"

definition CENT :: int where
  "CENT = 1000000"

definition MAX_MONEY :: int where
  "MAX_MONEY = 21000000 * COIN"

definition MoneyRange :: "int \<Rightarrow> bool" where
  "MoneyRange nValue \<longleftrightarrow> nValue \<ge> 0 \<and> nValue \<le> MAX_MONEY"

text \<open>An \<^verbatim>\<open>int64_t\<close> result: overflow is undefined behaviour.\<close>

definition int64 :: "int \<Rightarrow> int option" where
  "int64 v = (if int64_min \<le> v \<and> v \<le> int64_max then Some v else None)"

record CFeeRate =
  nSatoshisPerK :: int

text \<open>The two assertions on the size fail, as does an overflow of the product.\<close>

definition CFeeRate_ctor :: "int \<Rightarrow> nat \<Rightarrow> CFeeRate option" where
  "CFeeRate_ctor nFeePaid nBytes =
     (if int nBytes \<le> int64_max
      then if 0 < nBytes
           then do { p \<leftarrow> int64 (nFeePaid * 1000); Some \<lparr>nSatoshisPerK = p sdiv int nBytes\<rparr> }
           else Some \<lparr>nSatoshisPerK = 0\<rparr>
      else None)"

definition GetFee :: "CFeeRate \<Rightarrow> nat \<Rightarrow> int option" where
  "GetFee r nBytes =
     (if int nBytes \<le> int64_max
      then do {
        p \<leftarrow> int64 (nSatoshisPerK r * int nBytes);
        let nFee = p sdiv 1000;
        Some (if nFee = 0 \<and> nBytes \<noteq> 0
              then if nSatoshisPerK r > 0 then 1 else if nSatoshisPerK r < 0 then -1 else nFee
              else nFee)
      }
      else None)"

section \<open>Outpoints, inputs, outputs\<close>

definition SER_NETWORK :: int where
  "SER_NETWORK = 1"

definition SER_DISK :: int where
  "SER_DISK = 2"

definition SER_GETHASH :: int where
  "SER_GETHASH = 4"

definition BITCOIN_PROTOCOL_VERSION :: int where
  "BITCOIN_PROTOCOL_VERSION = 70014"

record COutPoint =
  op_hash :: uint256
  op_n :: u32

definition COutPoint_SetNull :: COutPoint where
  "COutPoint_SetNull = \<lparr>op_hash = replicate 32 0, op_n = - 1\<rparr>"

definition COutPoint_IsNull :: "COutPoint \<Rightarrow> bool" where
  "COutPoint_IsNull p \<longleftrightarrow> (\<forall>b \<in> set (op_hash p). b = 0) \<and> op_n p = - 1"

text \<open>\<^verbatim>\<open>memcmp(a, b, n) < 0\<close> on byte lists of the same length.\<close>

fun memcmp_lt :: "bytes \<Rightarrow> bytes \<Rightarrow> bool" where
  "memcmp_lt (x # xs) (y # ys) \<longleftrightarrow> x < y \<or> (x = y \<and> memcmp_lt xs ys)"
| "memcmp_lt _ _ \<longleftrightarrow> False"

definition COutPoint_less :: "COutPoint \<Rightarrow> COutPoint \<Rightarrow> bool" where
  "COutPoint_less a b \<longleftrightarrow> memcmp_lt (op_hash a) (op_hash b) \<or> (op_hash a = op_hash b \<and> op_n a < op_n b)"

definition Serialize_COutPoint :: "COutPoint \<Rightarrow> bytes" where
  "Serialize_COutPoint p = op_hash p @ ser_writedata32 (op_n p)"

definition Unserialize_COutPoint :: "COutPoint reader" where
  "Unserialize_COutPoint =
     rbind (stream_read 32) (\<lambda>h. rbind ser_readdata32 (\<lambda>n. rret \<lparr>op_hash = h, op_n = n\<rparr>))"

record CTxIn =
  prevout :: COutPoint
  scriptSig :: bytes
  nSequence :: u32
  prevPubKey :: bytes

definition SEQUENCE_FINAL :: u32 where
  "SEQUENCE_FINAL = 0xffffffff"

definition SEQUENCE_LOCKTIME_DISABLE_FLAG :: u32 where
  "SEQUENCE_LOCKTIME_DISABLE_FLAG = push_bit 31 1"

definition SEQUENCE_LOCKTIME_TYPE_FLAG :: u32 where
  "SEQUENCE_LOCKTIME_TYPE_FLAG = push_bit 22 1"

definition SEQUENCE_LOCKTIME_MASK :: u32 where
  "SEQUENCE_LOCKTIME_MASK = 0x0000ffff"

definition CTxIn_default :: CTxIn where
  "CTxIn_default = \<lparr>prevout = COutPoint_SetNull, scriptSig = [], nSequence = SEQUENCE_FINAL, prevPubKey = []\<rparr>"

definition CTxIn_ctor :: "COutPoint \<Rightarrow> bytes \<Rightarrow> u32 \<Rightarrow> CTxIn" where
  "CTxIn_ctor prevoutIn scriptSigIn nSequenceIn =
     \<lparr>prevout = prevoutIn, scriptSig = scriptSigIn, nSequence = nSequenceIn, prevPubKey = []\<rparr>"

definition CTxIn_ctor_hash :: "uint256 \<Rightarrow> u32 \<Rightarrow> bytes \<Rightarrow> u32 \<Rightarrow> CTxIn" where
  "CTxIn_ctor_hash hashPrevTx nOut scriptSigIn nSequenceIn =
     \<lparr>prevout = \<lparr>op_hash = hashPrevTx, op_n = nOut\<rparr>, scriptSig = scriptSigIn, nSequence = nSequenceIn, prevPubKey = []\<rparr>"

definition CTxIn_eq :: "CTxIn \<Rightarrow> CTxIn \<Rightarrow> bool" where
  "CTxIn_eq a b \<longleftrightarrow> prevout a = prevout b \<and> scriptSig a = scriptSig b \<and> nSequence a = nSequence b"

definition CTxIn_less :: "CTxIn \<Rightarrow> CTxIn \<Rightarrow> bool" where
  "CTxIn_less a b \<longleftrightarrow> COutPoint_less (prevout a) (prevout b)"

definition Serialize_CTxIn :: "CTxIn \<Rightarrow> bytes" where
  "Serialize_CTxIn t = Serialize_COutPoint (prevout t) @ Serialize_bytes (scriptSig t) @ ser_writedata32 (nSequence t)"

definition Unserialize_CTxIn :: "CTxIn reader" where
  "Unserialize_CTxIn =
     rbind Unserialize_COutPoint (\<lambda>p. rbind Unserialize_bytes (\<lambda>s. rbind ser_readdata32 (\<lambda>q.
       rret (CTxIn_default\<lparr>prevout := p, scriptSig := s, nSequence := q\<rparr>))))"

record CTxOut =
  nValue :: CAmount
  scriptPubKey :: bytes
  nRounds :: int

definition CTxOut_SetNull :: CTxOut where
  "CTxOut_SetNull = \<lparr>nValue = - 1, scriptPubKey = [], nRounds = - 10\<rparr>"

definition CTxOut_IsNull :: "CTxOut \<Rightarrow> bool" where
  "CTxOut_IsNull t \<longleftrightarrow> nValue t = - 1"

definition CTxOut_ctor :: "CAmount \<Rightarrow> bytes \<Rightarrow> CTxOut" where
  "CTxOut_ctor nValueIn scriptPubKeyIn = \<lparr>nValue = nValueIn, scriptPubKey = scriptPubKeyIn, nRounds = - 10\<rparr>"

definition Serialize_CTxOut :: "CTxOut \<Rightarrow> bytes" where
  "Serialize_CTxOut t = ser_writedata64 (nValue t) @ Serialize_bytes (scriptPubKey t)"

definition Unserialize_CTxOut :: "CTxOut reader" where
  "Unserialize_CTxOut =
     rbind ser_readdata64 (\<lambda>v. rbind Unserialize_bytes (\<lambda>s. rret (CTxOut_SetNull\<lparr>nValue := v, scriptPubKey := s\<rparr>)))"

definition CTxOut_GetHash :: "bytes \<Rightarrow> CTxOut \<Rightarrow> uint256 option" where
  "CTxOut_GetHash junk t =
     SerializeHash junk (\<lambda>_ _. [ser_writedata64 (nValue t), Serialize_bytes (scriptPubKey t)]) SER_GETHASH BITCOIN_PROTOCOL_VERSION"

definition GetDustThreshold :: "CTxOut \<Rightarrow> CFeeRate \<Rightarrow> int option" where
  "GetDustThreshold t minRelayTxFee =
     (if IsUnspendable (scriptPubKey t) then Some 0
      else let nSize = length (Serialize_CTxOut t) + 148 in
        do { f \<leftarrow> GetFee minRelayTxFee nSize; int64 (3 * f) })"

definition IsDust :: "CTxOut \<Rightarrow> CFeeRate \<Rightarrow> bool option" where
  "IsDust t minRelayTxFee = do { d \<leftarrow> GetDustThreshold t minRelayTxFee; Some (sint (nValue t) < d) }"

definition CTxOut_eq :: "CTxOut \<Rightarrow> CTxOut \<Rightarrow> bool" where
  "CTxOut_eq a b \<longleftrightarrow> nValue a = nValue b \<and> scriptPubKey a = scriptPubKey b \<and> nRounds a = nRounds b"

section \<open>Transactions\<close>

text \<open>
  \<open>ci + 1\<close> and \<open>co + 1\<close> are \<^verbatim>\<open>5000000 / sizeof(CTxIn)\<close> and \<^verbatim>\<open>5000000 / sizeof(CTxOut)\<close>, the steps in which
  the vectors are resized while they are read; the object sizes belong to the compiler.
\<close>

record CMutableTransaction =
  mtx_nVersion :: u32
  mtx_vin :: "CTxIn list"
  mtx_vout :: "CTxOut list"
  mtx_nLockTime :: u32

record CTransaction =
  tx_nVersion :: u32
  vin :: "CTxIn list"
  vout :: "CTxOut list"
  nLockTime :: u32
  tx_hash :: uint256

definition CURRENT_VERSION :: u32 where
  "CURRENT_VERSION = 1"

definition Serialize_tx_fields :: "u32 \<Rightarrow> CTxIn list \<Rightarrow> CTxOut list \<Rightarrow> u32 \<Rightarrow> bytes list" where
  "Serialize_tx_fields v i out l =
     [ser_writedata32 v, Serialize_vector Serialize_CTxIn i, Serialize_vector Serialize_CTxOut out, ser_writedata32 l]"

definition Serialize_CMutableTransaction :: "CMutableTransaction \<Rightarrow> bytes" where
  "Serialize_CMutableTransaction tx =
     concat (Serialize_tx_fields (mtx_nVersion tx) (mtx_vin tx) (mtx_vout tx) (mtx_nLockTime tx))"

definition Unserialize_CMutableTransaction :: "nat \<Rightarrow> nat \<Rightarrow> CMutableTransaction reader" where
  "Unserialize_CMutableTransaction ci co =
     rbind ser_readdata32 (\<lambda>v.
     rbind (Unserialize_vector Unserialize_CTxIn ci) (\<lambda>i.
     rbind (Unserialize_vector Unserialize_CTxOut co) (\<lambda>out.
     rbind ser_readdata32 (\<lambda>l.
       rret \<lparr>mtx_nVersion = v, mtx_vin = i, mtx_vout = out, mtx_nLockTime = l\<rparr>))))"

definition CMutableTransaction_default :: CMutableTransaction where
  "CMutableTransaction_default = \<lparr>mtx_nVersion = CURRENT_VERSION, mtx_vin = [], mtx_vout = [], mtx_nLockTime = 0\<rparr>"

definition CMutableTransaction_of :: "CTransaction \<Rightarrow> CMutableTransaction" where
  "CMutableTransaction_of tx =
     \<lparr>mtx_nVersion = tx_nVersion tx, mtx_vin = vin tx, mtx_vout = vout tx, mtx_nLockTime = nLockTime tx\<rparr>"

definition CMutableTransaction_GetHash :: "bytes \<Rightarrow> CMutableTransaction \<Rightarrow> uint256 option" where
  "CMutableTransaction_GetHash junk tx =
     SerializeHash junk (\<lambda>_ _. Serialize_tx_fields (mtx_nVersion tx) (mtx_vin tx) (mtx_vout tx) (mtx_nLockTime tx))
       SER_GETHASH BITCOIN_PROTOCOL_VERSION"

definition Serialize_CTransaction :: "CTransaction \<Rightarrow> bytes" where
  "Serialize_CTransaction tx = concat (Serialize_tx_fields (tx_nVersion tx) (vin tx) (vout tx) (nLockTime tx))"

definition UpdateHash :: "bytes \<Rightarrow> CTransaction \<Rightarrow> CTransaction option" where
  "UpdateHash junk tx = do {
     h \<leftarrow> SerializeHash junk (\<lambda>_ _. Serialize_tx_fields (tx_nVersion tx) (vin tx) (vout tx) (nLockTime tx))
            SER_GETHASH BITCOIN_PROTOCOL_VERSION;
     Some (tx\<lparr>tx_hash := h\<rparr>)
   }"

definition CTransaction_default :: CTransaction where
  "CTransaction_default = \<lparr>tx_nVersion = CURRENT_VERSION, vin = [], vout = [], nLockTime = 0, tx_hash = replicate 32 0\<rparr>"

definition CTransaction_of :: "bytes \<Rightarrow> CMutableTransaction \<Rightarrow> CTransaction option" where
  "CTransaction_of junk tx =
     UpdateHash junk \<lparr>tx_nVersion = mtx_nVersion tx, vin = mtx_vin tx, vout = mtx_vout tx,
       nLockTime = mtx_nLockTime tx, tx_hash = replicate 32 0\<rparr>"

text \<open>Reading ends with \<^verbatim>\<open>UpdateHash\<close>; a fault inside the hash would be an \<open>Inl\<close> here.\<close>

definition Unserialize_CTransaction :: "nat \<Rightarrow> nat \<Rightarrow> bytes \<Rightarrow> CTransaction reader" where
  "Unserialize_CTransaction ci co junk =
     rbind ser_readdata32 (\<lambda>v.
     rbind (Unserialize_vector Unserialize_CTxIn ci) (\<lambda>i.
     rbind (Unserialize_vector Unserialize_CTxOut co) (\<lambda>out.
     rbind ser_readdata32 (\<lambda>l.
       case UpdateHash junk \<lparr>tx_nVersion = v, vin = i, vout = out, nLockTime = l, tx_hash = replicate 32 0\<rparr> of
         None \<Rightarrow> rfail ''fault''
       | Some tx \<Rightarrow> rret tx))))"

definition CTransaction_IsNull :: "CTransaction \<Rightarrow> bool" where
  "CTransaction_IsNull tx \<longleftrightarrow> vin tx = [] \<and> vout tx = []"

definition IsCoinBase :: "CTransaction \<Rightarrow> bool" where
  "IsCoinBase tx \<longleftrightarrow> length (vin tx) = 1 \<and> COutPoint_IsNull (prevout (vin tx ! 0))"

text \<open>
  \<^verbatim>\<open>GetValueOut\<close> adds before it checks: \<open>None\<close> is the signed overflow of the addition (undefined
  behaviour), an \<open>Inl\<close> the exception.
\<close>

fun GetValueOut_loop :: "int \<Rightarrow> CTxOut list \<Rightarrow> (string + int) option" where
  "GetValueOut_loop nValueOut [] = Some (Inr nValueOut)"
| "GetValueOut_loop nValueOut (t # ts) = do {
     s \<leftarrow> int64 (nValueOut + sint (nValue t));
     if \<not> MoneyRange (sint (nValue t)) \<or> \<not> MoneyRange s
     then Some (Inl ''CTransaction::GetValueOut(): value out of range'')
     else GetValueOut_loop s ts
   }"

definition GetValueOut :: "CTransaction \<Rightarrow> (string + int) option" where
  "GetValueOut tx = GetValueOut_loop 0 (vout tx)"

definition GetTotalSize :: "CTransaction \<Rightarrow> nat" where
  "GetTotalSize tx = length (Serialize_CTransaction tx)"

fun CalculateModifiedSize_loop :: "nat \<Rightarrow> CTxIn list \<Rightarrow> nat" where
  "CalculateModifiedSize_loop nTxSize [] = nTxSize"
| "CalculateModifiedSize_loop nTxSize (it # its) =
     (let offset = 41 + min 110 (length (scriptSig it))
      in CalculateModifiedSize_loop (if offset < nTxSize then nTxSize - offset else nTxSize) its)"

definition CalculateModifiedSize :: "CTransaction \<Rightarrow> nat \<Rightarrow> nat" where
  "CalculateModifiedSize tx nTxSize =
     CalculateModifiedSize_loop (if nTxSize = 0 then length (Serialize_CTransaction tx) else nTxSize) (vin tx)"

text \<open>The BIP69 orders: hashes are compared from their last byte, outputs by value and then script.\<close>

fun lex_less :: "bytes \<Rightarrow> bytes \<Rightarrow> bool" where
  "lex_less [] [] \<longleftrightarrow> False"
| "lex_less [] (y # ys) \<longleftrightarrow> True"
| "lex_less (x # xs) [] \<longleftrightarrow> False"
| "lex_less (x # xs) (y # ys) \<longleftrightarrow> (if x < y then True else if y < x then False else lex_less xs ys)"

definition CompareInputBIP69 :: "CTxIn \<Rightarrow> CTxIn \<Rightarrow> bool" where
  "CompareInputBIP69 a b \<longleftrightarrow>
     (if op_hash (prevout a) = op_hash (prevout b) then op_n (prevout a) < op_n (prevout b)
      else lex_less (rev (op_hash (prevout a))) (rev (op_hash (prevout b))))"

text \<open>\<^verbatim>\<open>operator<\<close> of \<^verbatim>\<open>prevector\<close>: the size decides first.\<close>

fun prevector_less_loop :: "bytes \<Rightarrow> bytes \<Rightarrow> bool" where
  "prevector_less_loop [] b2 \<longleftrightarrow> False"
| "prevector_less_loop (x # b1) b2 \<longleftrightarrow>
     (if x < hd b2 then True else if hd b2 < x then False else prevector_less_loop b1 (tl b2))"

definition prevector_less :: "bytes \<Rightarrow> bytes \<Rightarrow> bool" where
  "prevector_less a b \<longleftrightarrow>
     (if length a < length b then True else if length a > length b then False else prevector_less_loop a b)"

definition CompareOutputBIP69 :: "CTxOut \<Rightarrow> CTxOut \<Rightarrow> bool" where
  "CompareOutputBIP69 a b \<longleftrightarrow>
     sint (nValue a) < sint (nValue b) \<or>
     (sint (nValue a) = sint (nValue b) \<and> prevector_less (scriptPubKey a) (scriptPubKey b))"

section \<open>Serialization is canonical\<close>

interpretation outpoint: serializable Serialize_COutPoint Unserialize_COutPoint "\<lambda>p. length (op_hash p) = 32"
proof
  fix p :: COutPoint assume "length (op_hash p) = 32"
  then show "reads Unserialize_COutPoint p (Serialize_COutPoint p)"
    unfolding Unserialize_COutPoint_def Serialize_COutPoint_def
    by (auto simp: reads_def rbind_def rret_def stream_read_def data_reads)
next
  fix s p r assume "Unserialize_COutPoint s = Inr (p, r)"
  then show "length (op_hash p) = 32 \<and> s = Serialize_COutPoint p @ r"
    unfolding Unserialize_COutPoint_def Serialize_COutPoint_def
    by (auto simp: reader_Inr dest!: canon_data32)
qed

definition ok_txin :: "CTxIn \<Rightarrow> bool" where
  "ok_txin t \<longleftrightarrow> length (op_hash (prevout t)) = 32 \<and> length (scriptSig t) \<le> MAX_SIZE \<and> prevPubKey t = []"

definition ok_txout :: "CTxOut \<Rightarrow> bool" where
  "ok_txout t \<longleftrightarrow> length (scriptPubKey t) \<le> MAX_SIZE \<and> nRounds t = - 10"

interpretation txin: serializable Serialize_CTxIn Unserialize_CTxIn ok_txin
proof
  fix t assume "ok_txin t"
  then have "reads Unserialize_CTxIn
      (CTxIn_default\<lparr>prevout := prevout t, scriptSig := scriptSig t, nSequence := nSequence t\<rparr>) (Serialize_CTxIn t)"
    unfolding Unserialize_CTxIn_def Serialize_CTxIn_def ok_txin_def
    by (auto simp: reads_def rbind_def rret_def data_reads
        outpoint.unser_ser [unfolded reads_def, rule_format] sbytes.unser_ser [unfolded reads_def, rule_format])
  moreover have "CTxIn_default\<lparr>prevout := prevout t, scriptSig := scriptSig t, nSequence := nSequence t\<rparr> = t"
    using \<open>ok_txin t\<close> by (cases t) (simp add: CTxIn_default_def ok_txin_def)
  ultimately show "reads Unserialize_CTxIn t (Serialize_CTxIn t)" by simp
next
  fix s t r assume "Unserialize_CTxIn s = Inr (t, r)"
  then show "ok_txin t \<and> s = Serialize_CTxIn t @ r"
    unfolding Unserialize_CTxIn_def Serialize_CTxIn_def ok_txin_def
    by (auto simp: reader_Inr CTxIn_default_def dest!: canon_data32 outpoint.unser_canon sbytes.unser_canon)
qed

interpretation txout: serializable Serialize_CTxOut Unserialize_CTxOut ok_txout
proof
  fix t assume "ok_txout t"
  then have "reads Unserialize_CTxOut
      (CTxOut_SetNull\<lparr>nValue := nValue t, scriptPubKey := scriptPubKey t\<rparr>) (Serialize_CTxOut t)"
    unfolding Unserialize_CTxOut_def Serialize_CTxOut_def ok_txout_def
    by (auto simp: reads_def rbind_def rret_def data_reads sbytes.unser_ser [unfolded reads_def, rule_format])
  moreover have "CTxOut_SetNull\<lparr>nValue := nValue t, scriptPubKey := scriptPubKey t\<rparr> = t"
    using \<open>ok_txout t\<close> by (cases t) (simp add: CTxOut_SetNull_def ok_txout_def)
  ultimately show "reads Unserialize_CTxOut t (Serialize_CTxOut t)" by simp
next
  fix s t r assume "Unserialize_CTxOut s = Inr (t, r)"
  then show "ok_txout t \<and> s = Serialize_CTxOut t @ r"
    unfolding Unserialize_CTxOut_def Serialize_CTxOut_def ok_txout_def
    by (auto simp: reader_Inr CTxOut_SetNull_def dest!: canon_data64 sbytes.unser_canon)
qed

interpretation txins: serializable "Serialize_vector Serialize_CTxIn" "Unserialize_vector Unserialize_CTxIn ci"
  "\<lambda>v. length v \<le> MAX_SIZE \<and> (\<forall>t \<in> set v. ok_txin t)" for ci
  by (rule txin.vector_contract)

interpretation txouts: serializable "Serialize_vector Serialize_CTxOut" "Unserialize_vector Unserialize_CTxOut co"
  "\<lambda>v. length v \<le> MAX_SIZE \<and> (\<forall>t \<in> set v. ok_txout t)" for co
  by (rule txout.vector_contract)

definition ok_tx_fields :: "CTxIn list \<Rightarrow> CTxOut list \<Rightarrow> bool" where
  "ok_tx_fields i out \<longleftrightarrow> length i \<le> MAX_SIZE \<and> (\<forall>t \<in> set i. ok_txin t) \<and> length out \<le> MAX_SIZE \<and> (\<forall>t \<in> set out. ok_txout t)"

lemma tx_fields_iff:
  "(\<exists>s1 s2 s3. ser_readdata32 s = Inr (v, s1) \<and> Unserialize_vector Unserialize_CTxIn ci s1 = Inr (i, s2) \<and>
      Unserialize_vector Unserialize_CTxOut co s2 = Inr (out, s3) \<and> ser_readdata32 s3 = Inr (l, r)) \<longleftrightarrow>
   ok_tx_fields i out \<and> s = concat (Serialize_tx_fields v i out l) @ r"
  unfolding ser32.unser_iff txins.unser_iff txouts.unser_iff ok_tx_fields_def Serialize_tx_fields_def by auto

lemma Unserialize_CMutableTransaction_iff:
  "Unserialize_CMutableTransaction ci co s = Inr (tx, r) \<longleftrightarrow>
     ok_tx_fields (mtx_vin tx) (mtx_vout tx) \<and> s = Serialize_CMutableTransaction tx @ r"
proof -
  have "Unserialize_CMutableTransaction ci co s = Inr (tx, r) \<longleftrightarrow>
      (\<exists>s1 s2 s3. ser_readdata32 s = Inr (mtx_nVersion tx, s1) \<and> Unserialize_vector Unserialize_CTxIn ci s1 = Inr (mtx_vin tx, s2) \<and>
        Unserialize_vector Unserialize_CTxOut co s2 = Inr (mtx_vout tx, s3) \<and> ser_readdata32 s3 = Inr (mtx_nLockTime tx, r))"
    unfolding Unserialize_CMutableTransaction_def by (cases tx) (auto simp: reader_Inr)
  then show ?thesis unfolding tx_fields_iff Serialize_CMutableTransaction_def .
qed

lemma UpdateHash_sha256:
  "length junk = 64 \<Longrightarrow> UpdateHash junk tx = Some (tx\<lparr>tx_hash := fips_sha256 (fips_sha256 (Serialize_CTransaction tx))\<rparr>)"
  by (simp add: UpdateHash_def SerializeHash_sha256 Serialize_CTransaction_def)

lemma Unserialize_CTransaction_iff:
  assumes "length junk = 64"
  shows "Unserialize_CTransaction ci co junk s = Inr (tx, r) \<longleftrightarrow>
    ok_tx_fields (vin tx) (vout tx) \<and> tx_hash tx = fips_sha256 (fips_sha256 (Serialize_CTransaction tx)) \<and>
    s = Serialize_CTransaction tx @ r"
proof -
  have "Unserialize_CTransaction ci co junk s = Inr (tx, r) \<longleftrightarrow>
      tx_hash tx = fips_sha256 (fips_sha256 (Serialize_CTransaction tx)) \<and>
      (\<exists>s1 s2 s3. ser_readdata32 s = Inr (tx_nVersion tx, s1) \<and> Unserialize_vector Unserialize_CTxIn ci s1 = Inr (vin tx, s2) \<and>
        Unserialize_vector Unserialize_CTxOut co s2 = Inr (vout tx, s3) \<and> ser_readdata32 s3 = Inr (nLockTime tx, r))"
    unfolding Unserialize_CTransaction_def UpdateHash_sha256 [OF assms]
    by (cases tx) (auto simp: reader_Inr Serialize_CTransaction_def)
  then show ?thesis unfolding tx_fields_iff Serialize_CTransaction_def by auto
qed

section \<open>Values and orders\<close>

lemma GetValueOut_loop_iff:
  assumes "0 \<le> a" "a \<le> MAX_MONEY"
  shows "GetValueOut_loop a ts = Some (Inr v) \<longleftrightarrow>
    (\<forall>t \<in> set ts. MoneyRange (sint (nValue t))) \<and> v = a + (\<Sum>t \<leftarrow> ts. sint (nValue t)) \<and> MoneyRange v"
  using assms
proof (induction ts arbitrary: a)
  case Nil
  then show ?case by (auto simp: MoneyRange_def)
next
  case (Cons t ts)
  have nn: "0 \<le> (\<Sum>t \<leftarrow> ts. sint (nValue t))" if "\<forall>t \<in> set ts. MoneyRange (sint (nValue t))"
    using that by (induction ts) (auto simp: MoneyRange_def)
  let ?x = "sint (nValue t)"
  have ov: "int64 (a + ?x) = Some (a + ?x)" if "MoneyRange ?x"
    using that Cons.prems by (simp add: int64_def MoneyRange_def MAX_MONEY_def COIN_def int64_min_def int64_max_def)
  show ?case
  proof (cases "MoneyRange ?x \<and> MoneyRange (a + ?x)")
    case True
    then show ?thesis using Cons.IH [of "a + ?x"] ov by (auto simp: MoneyRange_def add.assoc)
  next
    case False
    have "GetValueOut_loop a (t # ts) \<noteq> Some (Inr v)"
      using False by (auto simp: int64_def split: if_splits)
    moreover have "\<not> MoneyRange (a + (?x + (\<Sum>t \<leftarrow> ts. sint (nValue t))))"
      if "MoneyRange ?x" "\<forall>t \<in> set ts. MoneyRange (sint (nValue t))"
      using nn [OF that(2)] that(1) False Cons.prems by (auto simp: MoneyRange_def)
    ultimately show ?thesis by auto
  qed
qed

lemma GetValueOut_loop_fault:
  assumes "0 \<le> a" "a \<le> MAX_MONEY" "GetValueOut_loop a ts = None"
  shows "\<exists>t \<in> set ts. sint (nValue t) > int64_max - MAX_MONEY"
  using assms
proof (induction ts arbitrary: a)
  case (Cons t ts)
  let ?x = "sint (nValue t)"
  have lo: "int64_min \<le> ?x" using sint_ge [of "nValue t"] by (simp add: int64_min_def)
  show ?case
  proof (cases "int64 (a + ?x)")
    case None
    then have "a + ?x > int64_max" using lo Cons.prems by (auto simp: int64_def split: if_splits)
    then show ?thesis using Cons.prems by auto
  next
    case (Some s)
    then show ?thesis using Cons.prems Cons.IH [of s] by (auto simp: MoneyRange_def split: if_splits)
  qed
qed simp

lemma GetValueOut_overflows:
  "GetValueOut (CTransaction_default\<lparr>vout := [CTxOut_ctor 2100000000000000 [], CTxOut_ctor 0x7fffffffffffffff []]\<rparr>) = None"
  by (simp add: GetValueOut_def CTransaction_default_def CTxOut_ctor_def int64_def MoneyRange_def MAX_MONEY_def COIN_def
      int64_min_def int64_max_def)

lemma lex_less_irrefl: "\<not> lex_less x x"
  by (induction x) auto

lemma lex_less_trans: "lex_less x y \<Longrightarrow> lex_less y z \<Longrightarrow> lex_less x z"
proof (induction x y arbitrary: z rule: lex_less.induct)
  case (4 a x b y)
  then show ?case by (cases z) (auto split: if_splits)
next
  case (2 b y)
  then show ?case by (cases z) auto
qed auto

lemma lex_less_total: "x = y \<or> lex_less x y \<or> lex_less y x"
  by (induction x y rule: lex_less.induct) auto

lemma prevector_less_loop_lex: "length a = length b \<Longrightarrow> prevector_less_loop a b \<longleftrightarrow> lex_less a b"
  by (induction a b rule: list_induct2) auto

lemma prevector_less_alt: "prevector_less a b \<longleftrightarrow> length a < length b \<or> (length a = length b \<and> lex_less a b)"
  by (auto simp: prevector_less_def prevector_less_loop_lex)

lemma BIP69_scripts:
  "prevector_less [2] [1, 0] \<and> \<not> prevector_less [1, 0] [2] \<and> lex_less [1, 0] [2] \<and> \<not> lex_less [2] [1, 0]"
  by (simp add: prevector_less_def)

section \<open>Properties\<close>

text \<open>
  C18. Transactions: a byte string is read as a transaction exactly when it starts with the serialization of
  that transaction, and then nothing else is consumed, the vectors are within \<^verbatim>\<open>MAX_SIZE\<close> and the cached hash
  is the double SHA-256 of those bytes. So reading and writing are inverse, and no two byte strings
  give the same transaction.
\<close>

theorem CTransaction_canonical:
  assumes "length junk = 64"
  shows "Unserialize_CTransaction ci co junk s = Inr (tx, r) \<longleftrightarrow>
    ok_tx_fields (vin tx) (vout tx) \<and> tx_hash tx = fips_sha256 (fips_sha256 (Serialize_CTransaction tx)) \<and>
    s = Serialize_CTransaction tx @ r"
  using assms by (rule Unserialize_CTransaction_iff)

theorem CTransaction_canonical_witness:
  "length (replicate 64 (0 :: byte)) = 64 \<and>
   Unserialize_CTransaction 9 9 (replicate 64 0) ([1, 0, 0, 0, 0, 0, 0, 0, 0, 0] @ [5]) =
     Inr (CTransaction_default\<lparr>tx_hash := fips_sha256 (fips_sha256 [1, 0, 0, 0, 0, 0, 0, 0, 0, 0])\<rparr>, [5])"
proof -
  let ?t = "CTransaction_default\<lparr>tx_hash := fips_sha256 (fips_sha256 [1, 0, 0, 0, 0, 0, 0, 0, 0, 0])\<rparr>"
  have "Serialize_CTransaction ?t = [1, 0, 0, 0, 0, 0, 0, 0, 0, 0]"
    by (simp add: Serialize_CTransaction_def Serialize_tx_fields_def CTransaction_default_def CURRENT_VERSION_def
        Serialize_vector_def WriteCompactSize_def ser_writedata8_def ser_writedata32_def wlist_4)
  then show ?thesis
    using CTransaction_canonical [of "replicate 64 0" 9 9 "[1, 0, 0, 0, 0, 0, 0, 0, 0, 0] @ [5]" ?t "[5]"]
    by (simp add: ok_tx_fields_def CTransaction_default_def)
qed



text \<open>
  C39. The comparators that \<^verbatim>\<open>std::sort\<close> is called with are strict orders: \<^verbatim>\<open>CompareInputBIP69\<close> on inputs and
  \<^verbatim>\<open>CompareOutputBIP69\<close> on outputs are irreflexive, transitive, and leave only inputs of the same outpoint and
  outputs of the same value and script incomparable.
\<close>

theorem BIP69_strict_orders:
  "\<not> CompareInputBIP69 a a \<and> \<not> CompareOutputBIP69 x x \<and>
   (CompareInputBIP69 a b \<and> CompareInputBIP69 b c \<longrightarrow> CompareInputBIP69 a c) \<and>
   (CompareOutputBIP69 x y \<and> CompareOutputBIP69 y z \<longrightarrow> CompareOutputBIP69 x z) \<and>
   (CompareInputBIP69 a b \<or> CompareInputBIP69 b a \<or>
      op_hash (prevout a) = op_hash (prevout b) \<and> op_n (prevout a) = op_n (prevout b)) \<and>
   (CompareOutputBIP69 x y \<or> CompareOutputBIP69 y x \<or> nValue x = nValue y \<and> scriptPubKey x = scriptPubKey y)"
proof -
  have "CompareInputBIP69 a b \<and> CompareInputBIP69 b c \<Longrightarrow> CompareInputBIP69 a c"
    using lex_less_trans [of "rev (op_hash (prevout a))" "rev (op_hash (prevout b))" "rev (op_hash (prevout c))"] lex_less_irrefl
    by (auto simp: CompareInputBIP69_def split: if_splits)
  moreover have "CompareOutputBIP69 x y \<and> CompareOutputBIP69 y z \<Longrightarrow> CompareOutputBIP69 x z"
    using lex_less_trans by (auto simp: CompareOutputBIP69_def prevector_less_alt)
  moreover have "CompareInputBIP69 a b \<or> CompareInputBIP69 b a \<or>
      op_hash (prevout a) = op_hash (prevout b) \<and> op_n (prevout a) = op_n (prevout b)"
    using lex_less_total [of "rev (op_hash (prevout a))" "rev (op_hash (prevout b))"]
    by (auto simp: CompareInputBIP69_def)
  moreover have "CompareOutputBIP69 x y \<or> CompareOutputBIP69 y x \<or> nValue x = nValue y \<and> scriptPubKey x = scriptPubKey y"
    using lex_less_total [of "scriptPubKey x" "scriptPubKey y"]
    by (auto simp: CompareOutputBIP69_def prevector_less_alt signed_word_eqI)
  ultimately show ?thesis
    by (auto simp: CompareInputBIP69_def CompareOutputBIP69_def prevector_less_alt lex_less_irrefl)
qed

theorem BIP69_strict_orders_witness:
  "CompareOutputBIP69 (CTxOut_ctor 1 []) (CTxOut_ctor 2 []) \<and> CompareOutputBIP69 (CTxOut_ctor 2 []) (CTxOut_ctor 2 [7]) \<and>
   CompareOutputBIP69 (CTxOut_ctor 1 []) (CTxOut_ctor 2 [7])"
  using BIP69_strict_orders [of CTxIn_default "CTxOut_ctor 1 []" CTxIn_default CTxIn_default "CTxOut_ctor 2 []" "CTxOut_ctor 2 [7]"]
  by (simp add: CompareOutputBIP69_def CTxOut_ctor_def prevector_less_def)

end
