(* ===== verification/Pubkey.thy ===== *)
theory Pubkey
  imports Transaction
begin

text \<open>
  \<^verbatim>\<open>pubkey.h\<close> and \<^verbatim>\<open>pubkey.cpp\<close>: serialized public keys, the lax DER parser for signatures, signature
  verification and recovery, and the public side of BIP32 derivation.

  The functions of libsecp256k1 that the code calls are the fields of \<open>secp256k1\<close>; \<^typ>\<open>'k\<close>, \<^typ>\<open>'s\<close> and \<^typ>\<open>'r\<close>
  are its opaque types of parsed keys, signatures and recoverable signatures. A parsing function is
  an option, except that \<^verbatim>\<open>secp256k1_ecdsa_signature_parse_compact\<close> writes its output also when it fails.

  A read outside of the input of the parser is \<open>None\<close>; its two results are \<open>Inl ()\<close> for \<^verbatim>\<open>return 0\<close> and
  \<open>Inr\<close>. The key object is an array of 65 bytes of which only the part used is ever written, so the
  operations that fill it have its previous content as an argument.
\<close>

record ('k, 's, 'r) secp256k1 =
  ecdsa_signature_parse_compact :: "bytes \<Rightarrow> bool \<times> 's"
  ecdsa_signature_normalize :: "'s \<Rightarrow> bool \<times> 's"
  ecdsa_verify :: "'s \<Rightarrow> bytes \<Rightarrow> 'k \<Rightarrow> bool"
  ec_pubkey_parse :: "bytes \<Rightarrow> 'k option"
  ec_pubkey_serialize :: "'k \<Rightarrow> bool \<Rightarrow> bytes"
  ec_pubkey_tweak_add :: "'k \<Rightarrow> bytes \<Rightarrow> 'k option"
  ecdsa_recoverable_signature_parse_compact :: "bytes \<Rightarrow> nat \<Rightarrow> 'r option"
  ecdsa_recover :: "'r \<Rightarrow> bytes \<Rightarrow> 'k option"

section \<open>The lax DER parser\<close>

type_synonym 'a parse = "(unit + 'a) option"

definition input_at :: "bytes \<Rightarrow> nat \<Rightarrow> byte parse" where
  "input_at input pos = (if pos < length input then Some (Inr (input ! pos)) else None)"

definition der_tag :: "byte \<Rightarrow> bytes \<Rightarrow> nat \<Rightarrow> nat parse" where
  "der_tag tag input pos =
     (if pos = length input then Some (Inl ())
      else ebind (input_at input pos) (\<lambda>b. if b \<noteq> tag then Some (Inl ()) else Some (Inr (pos + 1))))"

definition der_sequence_length :: "bytes \<Rightarrow> nat \<Rightarrow> nat parse" where
  "der_sequence_length input pos =
     (if pos = length input then Some (Inl ())
      else ebind (input_at input pos) (\<lambda>b.
        let lenbyte = unat b; pos = pos + 1 in
        if b AND 0x80 \<noteq> 0
        then let lenbyte = lenbyte - 0x80 in
             if pos + lenbyte > length input then Some (Inl ()) else Some (Inr (pos + lenbyte))
        else Some (Inr pos)))"

primrec skip_zeros :: "bytes \<Rightarrow> nat \<Rightarrow> nat \<Rightarrow> (nat \<times> nat) parse" where
  "skip_zeros input 0 pos = Some (Inr (pos, 0))"
| "skip_zeros input (Suc len) pos =
     ebind (input_at input pos) (\<lambda>b. if b = 0 then skip_zeros input len (pos + 1) else Some (Inr (pos, Suc len)))"

primrec der_length_bytes :: "bytes \<Rightarrow> nat \<Rightarrow> nat \<Rightarrow> nat \<Rightarrow> (nat \<times> nat) parse" where
  "der_length_bytes input 0 pos rlen = Some (Inr (pos, rlen))"
| "der_length_bytes input (Suc lenbyte) pos rlen =
     ebind (input_at input pos) (\<lambda>b. der_length_bytes input lenbyte (pos + 1) (push_bit 8 rlen + unat b))"

definition der_integer_length :: "bytes \<Rightarrow> nat \<Rightarrow> (nat \<times> nat) parse" where
  "der_integer_length input pos =
     (if pos = length input then Some (Inl ())
      else ebind (input_at input pos) (\<lambda>b.
        let lenbyte = unat b; pos = pos + 1 in
        ebind
          (if b AND 0x80 \<noteq> 0
           then let lenbyte = lenbyte - 0x80 in
                if pos + lenbyte > length input then Some (Inl ())
                else ebind (skip_zeros input lenbyte pos) (\<lambda>(pos, lenbyte).
                       if lenbyte \<ge> 8 then Some (Inl ()) else der_length_bytes input lenbyte pos 0)
           else Some (Inr (pos, lenbyte)))
          (\<lambda>(pos, rlen). if rlen > length input - pos then Some (Inl ()) else Some (Inr (pos, rlen)))))"

text \<open>The start and the length of an integer, and the position after it.\<close>

definition der_integer :: "bytes \<Rightarrow> nat \<Rightarrow> (nat \<times> nat \<times> nat) parse" where
  "der_integer input pos =
     ebind (der_tag 0x02 input pos) (\<lambda>pos.
     ebind (der_integer_length input pos) (\<lambda>(pos, len). Some (Inr (pos, len, pos + len))))"

text \<open>Copies the integer without leading zeros to the end of its half of \<^verbatim>\<open>tmpsig\<close>; \<open>True\<close> when it does not fit.\<close>

definition der_copy :: "bytes \<Rightarrow> nat \<Rightarrow> nat \<Rightarrow> nat \<Rightarrow> bytes \<Rightarrow> (bytes \<times> bool) parse" where
  "der_copy input rpos rlen pend tmpsig =
     ebind (skip_zeros input rlen rpos) (\<lambda>(rpos, rlen).
       if rlen > 32 then Some (Inr (tmpsig, True))
       else case memcpy tmpsig (int pend - int rlen) input (int rpos) (int rlen) of
              None \<Rightarrow> None | Some tmpsig \<Rightarrow> Some (Inr (tmpsig, False)))"

definition ecdsa_signature_parse_der_lax :: "('k, 's, 'r) secp256k1 \<Rightarrow> bytes \<Rightarrow> 's parse" where
  "ecdsa_signature_parse_der_lax ctx input =
     (let tmpsig = replicate 64 0 in
      ebind (der_tag 0x30 input 0) (\<lambda>pos.
      ebind (der_sequence_length input pos) (\<lambda>pos.
      ebind (der_integer input pos) (\<lambda>(rpos, rlen, pos).
      ebind (der_integer input pos) (\<lambda>(spos, slen, pos).
      ebind (der_copy input rpos rlen 32 tmpsig) (\<lambda>(tmpsig, overflow).
      ebind (der_copy input spos slen 64 tmpsig) (\<lambda>(tmpsig, overflow').
        let overflow = (overflow \<or> overflow');
            (ok, sig) = ecdsa_signature_parse_compact ctx tmpsig in
        if \<not> overflow \<and> ok then Some (Inr sig)
        else Some (Inr (snd (ecdsa_signature_parse_compact ctx (replicate 64 0)))))))))))"

section \<open>Public keys\<close>

record CPubKey =
  pk_vch :: bytes

definition GetLen :: "byte \<Rightarrow> nat" where
  "GetLen chHeader =
     (if chHeader = 2 \<or> chHeader = 3 then 33
      else if chHeader = 4 \<or> chHeader = 6 \<or> chHeader = 7 then 65 else 0)"

definition Invalidate :: "CPubKey \<Rightarrow> CPubKey" where
  "Invalidate k = k\<lparr>pk_vch := (pk_vch k)[0 := 0xFF]\<rparr>"

definition CPubKey_Set :: "CPubKey \<Rightarrow> bytes \<Rightarrow> CPubKey" where
  "CPubKey_Set k p =
     (let len = (if p = [] then 0 else GetLen (p ! 0)) in
      if len \<noteq> 0 \<and> len = length p then k\<lparr>pk_vch := p @ drop len (pk_vch k)\<rparr> else Invalidate k)"

definition CPubKey_default :: "bytes \<Rightarrow> CPubKey" where
  "CPubKey_default junk = Invalidate \<lparr>pk_vch = junk\<rparr>"

definition CPubKey_of :: "bytes \<Rightarrow> bytes \<Rightarrow> CPubKey" where
  "CPubKey_of junk p = CPubKey_Set \<lparr>pk_vch = junk\<rparr> p"

definition CPubKey_size :: "CPubKey \<Rightarrow> nat" where
  "CPubKey_size k = GetLen (pk_vch k ! 0)"

text \<open>The bytes from \<^verbatim>\<open>begin()\<close> to \<^verbatim>\<open>end()\<close>.\<close>

definition CPubKey_data :: "CPubKey \<Rightarrow> bytes" where
  "CPubKey_data k = take (CPubKey_size k) (pk_vch k)"

definition CPubKey_eq :: "CPubKey \<Rightarrow> CPubKey \<Rightarrow> bool" where
  "CPubKey_eq a b \<longleftrightarrow> pk_vch a ! 0 = pk_vch b ! 0 \<and> take (CPubKey_size a) (pk_vch a) = take (CPubKey_size a) (pk_vch b)"

definition CPubKey_less :: "CPubKey \<Rightarrow> CPubKey \<Rightarrow> bool" where
  "CPubKey_less a b \<longleftrightarrow> pk_vch a ! 0 < pk_vch b ! 0 \<or>
     pk_vch a ! 0 = pk_vch b ! 0 \<and> memcmp_lt (take (CPubKey_size a) (pk_vch a)) (take (CPubKey_size a) (pk_vch b))"

definition CPubKey_IsValid :: "CPubKey \<Rightarrow> bool" where
  "CPubKey_IsValid k \<longleftrightarrow> CPubKey_size k > 0"

definition CPubKey_IsCompressed :: "CPubKey \<Rightarrow> bool" where
  "CPubKey_IsCompressed k \<longleftrightarrow> CPubKey_size k = 33"

definition CPubKey_GetSerializeSize :: "CPubKey \<Rightarrow> nat" where
  "CPubKey_GetSerializeSize k = CPubKey_size k + 1"

definition Serialize_CPubKey :: "CPubKey \<Rightarrow> bytes" where
  "Serialize_CPubKey k = WriteCompactSize (word_of_nat (CPubKey_size k)) @ take (CPubKey_size k) (pk_vch k)"

primrec skip_bytes :: "nat \<Rightarrow> unit reader" where
  "skip_bytes 0 = rret ()"
| "skip_bytes (Suc len) = rbind (stream_read 1) (\<lambda>_. skip_bytes len)"

definition Unserialize_CPubKey :: "CPubKey \<Rightarrow> CPubKey reader" where
  "Unserialize_CPubKey k =
     rbind ReadCompactSize (\<lambda>n. let len = unat (ucast n :: u32) in
       if len \<le> 65 then rbind (stream_read len) (\<lambda>b. rret (k\<lparr>pk_vch := b @ drop len (pk_vch k)\<rparr>))
       else rbind (skip_bytes len) (\<lambda>_. rret (Invalidate k)))"

definition CPubKey_GetID :: "bytes \<Rightarrow> bytes \<Rightarrow> CPubKey \<Rightarrow> bytes option" where
  "CPubKey_GetID j jr k = Hash160 j jr (CPubKey_data k)"

definition CPubKey_GetHash :: "bytes \<Rightarrow> CPubKey \<Rightarrow> bytes option" where
  "CPubKey_GetHash j k = Hash1 j (CPubKey_data k)"

section \<open>Operations on the curve\<close>

definition CPubKey_Verify :: "('k, 's, 'r) secp256k1 \<Rightarrow> CPubKey \<Rightarrow> bytes \<Rightarrow> bytes \<Rightarrow> bool option" where
  "CPubKey_Verify ctx k h vchSig =
     (if \<not> CPubKey_IsValid k then Some False
      else case ec_pubkey_parse ctx (CPubKey_data k) of None \<Rightarrow> Some False
        | Some pubkey \<Rightarrow>
            if length vchSig = 0 then Some False
            else case ecdsa_signature_parse_der_lax ctx vchSig of
                None \<Rightarrow> None
              | Some (Inl _) \<Rightarrow> Some False
              | Some (Inr sig) \<Rightarrow> Some (ecdsa_verify ctx (snd (ecdsa_signature_normalize ctx sig)) h pubkey))"

definition CPubKey_CheckLowS :: "('k, 's, 'r) secp256k1 \<Rightarrow> bytes \<Rightarrow> bool option" where
  "CPubKey_CheckLowS ctx vchSig =
     (case ecdsa_signature_parse_der_lax ctx vchSig of
        None \<Rightarrow> None
      | Some (Inl _) \<Rightarrow> Some False
      | Some (Inr sig) \<Rightarrow> Some (\<not> fst (ecdsa_signature_normalize ctx sig)))"

definition CPubKey_RecoverCompact :: "('k, 's, 'r) secp256k1 \<Rightarrow> CPubKey \<Rightarrow> bytes \<Rightarrow> bytes \<Rightarrow> bool \<times> CPubKey" where
  "CPubKey_RecoverCompact ctx k h vchSig =
     (if length vchSig \<noteq> 65 then (False, k)
      else let recid = (uint (vchSig ! 0) - 27) AND 3;
               fComp = ((uint (vchSig ! 0) - 27) AND 4 \<noteq> 0) in
        case ecdsa_recoverable_signature_parse_compact ctx (drop 1 vchSig) (nat recid) of None \<Rightarrow> (False, k)
        | Some sig \<Rightarrow> (case ecdsa_recover ctx sig h of None \<Rightarrow> (False, k)
            | Some pubkey \<Rightarrow> (True, CPubKey_Set k (ec_pubkey_serialize ctx pubkey fComp))))"

definition CPubKey_IsFullyValid :: "('k, 's, 'r) secp256k1 \<Rightarrow> CPubKey \<Rightarrow> bool" where
  "CPubKey_IsFullyValid ctx k =
     (if \<not> CPubKey_IsValid k then False else ec_pubkey_parse ctx (CPubKey_data k) \<noteq> None)"

definition CPubKey_Decompress :: "('k, 's, 'r) secp256k1 \<Rightarrow> CPubKey \<Rightarrow> bool \<times> CPubKey" where
  "CPubKey_Decompress ctx k =
     (if \<not> CPubKey_IsValid k then (False, k)
      else case ec_pubkey_parse ctx (CPubKey_data k) of None \<Rightarrow> (False, k)
        | Some pubkey \<Rightarrow> (True, CPubKey_Set k (ec_pubkey_serialize ctx pubkey False)))"

text \<open>
  The result is the child key and its chain code; the chain code is written before the curve
  operations can fail. A failed assertion is \<open>None\<close>.
\<close>

definition CPubKey_Derive ::
  "bytes \<Rightarrow> bytes \<Rightarrow> bytes \<Rightarrow> ('k, 's, 'r) secp256k1 \<Rightarrow> CPubKey \<Rightarrow> CPubKey \<Rightarrow> u32 \<Rightarrow> bytes \<Rightarrow>
   (bool \<times> CPubKey \<times> bytes) option" where
  "CPubKey_Derive jo ji jk ctx k pubkeyChild nChild cc =
     (if \<not> CPubKey_IsValid k \<or> drop_bit 31 nChild \<noteq> 0 \<or> CPubKey_size k \<noteq> 33 then None
      else do {
        out \<leftarrow> BIP32Hash jo ji jk cc nChild (pk_vch k ! 0) (drop 1 (pk_vch k));
        let ccChild = take 32 (drop 32 out);
        case ec_pubkey_parse ctx (CPubKey_data k) of None \<Rightarrow> Some (False, pubkeyChild, ccChild)
        | Some pubkey \<Rightarrow> (case ec_pubkey_tweak_add ctx pubkey (take 32 out) of None \<Rightarrow> Some (False, pubkeyChild, ccChild)
            | Some pubkey \<Rightarrow> Some (True, CPubKey_Set pubkeyChild (ec_pubkey_serialize ctx pubkey True), ccChild))
      })"

section \<open>Extended public keys\<close>

record CExtPubKey =
  xp_nDepth :: byte
  xp_vchFingerprint :: bytes
  xp_nChild :: u32
  xp_chaincode :: bytes
  xp_pubkey :: CPubKey

definition CExtPubKey_eq :: "CExtPubKey \<Rightarrow> CExtPubKey \<Rightarrow> bool" where
  "CExtPubKey_eq a b \<longleftrightarrow> xp_nDepth a = xp_nDepth b \<and> xp_vchFingerprint a = xp_vchFingerprint b \<and> xp_nChild a = xp_nChild b \<and>
     xp_chaincode a = xp_chaincode b \<and> CPubKey_eq (xp_pubkey a) (xp_pubkey b)"

definition CExtPubKey_Encode :: "CExtPubKey \<Rightarrow> bytes option" where
  "CExtPubKey_Encode x =
     (let n = xp_nChild x in
      if CPubKey_size (xp_pubkey x) \<noteq> 33 then None
      else Some (xp_nDepth x # take 4 (xp_vchFingerprint x) @
        [ucast (drop_bit 24 n AND 0xFF), ucast (drop_bit 16 n AND 0xFF), ucast (drop_bit 8 n AND 0xFF), ucast (drop_bit 0 n AND 0xFF)] @
        take 32 (xp_chaincode x) @ take 33 (pk_vch (xp_pubkey x))))"

definition CExtPubKey_Decode :: "CExtPubKey \<Rightarrow> bytes \<Rightarrow> CExtPubKey" where
  "CExtPubKey_Decode x code =
     x\<lparr>xp_nDepth := code ! 0, xp_vchFingerprint := take 4 (drop 1 code),
       xp_nChild := push_bit 24 (ucast (code ! 5)) OR (push_bit 16 (ucast (code ! 6)) OR (push_bit 8 (ucast (code ! 7)) OR ucast (code ! 8))),
       xp_chaincode := take 32 (drop 9 code),
       xp_pubkey := CPubKey_Set (xp_pubkey x) (take 33 (drop 41 code))\<rparr>"

definition CExtPubKey_Derive ::
  "bytes \<Rightarrow> bytes \<Rightarrow> bytes \<Rightarrow> bytes \<Rightarrow> bytes \<Rightarrow> ('k, 's, 'r) secp256k1 \<Rightarrow> CExtPubKey \<Rightarrow> CExtPubKey \<Rightarrow> u32 \<Rightarrow>
   (bool \<times> CExtPubKey) option" where
  "CExtPubKey_Derive j jr jo ji jk ctx x out nChild = do {
     id \<leftarrow> CPubKey_GetID j jr (xp_pubkey x);
     let out = out\<lparr>xp_nDepth := xp_nDepth x + 1, xp_vchFingerprint := take 4 id, xp_nChild := nChild\<rparr>;
     (ok, pk, cc) \<leftarrow> CPubKey_Derive jo ji jk ctx (xp_pubkey x) (xp_pubkey out) nChild (xp_chaincode x);
     Some (ok, out\<lparr>xp_pubkey := pk, xp_chaincode := cc\<rparr>)
   }"

section \<open>The parser stays inside its input\<close>

lemma input_at_ok: "pos < length input \<Longrightarrow> input_at input pos = Some (Inr (input ! pos))"
  by (simp add: input_at_def)

lemma der_tag_ok: "pos \<le> length input \<Longrightarrow> eok (\<lambda>p. p \<le> length input) (der_tag tag input pos)"
  by (simp add: der_tag_def input_at_ok)

lemma der_sequence_length_ok: "pos \<le> length input \<Longrightarrow> eok (\<lambda>p. p \<le> length input) (der_sequence_length input pos)"
  by (simp add: der_sequence_length_def input_at_ok Let_def)

lemma skip_zeros_eq:
  "pos + len \<le> length input \<Longrightarrow>
   skip_zeros input len pos =
     (let z = length (takeWhile (\<lambda>b. b = 0) (take len (drop pos input))) in Some (Inr (pos + z, len - z)))"
proof (induction len arbitrary: pos)
  case (Suc len)
  have "drop pos input = input ! pos # drop (Suc pos) input" using Suc.prems by (simp add: Cons_nth_drop_Suc)
  then show ?case using Suc.IH [of "pos + 1"] Suc.prems by (simp add: input_at_ok Let_def)
qed simp

lemma skip_zeros_ok:
  assumes "pos + len \<le> length input"
  shows "eok (\<lambda>(p, l). p + l = pos + len \<and> l \<le> len) (skip_zeros input len pos)"
proof -
  have "length (takeWhile (\<lambda>b. b = 0) (take len (drop pos input))) \<le> len"
    using length_takeWhile_le [of "\<lambda>b. b = 0" "take len (drop pos input)"] by simp
  then show ?thesis by (simp add: skip_zeros_eq [OF assms] Let_def)
qed

lemma der_length_bytes_ok:
  "pos + n \<le> length input \<Longrightarrow> eok (\<lambda>(p, l). p \<le> length input) (der_length_bytes input n pos acc)"
  by (induction n arbitrary: pos acc) (simp_all add: input_at_ok)

lemma der_integer_length_ok:
  assumes "pos \<le> length input"
  shows "eok (\<lambda>(p, l). p + l \<le> length input) (der_integer_length input pos)"
proof (cases "pos = length input")
  case True then show ?thesis by (simp add: der_integer_length_def)
next
  case False
  let ?n = "unat (input ! pos) - 0x80"
  have "eok (\<lambda>(p, l). p \<le> length input)
      (ebind (skip_zeros input ?n (pos + 1)) (\<lambda>(pos, lenbyte).
         if lenbyte \<ge> 8 then Some (Inl ()) else der_length_bytes input lenbyte pos 0))"
    if "pos + 1 + ?n \<le> length input"
    using that by (intro eok_ebind [OF skip_zeros_ok [OF that]]) (auto intro!: der_length_bytes_ok)
  then have "eok (\<lambda>(p, l). p \<le> length input)
      (if input ! pos AND 0x80 \<noteq> 0
       then if pos + 1 + ?n > length input then Some (Inl ())
            else ebind (skip_zeros input ?n (pos + 1)) (\<lambda>(pos, lenbyte).
                   if lenbyte \<ge> 8 then Some (Inl ()) else der_length_bytes input lenbyte pos 0)
       else Some (Inr (pos + 1, unat (input ! pos))))"
    using False assms by (simp add: not_less)
  then have "eok (\<lambda>(p, l). p + l \<le> length input) (ebind \<dots> (\<lambda>(pos, rlen).
      if rlen > length input - pos then Some (Inl ()) else Some (Inr (pos, rlen))))"
    by (rule eok_ebind) auto
  then show ?thesis using False assms by (simp only: der_integer_length_def input_at_ok Let_def ebind_simps if_False)
qed

lemma der_integer_ok:
  "pos \<le> length input \<Longrightarrow> eok (\<lambda>(p, l, e). p + l = e \<and> e \<le> length input) (der_integer input pos)"
  unfolding der_integer_def
  by (rule eok_ebind [OF der_tag_ok], assumption, rule eok_ebind [OF der_integer_length_ok], assumption) auto

lemma der_copy_ok:
  assumes "rpos + rlen \<le> length input" "length tmpsig = 64" "32 \<le> pend" "pend \<le> 64"
  shows "eok (\<lambda>(t, ov). length t = 64) (der_copy input rpos rlen pend tmpsig)"
  unfolding der_copy_def
proof (rule eok_ebind [OF skip_zeros_ok [OF assms(1)]], clarify)
  fix p l assume "p + l = rpos + rlen" "l \<le> rlen"
  then show "eok (\<lambda>(t, ov). length t = 64)
      (if l > 32 then Some (Inr (tmpsig, True))
       else case memcpy tmpsig (int pend - int l) input (int p) (int l) of
              None \<Rightarrow> None | Some tmpsig \<Rightarrow> Some (Inr (tmpsig, False)))"
    using assms by (auto simp: memcpy_def split: option.split)
qed

lemma parse_der_lax_ok: "eok (\<lambda>_. True) (ecdsa_signature_parse_der_lax ctx input)"
  unfolding ecdsa_signature_parse_der_lax_def Let_def
  apply (rule eok_ebind [OF der_tag_ok], simp)
  apply (rule eok_ebind [OF der_sequence_length_ok], assumption)
  apply (rule eok_ebind [OF der_integer_ok], assumption, clarify)
  apply (rule eok_ebind [OF der_integer_ok], assumption, clarify)
  apply (rule eok_ebind [OF der_copy_ok], assumption, simp, simp, simp, clarify)
  apply (rule eok_ebind [OF der_copy_ok], assumption, simp, simp, simp, clarify)
  by (simp split: prod.split)

section \<open>Strict DER signatures\<close>

text \<open>The DER form of a signature with the integers \<open>r\<close> and \<open>s\<close>, and the 32 bytes that stand for an integer.\<close>

definition der_enc :: "bytes \<Rightarrow> bytes" where
  "der_enc r = 0x02 # word_of_nat (length r) # r"

definition der_sig :: "bytes \<Rightarrow> bytes \<Rightarrow> bytes" where
  "der_sig r s = 0x30 # word_of_nat (4 + length r + length s) # der_enc r @ der_enc s"

definition trim :: "bytes \<Rightarrow> bytes" where
  "trim r = dropWhile (\<lambda>b. b = 0) r"

definition pad32 :: "bytes \<Rightarrow> bytes" where
  "pad32 r = replicate (32 - length (trim r)) 0 @ trim r"

lemma length_trim: "length (trim r) \<le> length r"
  by (simp add: trim_def length_dropWhile_le)

lemma small_length_byte:
  assumes "n < 128"
  shows "unat (word_of_nat n :: byte) = n" "(word_of_nat n :: byte) AND 0x80 = 0"
proof -
  show u: "unat (word_of_nat n :: byte) = n" using assms by (simp add: unat_word_of_nat)
  show "(word_of_nat n :: byte) AND 0x80 = 0" using and_80 [of "word_of_nat n"] u assms by linarith
qed

lemma der_integer_enc:
  assumes "length r < 128" "input = pre @ der_enc r @ post" "p = length pre"
  shows "der_integer input p = Some (Inr (p + 2, length r, p + 2 + length r))"
proof -
  have l: "length input = p + 2 + length r + length post" using assms(2,3) by (simp add: der_enc_def)
  have "input ! p = 0x02" "input ! Suc p = word_of_nat (length r)"
    using assms(2,3) by (simp_all add: der_enc_def nth_append)
  then show ?thesis
    by (simp add: der_integer_def der_tag_def der_integer_length_def input_at_ok l small_length_byte [OF assms(1)] Let_def)
qed

lemma der_copy_enc:
  assumes "input = pre @ r @ post" "length tmpsig = 64" "32 \<le> pend" "pend \<le> 64" "p = length pre"
  shows "der_copy input p (length r) pend tmpsig =
    Some (Inr (if length (trim r) > 32 then (tmpsig, True)
               else (take (pend - length (trim r)) tmpsig @ trim r @ drop pend tmpsig, False)))"
proof -
  let ?z = "length (takeWhile (\<lambda>b. b = 0) r)" and ?l = "length (trim r)"
  have "?z + ?l = length r" unfolding trim_def by (simp only: length_append [symmetric] takeWhile_dropWhile_id)
  then have z: "length r - ?z = ?l" "?z + ?l = length r" by linarith+
  define q where "q = length pre + ?z"
  have t: "drop q input = trim r @ post"
    unfolding q_def assms(1) by (simp add: trim_def dropWhile_eq_drop length_takeWhile_le)
  have q: "q + ?l \<le> length input" using z(2) by (simp add: q_def assms(1))
  have "skip_zeros input (length r) p = Some (Inr (q, ?l))"
    using assms(1,5) by (simp add: skip_zeros_eq Let_def z(1) q_def)
  moreover have "memcpy tmpsig (int pend - int ?l) input (int q) (int ?l) =
      Some (take (pend - ?l) tmpsig @ trim r @ drop pend tmpsig)" if "?l \<le> 32"
  proof -
    have "nat (int pend - int ?l) = pend - ?l" "nat (int pend - int ?l + int ?l) = pend" using that assms(3) by linarith+
    then show ?thesis using that q assms(2-4) by (simp add: memcpy_def t)
  qed
  ultimately show ?thesis by (simp add: der_copy_def not_less)
qed

lemma parse_der_lax_enc:
  assumes "4 + length r + length s < 128"
  shows "ecdsa_signature_parse_der_lax ctx (der_sig r s @ rest) =
    Some (Inr (if length (trim r) \<le> 32 \<and> length (trim s) \<le> 32 \<and> fst (ecdsa_signature_parse_compact ctx (pad32 r @ pad32 s))
               then snd (ecdsa_signature_parse_compact ctx (pad32 r @ pad32 s))
               else snd (ecdsa_signature_parse_compact ctx (replicate 64 0))))"
proof -
  let ?i = "der_sig r s @ rest"
  let ?L = "word_of_nat (4 + length r + length s) :: byte"
  let ?pr = "[0x30, ?L, 0x02, word_of_nat (length r)]"
  let ?ps = "?pr @ r @ [0x02, word_of_nat (length s)]"
  have tag: "der_tag 0x30 ?i 0 = Some (Inr 1)" "der_sequence_length ?i 1 = Some (Inr 2)"
    using small_length_byte [OF assms] by (simp_all add: der_tag_def der_sequence_length_def der_sig_def input_at_def Let_def)
  have int1: "der_integer ?i 2 = Some (Inr (4, length r, 4 + length r))"
    using der_integer_enc [of r ?i "[0x30, ?L]" "der_enc s @ rest" 2] assms by (simp add: der_sig_def)
  have int2: "der_integer ?i (4 + length r) = Some (Inr (6 + length r, length s, 6 + length r + length s))"
    using der_integer_enc [of s ?i "[0x30, ?L] @ der_enc r" rest "4 + length r"] assms by (simp add: der_sig_def der_enc_def)
  have mm: "min (32 - length (trim r)) 64 = 32 - length (trim r)" by linarith
  have copy1: "der_copy ?i 4 (length r) 32 (replicate 64 0) =
      Some (Inr (if length (trim r) > 32 then (replicate 64 0, True) else (pad32 r @ replicate 32 0, False)))"
    using der_copy_enc [of ?i ?pr r "der_enc s @ rest" "replicate 64 0" 32 4]
    by (simp add: der_sig_def der_enc_def pad32_def mm)
  have copy2: "der_copy ?i (6 + length r) (length s) 64 t =
      Some (Inr (if length (trim s) > 32 then (t, True) else (take (64 - length (trim s)) t @ trim s, False)))"
    if "length t = 64" for t
    using der_copy_enc [of ?i ?ps s rest t 64 "6 + length r"] that by (simp add: der_sig_def der_enc_def)
  have l: "length (pad32 r) = 32" if "length (trim r) \<le> 32" using that by (simp add: pad32_def)
  have m: "take (64 - length (trim s)) (pad32 r @ replicate 32 0) @ trim s = pad32 r @ pad32 s"
    if "length (trim r) \<le> 32" "length (trim s) \<le> 32"
    using that l by (simp add: pad32_def [of s] min_def)
  show ?thesis
    unfolding ecdsa_signature_parse_der_lax_def Let_def tag ebind_simps int1 prod.case int2 copy1
    by (auto simp: copy2 l m not_less pad32_def [of s, symmetric] split: prod.split)
qed

section \<open>Keys\<close>

text \<open>Well-formed key objects have all of their 65 bytes, and a valid one is determined by its data.\<close>

definition pubkey_ok :: "bytes \<Rightarrow> bool" where
  "pubkey_ok p \<longleftrightarrow> p \<noteq> [] \<and> GetLen (p ! 0) = length p"

lemma GetLen_le: "GetLen h \<le> 65" "GetLen h = 0 \<or> GetLen h = 33 \<or> GetLen h = 65"
  by (simp_all add: GetLen_def)

lemma GetLen_FF [simp]: "GetLen 0xFF = 0"
  by (simp add: GetLen_def)

lemma CPubKey_Set_data:
  assumes "length (pk_vch k) = 65"
  shows "length (pk_vch (CPubKey_Set k p)) = 65"
    and "CPubKey_IsValid (CPubKey_Set k p) \<longleftrightarrow> pubkey_ok p"
    and "CPubKey_data (CPubKey_Set k p) = (if pubkey_ok p then p else [])"
proof -
  have k: "pk_vch k \<noteq> []" using assms by auto
  show "length (pk_vch (CPubKey_Set k p)) = 65"
    using assms GetLen_le(1) [of "p ! 0"] by (auto simp: CPubKey_Set_def Invalidate_def Let_def)
  have ok: "CPubKey_Set k p = (if pubkey_ok p then k\<lparr>pk_vch := p @ drop (length p) (pk_vch k)\<rparr> else Invalidate k)"
    by (auto simp: CPubKey_Set_def pubkey_ok_def Let_def)
  have sz: "CPubKey_size (CPubKey_Set k p) = (if pubkey_ok p then length p else 0)"
    using k by (auto simp: ok CPubKey_size_def Invalidate_def pubkey_ok_def nth_append)
  show "CPubKey_IsValid (CPubKey_Set k p) \<longleftrightarrow> pubkey_ok p"
    unfolding CPubKey_IsValid_def sz by (auto simp: pubkey_ok_def)
  show "CPubKey_data (CPubKey_Set k p) = (if pubkey_ok p then p else [])"
    unfolding CPubKey_data_def sz by (simp add: ok)
qed

section \<open>Round trips\<close>

lemma byte_of_u32: "ucast (ucast (y AND 0xFF) :: byte) = take_bit 8 (y :: u32)"
proof -
  have "y AND 0xFF = take_bit 8 y" by (simp add: take_bit_eq_mask mask_eq_exp_minus_1)
  moreover have "ucast (ucast (take_bit 8 y) :: byte) = take_bit 8 y"
    by (rule bit_word_eqI) (auto simp: bit_simps)
  ultimately show ?thesis by simp
qed

lemma be32_join:
  fixes n :: u32
  shows "push_bit 24 (ucast (ucast (drop_bit 24 n AND 0xFF) :: byte)) OR
     (push_bit 16 (ucast (ucast (drop_bit 16 n AND 0xFF) :: byte)) OR
      (push_bit 8 (ucast (ucast (drop_bit 8 n AND 0xFF) :: byte)) OR ucast (ucast (drop_bit 0 n AND 0xFF) :: byte))) = n"
  unfolding byte_of_u32
proof (rule bit_word_eqI)
  fix i assume i: "i < LENGTH(32)"
  have "24 \<le> i \<and> i - 24 < 8 \<or> 16 \<le> i \<and> i - 16 < 8 \<or> 8 \<le> i \<and> i - 8 < 8 \<or> i < 8"
    using i by auto
  then show "bit (push_bit 24 (take_bit 8 (drop_bit 24 n)) OR (push_bit 16 (take_bit 8 (drop_bit 16 n)) OR
      (push_bit 8 (take_bit 8 (drop_bit 8 n)) OR take_bit 8 (drop_bit 0 n)))) i = bit n i"
    using i by (auto simp: bit_or_iff bit_push_bit_iff bit_take_bit_iff bit_drop_bit_eq)
qed

text \<open>
  C21. A public key that is set from bytes with a valid header and length is valid, exposes those bytes and
  is read back from its serialization into any key object, and every other byte string gives an invalid
  key. The encoding of an extended public key has 74 bytes and decodes to an equal extended key.
\<close>

theorem pubkey_roundtrip:
  assumes "length (pk_vch k) = 65" "length (pk_vch k') = 65"
    and "length f = 4" "length cc = 32" "length (pk_vch (xp_pubkey out)) = 65"
  shows "CPubKey_IsValid (CPubKey_Set k p) = pubkey_ok p \<and>
    CPubKey_data (CPubKey_Set k p) = (if pubkey_ok p then p else []) \<and>
    (pubkey_ok p \<longrightarrow>
       length (Serialize_CPubKey (CPubKey_Set k p)) = CPubKey_GetSerializeSize (CPubKey_Set k p) \<and>
       (\<exists>k''. Unserialize_CPubKey k' (Serialize_CPubKey (CPubKey_Set k p) @ rest) = Inr (k'', rest) \<and>
          CPubKey_eq k'' (CPubKey_Set k p) \<and> CPubKey_data k'' = p)) \<and>
    (pubkey_ok p \<and> length p = 33 \<longrightarrow>
       (let x = \<lparr>xp_nDepth = d, xp_vchFingerprint = f, xp_nChild = n, xp_chaincode = cc, xp_pubkey = CPubKey_Set k p\<rparr> in
        \<exists>code. CExtPubKey_Encode x = Some code \<and> length code = 74 \<and> CExtPubKey_eq (CExtPubKey_Decode out code) x))"
proof -
  have set: "CPubKey_Set k p = k\<lparr>pk_vch := p @ drop (length p) (pk_vch k)\<rparr>" if "pubkey_ok p" for k
    using that by (auto simp: CPubKey_Set_def pubkey_ok_def)
  have size: "CPubKey_size (r\<lparr>pk_vch := p @ q\<rparr>) = length p" if "pubkey_ok p" for q and r :: CPubKey
    using that by (simp add: CPubKey_size_def pubkey_ok_def nth_append)
  have eq: "CPubKey_eq (r\<lparr>pk_vch := p @ q\<rparr>) (r'\<lparr>pk_vch := p @ q'\<rparr>)" if "pubkey_ok p" for q q' and r r' :: CPubKey
    using that by (simp add: CPubKey_eq_def size) (simp add: pubkey_ok_def nth_append)
  have len: "length p \<le> 65" "0 < length p" "unat (ucast (word_of_nat (length p) :: u64) :: u32) = length p" if "pubkey_ok p"
    using that GetLen_le(1) [of "p ! 0"] by (auto simp: pubkey_ok_def unsigned_ucast_eq unat_of_nat take_bit_nat_eq_self)
  have ser: "length (Serialize_CPubKey (CPubKey_Set k p)) = CPubKey_GetSerializeSize (CPubKey_Set k p) \<and>
      (\<exists>k''. Unserialize_CPubKey k' (Serialize_CPubKey (CPubKey_Set k p) @ rest) = Inr (k'', rest) \<and>
          CPubKey_eq k'' (CPubKey_Set k p) \<and> CPubKey_data k'' = p)" if ok: "pubkey_ok p"
  proof -
    let ?n = "word_of_nat (length p) :: u64"
    have n: "unat ?n = length p" using len(1) [OF ok] by (intro unat_size) (simp add: MAX_SIZE_def)
    have w: "Serialize_CPubKey (CPubKey_Set k p) = WriteCompactSize ?n @ p"
      by (simp add: Serialize_CPubKey_def set [OF ok] size [OF ok])
    have "length (WriteCompactSize ?n) = 1"
      using len(1) [OF ok] n by (simp add: length_WriteCompactSize GetSizeOfCompactSize_def word_less_nat_alt)
    moreover have "ReadCompactSize (WriteCompactSize ?n @ p @ rest) = Inr (?n, p @ rest)"
      using ReadCompactSize_writes [of ?n] n len(1) [OF ok] by (simp add: reads_def MAX_SIZE_def)
    moreover have "stream_read (length p) (p @ rest) = Inr (p, rest)"
      using reads_stream [OF refl, of p] by (simp add: reads_def)
    ultimately show ?thesis
      using len [OF ok] eq [OF ok] unfolding w
      by (simp add: Unserialize_CPubKey_def rbind_def rret_def CPubKey_GetSerializeSize_def set [OF ok] size [OF ok] CPubKey_data_def Let_def)
  qed
  have ext: "let x = \<lparr>xp_nDepth = d, xp_vchFingerprint = f, xp_nChild = n, xp_chaincode = cc, xp_pubkey = CPubKey_Set k p\<rparr> in
        \<exists>code. CExtPubKey_Encode x = Some code \<and> length code = 74 \<and> CExtPubKey_eq (CExtPubKey_Decode out code) x"
    if "pubkey_ok p" "length p = 33"
    using that assms
    by (simp add: Let_def CExtPubKey_Encode_def set size CExtPubKey_eq_def CExtPubKey_Decode_def eq nth_append be32_join [simplified])
  show ?thesis using CPubKey_Set_data(2,3) [OF assms(1)] ser ext by auto
qed

theorem pubkey_roundtrip_witness:
  "let p = 2 # replicate 32 5; k = \<lparr>pk_vch = replicate 65 0\<rparr>;
       x = \<lparr>xp_nDepth = 1, xp_vchFingerprint = replicate 4 8, xp_nChild = 0x80000001, xp_chaincode = replicate 32 9,
            xp_pubkey = CPubKey_Set k p\<rparr> in
     CPubKey_data (CPubKey_Set k p) = p \<and>
     (\<exists>k''. Unserialize_CPubKey k (Serialize_CPubKey (CPubKey_Set k p) @ [1]) = Inr (k'', [1]) \<and> CPubKey_data k'' = p) \<and>
     (\<exists>code. CExtPubKey_Encode x = Some code \<and> length code = 74 \<and> CExtPubKey_eq (CExtPubKey_Decode x code) x)"
proof -
  let ?p = "2 # replicate 32 5 :: bytes" and ?k = "\<lparr>pk_vch = replicate 65 0\<rparr>"
  let ?x = "\<lparr>xp_nDepth = 1, xp_vchFingerprint = replicate 4 8, xp_nChild = 0x80000001, xp_chaincode = replicate 32 9,
      xp_pubkey = CPubKey_Set ?k ?p\<rparr>"
  have ok: "pubkey_ok ?p" by (simp add: pubkey_ok_def GetLen_def)
  moreover have "length (pk_vch (xp_pubkey ?x)) = 65" by (simp add: CPubKey_Set_data(1))
  ultimately show ?thesis
    using pubkey_roundtrip [of ?k ?k "replicate 4 8" "replicate 32 9" ?x ?p "[1]" 1 "0x80000001"]
    unfolding Let_def by auto
qed

end
