(* ===== verification/Key.thy ===== *)
theory Key
  imports Pubkey
begin

text \<open>
  \<^verbatim>\<open>key.h\<close> and \<^verbatim>\<open>key.cpp\<close>: private keys, their OpenSSL serialization, signing, BIP32 derivation and extended
  keys. The signing functions of libsecp256k1 extend the record of the verification functions.
  Calls to the random number generator are arguments. A failed \<^verbatim>\<open>assert\<close> is \<open>None\<close>. Memory locking
  (\<^verbatim>\<open>LockObject\<close>) has no effect on values and is left out.
\<close>

record ('k, 's, 'r) secp256k1_sign = "('k, 's, 'r) secp256k1" +
  ec_seckey_verify :: "bytes \<Rightarrow> bool"
  ec_pubkey_create :: "bytes \<Rightarrow> 'k option"
  ec_privkey_tweak_add :: "bytes \<Rightarrow> bytes \<Rightarrow> bool \<times> bytes"
  ecdsa_sign :: "bytes \<Rightarrow> bytes \<Rightarrow> bytes option \<Rightarrow> 's option"
  ecdsa_signature_serialize_der :: "'s \<Rightarrow> bytes"
  ecdsa_sign_recoverable :: "bytes \<Rightarrow> bytes \<Rightarrow> 'r option"
  ecdsa_recoverable_signature_serialize_compact :: "'r \<Rightarrow> bytes \<times> int"

section \<open>OpenSSL serialization of private keys\<close>

text \<open>
  \<^verbatim>\<open>privkey\<close> is a position in the input and \<^verbatim>\<open>end\<close> its length. The output is zeroed first and stays zero
  on every failure.
\<close>

definition der_seq_header :: "bytes \<Rightarrow> nat parse" where
  "der_seq_header input =
     (let n = length input in
      if n < 1 then Some (Inl ())
      else ebind (input_at input 0) (\<lambda>b0. if b0 \<noteq> 0x30 then Some (Inl ())
      else if n < 2 then Some (Inl ())
      else ebind (input_at input 1) (\<lambda>b1. if \<not> (b1 AND 0x80 \<noteq> 0) then Some (Inl ())
      else let lenb = unat (b1 AND NOT 0x80); privkey = 2 in
        if lenb < 1 \<or> lenb > 2 then Some (Inl ())
        else if n < privkey + lenb then Some (Inl ())
        else ebind (input_at input (privkey + lenb - 1)) (\<lambda>lo.
             ebind (if lenb > 1 then ebind (input_at input (privkey + lenb - 2)) (\<lambda>hi. Some (Inr (push_bit 8 (uint hi)))) else Some (Inr 0)) (\<lambda>hi.
               let len = nat (uint lo OR hi); privkey = privkey + lenb in
               if n < privkey + len then Some (Inl ()) else Some (Inr privkey))))))"

definition der_privkey_octets :: "bytes \<Rightarrow> nat \<Rightarrow> bytes parse" where
  "der_privkey_octets input privkey =
     (let n = length input in
      if n < privkey + 3 then Some (Inl ())
      else ebind (input_at input privkey) (\<lambda>a. ebind (input_at input (privkey + 1)) (\<lambda>b. ebind (input_at input (privkey + 2)) (\<lambda>c.
        if a \<noteq> 0x02 \<or> b \<noteq> 0x01 \<or> c \<noteq> 0x01 then Some (Inl ())
        else let privkey = privkey + 3 in
          if n < privkey + 2 then Some (Inl ())
          else ebind (input_at input privkey) (\<lambda>a. ebind (input_at input (privkey + 1)) (\<lambda>b.
            if a \<noteq> 0x04 \<or> b > 0x20 \<or> n < privkey + 2 + unat b then Some (Inl ())
            else case memcpy (replicate 32 0) (32 - int (unat b)) input (int (privkey + 2)) (int (unat b)) of
                   None \<Rightarrow> None | Some out32 \<Rightarrow> Some (Inr out32)))))))"

definition ec_privkey_import_der :: "('k, 's, 'r) secp256k1_sign \<Rightarrow> bytes \<Rightarrow> (bytes \<times> bool) option" where
  "ec_privkey_import_der ctx input =
     (case ebind (der_seq_header input) (\<lambda>privkey. ebind (der_privkey_octets input privkey) (\<lambda>out32.
             if \<not> ec_seckey_verify ctx out32 then Some (Inl ()) else Some (Inr out32))) of
        None \<Rightarrow> None
      | Some (Inl _) \<Rightarrow> Some (replicate 32 0, False)
      | Some (Inr out32) \<Rightarrow> Some (out32, True))"

text \<open>The values of the two flags in \<^verbatim>\<open>secp256k1.h\<close>.\<close>

definition SECP256K1_EC_COMPRESSED :: int where
  "SECP256K1_EC_COMPRESSED = push_bit 1 1 OR push_bit 8 1"

definition SECP256K1_EC_UNCOMPRESSED :: int where
  "SECP256K1_EC_UNCOMPRESSED = push_bit 1 1"

definition der_begin_compressed :: bytes where
  "der_begin_compressed = [
     0x30, 0x81, 0xD3, 0x02, 0x01, 0x01, 0x04, 0x20]"

definition der_middle_compressed :: bytes where
  "der_middle_compressed = [
     0xA0, 0x81, 0x85, 0x30, 0x81, 0x82, 0x02, 0x01, 0x01, 0x30, 0x2C, 0x06, 0x07, 0x2A, 0x86, 0x48,
     0xCE, 0x3D, 0x01, 0x01, 0x02, 0x21, 0x00, 0xFF, 0xFF, 0xFF, 0xFF, 0xFF, 0xFF, 0xFF, 0xFF, 0xFF,
     0xFF, 0xFF, 0xFF, 0xFF, 0xFF, 0xFF, 0xFF, 0xFF, 0xFF, 0xFF, 0xFF, 0xFF, 0xFF, 0xFF, 0xFF, 0xFF,
     0xFF, 0xFF, 0xFE, 0xFF, 0xFF, 0xFC, 0x2F, 0x30, 0x06, 0x04, 0x01, 0x00, 0x04, 0x01, 0x07, 0x04,
     0x21, 0x02, 0x79, 0xBE, 0x66, 0x7E, 0xF9, 0xDC, 0xBB, 0xAC, 0x55, 0xA0, 0x62, 0x95, 0xCE, 0x87,
     0x0B, 0x07, 0x02, 0x9B, 0xFC, 0xDB, 0x2D, 0xCE, 0x28, 0xD9, 0x59, 0xF2, 0x81, 0x5B, 0x16, 0xF8,
     0x17, 0x98, 0x02, 0x21, 0x00, 0xFF, 0xFF, 0xFF, 0xFF, 0xFF, 0xFF, 0xFF, 0xFF, 0xFF, 0xFF, 0xFF,
     0xFF, 0xFF, 0xFF, 0xFF, 0xFE, 0xBA, 0xAE, 0xDC, 0xE6, 0xAF, 0x48, 0xA0, 0x3B, 0xBF, 0xD2, 0x5E,
     0x8C, 0xD0, 0x36, 0x41, 0x41, 0x02, 0x01, 0x01, 0xA1, 0x24, 0x03, 0x22, 0x00]"

definition der_begin_uncompressed :: bytes where
  "der_begin_uncompressed = [
     0x30, 0x82, 0x01, 0x13, 0x02, 0x01, 0x01, 0x04, 0x20]"

definition der_middle_uncompressed :: bytes where
  "der_middle_uncompressed = [
     0xA0, 0x81, 0xA5, 0x30, 0x81, 0xA2, 0x02, 0x01, 0x01, 0x30, 0x2C, 0x06, 0x07, 0x2A, 0x86, 0x48,
     0xCE, 0x3D, 0x01, 0x01, 0x02, 0x21, 0x00, 0xFF, 0xFF, 0xFF, 0xFF, 0xFF, 0xFF, 0xFF, 0xFF, 0xFF,
     0xFF, 0xFF, 0xFF, 0xFF, 0xFF, 0xFF, 0xFF, 0xFF, 0xFF, 0xFF, 0xFF, 0xFF, 0xFF, 0xFF, 0xFF, 0xFF,
     0xFF, 0xFF, 0xFE, 0xFF, 0xFF, 0xFC, 0x2F, 0x30, 0x06, 0x04, 0x01, 0x00, 0x04, 0x01, 0x07, 0x04,
     0x41, 0x04, 0x79, 0xBE, 0x66, 0x7E, 0xF9, 0xDC, 0xBB, 0xAC, 0x55, 0xA0, 0x62, 0x95, 0xCE, 0x87,
     0x0B, 0x07, 0x02, 0x9B, 0xFC, 0xDB, 0x2D, 0xCE, 0x28, 0xD9, 0x59, 0xF2, 0x81, 0x5B, 0x16, 0xF8,
     0x17, 0x98, 0x48, 0x3A, 0xDA, 0x77, 0x26, 0xA3, 0xC4, 0x65, 0x5D, 0xA4, 0xFB, 0xFC, 0x0E, 0x11,
     0x08, 0xA8, 0xFD, 0x17, 0xB4, 0x48, 0xA6, 0x85, 0x54, 0x19, 0x9C, 0x47, 0xD0, 0x8F, 0xFB, 0x10,
     0xD4, 0xB8, 0x02, 0x21, 0x00, 0xFF, 0xFF, 0xFF, 0xFF, 0xFF, 0xFF, 0xFF, 0xFF, 0xFF, 0xFF, 0xFF,
     0xFF, 0xFF, 0xFF, 0xFF, 0xFE, 0xBA, 0xAE, 0xDC, 0xE6, 0xAF, 0x48, 0xA0, 0x3B, 0xBF, 0xD2, 0x5E,
     0x8C, 0xD0, 0x36, 0x41, 0x41, 0x02, 0x01, 0x01, 0xA1, 0x44, 0x03, 0x42, 0x00]"

text \<open>The inner \<open>None\<close> is \<^verbatim>\<open>return 0\<close>; writing past the 279 bytes of the caller is a fault.\<close>

definition ec_privkey_export_der :: "('k, 's, 'r) secp256k1_sign \<Rightarrow> bytes \<Rightarrow> int \<Rightarrow> bytes option option" where
  "ec_privkey_export_der ctx key32 compressed =
     (case ec_pubkey_create ctx key32 of None \<Rightarrow> Some None
      | Some pubkey \<Rightarrow>
          let r = (if compressed \<noteq> 0
                   then der_begin_compressed @ key32 @ der_middle_compressed @
                     take 33 (ec_pubkey_serialize ctx pubkey True)
                   else der_begin_uncompressed @ key32 @ der_middle_uncompressed @
                     take 65 (ec_pubkey_serialize ctx pubkey False))
          in if length r > 279 then None else Some (Some r))"

section \<open>Private keys\<close>

record CKey =
  fValid :: bool
  fCompressed :: bool
  key_vch :: bytes

definition CKey_default :: "bytes \<Rightarrow> CKey" where
  "CKey_default junk = \<lparr>fValid = False, fCompressed = False, key_vch = junk\<rparr>"

definition CKey_size :: "CKey \<Rightarrow> nat" where
  "CKey_size k = (if fValid k then 32 else 0)"

definition CKey_eq :: "CKey \<Rightarrow> CKey \<Rightarrow> bool" where
  "CKey_eq a b \<longleftrightarrow> fCompressed a = fCompressed b \<and> CKey_size a = CKey_size b \<and>
     take (CKey_size a) (key_vch a) = take (CKey_size a) (key_vch b)"

definition CKey_Check :: "('k, 's, 'r) secp256k1_sign \<Rightarrow> bytes \<Rightarrow> bool" where
  "CKey_Check ctx b = ec_seckey_verify ctx b"

definition CKey_Set :: "('k, 's, 'r) secp256k1_sign \<Rightarrow> CKey \<Rightarrow> bytes \<Rightarrow> bool \<Rightarrow> CKey" where
  "CKey_Set ctx k p fCompressedIn =
     (if length p \<noteq> 32 then k\<lparr>fValid := False\<rparr>
      else if CKey_Check ctx p then k\<lparr>key_vch := p, fValid := True, fCompressed := fCompressedIn\<rparr>
      else k\<lparr>fValid := False\<rparr>)"

text \<open>\<open>rnd i\<close> is what the \<open>i\<close>-th call of \<^verbatim>\<open>GetRandBytes\<close> writes; the loop runs until a draw is a valid key.\<close>

partial_function (option) MakeNewKey_loop :: "('k, 's, 'r) secp256k1_sign \<Rightarrow> (nat \<Rightarrow> bytes) \<Rightarrow> nat \<Rightarrow> bytes option" where
  "MakeNewKey_loop ctx rnd i = (if CKey_Check ctx (rnd i) then Some (rnd i) else MakeNewKey_loop ctx rnd (i + 1))"

definition CKey_MakeNewKey :: "('k, 's, 'r) secp256k1_sign \<Rightarrow> (nat \<Rightarrow> bytes) \<Rightarrow> CKey \<Rightarrow> bool \<Rightarrow> CKey option" where
  "CKey_MakeNewKey ctx rnd k fCompressedIn = do {
     b \<leftarrow> MakeNewKey_loop ctx rnd 0;
     Some (k\<lparr>key_vch := b, fValid := True, fCompressed := fCompressedIn\<rparr>)
   }"

definition CKey_SetPrivKey :: "('k, 's, 'r) secp256k1_sign \<Rightarrow> CKey \<Rightarrow> bytes \<Rightarrow> bool \<Rightarrow> (bool \<times> CKey) option" where
  "CKey_SetPrivKey ctx k privkey fCompressedIn = do {
     (out32, ok) \<leftarrow> ec_privkey_import_der ctx privkey;
     let k = k\<lparr>key_vch := out32\<rparr>;
     if \<not> ok then Some (False, k) else Some (True, k\<lparr>fCompressed := fCompressedIn, fValid := True\<rparr>)
   }"

definition CKey_GetPrivKey :: "('k, 's, 'r) secp256k1_sign \<Rightarrow> CKey \<Rightarrow> bytes option" where
  "CKey_GetPrivKey ctx k =
     (if \<not> fValid k then None
      else Option.bind (ec_privkey_export_der ctx (key_vch k) (if fCompressed k then SECP256K1_EC_COMPRESSED else SECP256K1_EC_UNCOMPRESSED))
             (\<lambda>ret. ret))"

definition CKey_GetPubKey :: "bytes \<Rightarrow> ('k, 's, 'r) secp256k1_sign \<Rightarrow> CKey \<Rightarrow> CPubKey option" where
  "CKey_GetPubKey junk ctx k =
     (if \<not> fValid k then None
      else case ec_pubkey_create ctx (key_vch k) of None \<Rightarrow> None
        | Some pubkey \<Rightarrow>
            let p = ec_pubkey_serialize ctx pubkey (fCompressed k);
                result = (CPubKey_default junk)\<lparr>pk_vch := p @ drop (length p) (pk_vch (CPubKey_default junk))\<rparr>
            in if CPubKey_size result \<noteq> length p \<or> \<not> CPubKey_IsValid result then None else Some result)"

section \<open>Signing\<close>

text \<open>The result is the return value and the new content of \<^verbatim>\<open>vchSig\<close>.\<close>

definition CKey_Sign :: "('k, 's, 'r) secp256k1_sign \<Rightarrow> CKey \<Rightarrow> bytes \<Rightarrow> bytes \<Rightarrow> u32 \<Rightarrow> (bool \<times> bytes) option" where
  "CKey_Sign ctx k h vchSig test_case =
     (if \<not> fValid k then Some (False, vchSig)
      else let extra_entropy = WriteLE32 test_case @ replicate 28 0 in
        case ecdsa_sign ctx h (key_vch k) (if test_case \<noteq> 0 then Some extra_entropy else None) of None \<Rightarrow> None
        | Some sig \<Rightarrow> Some (True, ecdsa_signature_serialize_der ctx sig))"

definition CKey_VerifyPubKey ::
  "bytes \<Rightarrow> ('k, 's, 'r) secp256k1_sign \<Rightarrow> bytes \<Rightarrow> CKey \<Rightarrow> CPubKey \<Rightarrow> bool option" where
  "CKey_VerifyPubKey junk ctx rnd k pubkey =
     (if CPubKey_IsCompressed pubkey \<noteq> fCompressed k then Some False
      else do {
        let str = map (\<lambda>c. word_of_nat (of_char c)) (''Bitcoin key verification'' @ [CHR 0x0A]);
        hs \<leftarrow> CHash256_Write (CSHA256 junk) str;
        hs \<leftarrow> CHash256_Write hs rnd;
        (hs, h) \<leftarrow> CHash256_Finalize hs;
        (ok, vchSig) \<leftarrow> CKey_Sign ctx k h [] 0;
        CPubKey_Verify (secp256k1.truncate ctx) pubkey h vchSig
      })"

definition CKey_SignCompact :: "('k, 's, 'r) secp256k1_sign \<Rightarrow> CKey \<Rightarrow> bytes \<Rightarrow> bytes \<Rightarrow> (bool \<times> bytes) option" where
  "CKey_SignCompact ctx k h vchSig =
     (if \<not> fValid k then Some (False, vchSig)
      else case ecdsa_sign_recoverable ctx h (key_vch k) of None \<Rightarrow> None
        | Some sig \<Rightarrow> (case ecdsa_recoverable_signature_serialize_compact ctx sig of (b, rec) \<Rightarrow>
            if rec = -1 then None
            else Some (True, word_of_int (27 + rec + (if fCompressed k then 4 else 0)) # b)))"

definition CKey_Load ::
  "bytes \<Rightarrow> ('k, 's, 'r) secp256k1_sign \<Rightarrow> bytes \<Rightarrow> CKey \<Rightarrow> bytes \<Rightarrow> CPubKey \<Rightarrow> bool \<Rightarrow> (bool \<times> CKey) option" where
  "CKey_Load junk ctx rnd k privkey vchPubKey fSkipCheck = do {
     (out32, ok) \<leftarrow> ec_privkey_import_der ctx privkey;
     let k = k\<lparr>key_vch := out32\<rparr>;
     if \<not> ok then Some (False, k)
     else let k = k\<lparr>fCompressed := CPubKey_IsCompressed vchPubKey, fValid := True\<rparr> in
       if fSkipCheck then Some (True, k)
       else do { b \<leftarrow> CKey_VerifyPubKey junk ctx rnd k vchPubKey; Some (b, k) }
   }"

section \<open>Derivation and extended keys\<close>

definition CKey_Derive ::
  "bytes \<Rightarrow> bytes \<Rightarrow> bytes \<Rightarrow> bytes \<Rightarrow> ('k, 's, 'r) secp256k1_sign \<Rightarrow> CKey \<Rightarrow> CKey \<Rightarrow> u32 \<Rightarrow> bytes \<Rightarrow>
   (bool \<times> CKey \<times> bytes) option" where
  "CKey_Derive junk jo ji jk ctx k keyChild nChild cc =
     (if \<not> fValid k \<or> \<not> fCompressed k then None
      else do {
        out \<leftarrow>
          (if drop_bit 31 nChild = 0
           then do {
             pubkey \<leftarrow> CKey_GetPubKey junk ctx k;
             if CPubKey_size pubkey \<noteq> 33 then None
             else BIP32Hash jo ji jk cc nChild (pk_vch pubkey ! 0) (drop 1 (pk_vch pubkey))
           }
           else if CKey_size k \<noteq> 32 then None else BIP32Hash jo ji jk cc nChild 0 (key_vch k));
        let ccChild = take 32 (drop 32 out);
        let (ret, b) = ec_privkey_tweak_add ctx (key_vch k) (take 32 out);
        Some (ret, keyChild\<lparr>key_vch := b, fCompressed := True, fValid := ret\<rparr>, ccChild)
      })"

record CExtKey =
  xk_nDepth :: byte
  xk_vchFingerprint :: bytes
  xk_nChild :: u32
  xk_chaincode :: bytes
  xk_key :: CKey

definition CExtKey_eq :: "CExtKey \<Rightarrow> CExtKey \<Rightarrow> bool" where
  "CExtKey_eq a b \<longleftrightarrow> xk_nDepth a = xk_nDepth b \<and> xk_vchFingerprint a = xk_vchFingerprint b \<and> xk_nChild a = xk_nChild b \<and>
     xk_chaincode a = xk_chaincode b \<and> CKey_eq (xk_key a) (xk_key b)"

definition CExtKey_Derive ::
  "bytes \<Rightarrow> bytes \<Rightarrow> bytes \<Rightarrow> bytes \<Rightarrow> bytes \<Rightarrow> bytes \<Rightarrow> ('k, 's, 'r) secp256k1_sign \<Rightarrow> CExtKey \<Rightarrow> CExtKey \<Rightarrow> u32 \<Rightarrow>
   (bool \<times> CExtKey) option" where
  "CExtKey_Derive junk j jr jo ji jk ctx x out nChild = do {
     pubkey \<leftarrow> CKey_GetPubKey junk ctx (xk_key x);
     id \<leftarrow> CPubKey_GetID j jr pubkey;
     let out = out\<lparr>xk_nDepth := xk_nDepth x + 1, xk_vchFingerprint := take 4 id, xk_nChild := nChild\<rparr>;
     (ret, k, cc) \<leftarrow> CKey_Derive junk jo ji jk ctx (xk_key x) (xk_key out) nChild (xk_chaincode x);
     Some (ret, out\<lparr>xk_key := k, xk_chaincode := cc\<rparr>)
   }"

definition CExtKey_SetMaster ::
  "bytes \<Rightarrow> bytes \<Rightarrow> bytes \<Rightarrow> ('k, 's, 'r) secp256k1_sign \<Rightarrow> CExtKey \<Rightarrow> bytes \<Rightarrow> CExtKey option" where
  "CExtKey_SetMaster jo ji jk ctx x seed = do {
     let hashkey = map (\<lambda>c. word_of_nat (of_char c)) ''Bitcoin seed'';
     h \<leftarrow> CHMAC_SHA512 jo ji jk hashkey;
     h \<leftarrow> CHMAC_SHA512_Write h seed;
     (h, out) \<leftarrow> CHMAC_SHA512_Finalize h;
     Some (x\<lparr>xk_key := CKey_Set ctx (xk_key x) (take 32 out) True, xk_chaincode := take 32 (drop 32 out),
             xk_nDepth := 0, xk_nChild := 0, xk_vchFingerprint := replicate 4 0\<rparr>)
   }"

definition CExtKey_Neuter :: "bytes \<Rightarrow> ('k, 's, 'r) secp256k1_sign \<Rightarrow> CExtKey \<Rightarrow> CExtPubKey option" where
  "CExtKey_Neuter junk ctx x = do {
     pubkey \<leftarrow> CKey_GetPubKey junk ctx (xk_key x);
     Some \<lparr>xp_nDepth = xk_nDepth x, xp_vchFingerprint = take 4 (xk_vchFingerprint x), xp_nChild = xk_nChild x,
           xp_chaincode = xk_chaincode x, xp_pubkey = pubkey\<rparr>
   }"

definition CExtKey_Encode :: "CExtKey \<Rightarrow> bytes option" where
  "CExtKey_Encode x =
     (let n = xk_nChild x in
      if CKey_size (xk_key x) \<noteq> 32 then None
      else Some (xk_nDepth x # take 4 (xk_vchFingerprint x) @
        [ucast (drop_bit 24 n AND 0xFF), ucast (drop_bit 16 n AND 0xFF), ucast (drop_bit 8 n AND 0xFF), ucast (drop_bit 0 n AND 0xFF)] @
        take 32 (xk_chaincode x) @ 0 # take 32 (key_vch (xk_key x))))"

definition CExtKey_Decode :: "('k, 's, 'r) secp256k1_sign \<Rightarrow> CExtKey \<Rightarrow> bytes \<Rightarrow> CExtKey" where
  "CExtKey_Decode ctx x code =
     x\<lparr>xk_nDepth := code ! 0, xk_vchFingerprint := take 4 (drop 1 code),
       xk_nChild := push_bit 24 (ucast (code ! 5)) OR (push_bit 16 (ucast (code ! 6)) OR (push_bit 8 (ucast (code ! 7)) OR ucast (code ! 8))),
       xk_chaincode := take 32 (drop 9 code),
       xk_key := CKey_Set ctx (xk_key x) (take 32 (drop 42 code)) True\<rparr>"

definition ECC_InitSanityCheck ::
  "bytes \<Rightarrow> bytes \<Rightarrow> bytes \<Rightarrow> ('k, 's, 'r) secp256k1_sign \<Rightarrow> (nat \<Rightarrow> bytes) \<Rightarrow> bytes \<Rightarrow> bool option" where
  "ECC_InitSanityCheck jkey jpub jhash ctx rnd rnd8 = do {
     key \<leftarrow> CKey_MakeNewKey ctx rnd (CKey_default jkey) True;
     pubkey \<leftarrow> CKey_GetPubKey jpub ctx key;
     CKey_VerifyPubKey jhash ctx rnd8 key pubkey
   }"

section \<open>A concrete curve interface for examples\<close>

text \<open>Keys are numbers modulo \<open>2 ^ 256\<close> with addition; it satisfies what the theorems below assume of libsecp256k1.\<close>

definition demo_curve :: "(256 word, bytes, bytes) secp256k1_sign" where
  "demo_curve =
     \<lparr>ecdsa_signature_parse_compact = (\<lambda>b. (True, b)),
      ecdsa_signature_normalize = (\<lambda>s. (False, s)),
      ecdsa_verify = (\<lambda>s h k. s = h @ h),
      ec_pubkey_parse = (\<lambda>b. Some (word_of_nat (wval (take 32 (drop 1 b))))),
      ec_pubkey_serialize = (\<lambda>k c. if c then 2 # wlist 32 (unat k) else 4 # wlist 64 (unat k)),
      ec_pubkey_tweak_add = (\<lambda>k t. Some (k + word_of_nat (wval t))),
      ecdsa_recoverable_signature_parse_compact = (\<lambda>b r. Some b),
      ecdsa_recover = (\<lambda>s h. Some 1),
      ec_seckey_verify = (\<lambda>b. length b = 32),
      ec_pubkey_create = (\<lambda>b. Some (word_of_nat (wval b))),
      ec_privkey_tweak_add = (\<lambda>b t. (True, wlist 32 (wval b + wval t))),
      ecdsa_sign = (\<lambda>h k e. Some (h @ h)),
      ecdsa_signature_serialize_der = (\<lambda>s. s),
      ecdsa_sign_recoverable = (\<lambda>h k. Some h),
      ecdsa_recoverable_signature_serialize_compact = (\<lambda>s. (s @ s, 0))\<rparr>"

section \<open>Serialization round trip\<close>

lemma length_der_begin [simp]:
  "length der_begin_compressed = 8" "length der_middle_compressed = 141"
  "length der_begin_uncompressed = 9" "length der_middle_uncompressed = 173"
  by (simp_all add: der_begin_compressed_def der_middle_compressed_def der_begin_uncompressed_def der_middle_uncompressed_def)

lemma der_seq_header_compressed:
  assumes "length rest \<ge> 206"
  shows "der_seq_header (der_begin_compressed @ rest) = Some (Inr 3)"
  using assms by (simp add: der_seq_header_def input_at_def der_begin_compressed_def Let_def)

lemma der_seq_header_uncompressed:
  assumes "length rest \<ge> 270"
  shows "der_seq_header (der_begin_uncompressed @ rest) = Some (Inr 4)"
  using assms by (simp add: der_seq_header_def input_at_def der_begin_uncompressed_def Let_def)

lemma der_privkey_octets_compressed:
  assumes "length key32 = 32"
  shows "der_privkey_octets (der_begin_compressed @ key32 @ rest) 3 = Some (Inr key32)"
  using assms by (simp add: der_privkey_octets_def input_at_def der_begin_compressed_def Let_def memcpy_def)

lemma import_der_compressed:
  assumes "length key32 = 32" "ec_seckey_verify ctx key32" "length rest \<ge> 174"
  shows "ec_privkey_import_der ctx (der_begin_compressed @ key32 @ rest) = Some (key32, True)"
  using assms by (simp add: ec_privkey_import_der_def der_seq_header_compressed der_privkey_octets_compressed)

lemma GetPrivKey_compressed:
  assumes "fValid k" "length (key_vch k) = 32" "ec_pubkey_create ctx (key_vch k) = Some pk"
  shows "CKey_GetPrivKey ctx k =
    Some (der_begin_compressed @ key_vch k @ der_middle_compressed @ take 33 (ec_pubkey_serialize ctx pk True))"
  using assms
  by (simp add: CKey_GetPrivKey_def ec_privkey_export_der_def Let_def SECP256K1_EC_COMPRESSED_def SECP256K1_EC_UNCOMPRESSED_def)

text \<open>The input of the importer is never read out of bounds.\<close>

lemma der_seq_header_ok: "eok (\<lambda>p. p \<le> length input) (der_seq_header input)"
  unfolding der_seq_header_def Let_def
  by (simp add: input_at_def; intro impI conjI; simp split: if_splits)

lemma memcpy_octets_ok:
  assumes "n \<le> 32" "q + n \<le> length input"
  shows "eok (\<lambda>b. length b = 32)
    (case memcpy (replicate 32 0) (32 - int n) input (int q) (int n) of None \<Rightarrow> None | Some out32 \<Rightarrow> Some (Inr out32))"
proof -
  have "nat (32 - int n) = 32 - n" by simp
  then show ?thesis using assms by (auto simp: memcpy_def)
qed

lemma der_privkey_octets_ok: "eok (\<lambda>b. length b = 32) (der_privkey_octets input p)"
proof -
  have "eok (\<lambda>b. length b = 32)
      (case memcpy (replicate 32 0) (32 - int (unat b)) input (int q) (int (unat b)) of None \<Rightarrow> None | Some out32 \<Rightarrow> Some (Inr out32))"
    if "\<not> 0x20 < b" "\<not> length input < q + unat b" for b :: byte and q
    using that memcpy_octets_ok [of "unat b" q input] by (simp add: word_less_nat_alt not_less)
  from this [of "input ! (p + 4)" "p + 5"] show ?thesis
    unfolding der_privkey_octets_def Let_def
    by (auto simp: input_at_def add.commute add.left_commute)
qed

lemma import_der_ok: "\<exists>b ok. ec_privkey_import_der ctx input = Some (b, ok) \<and> length b = 32 \<and> (ok \<longrightarrow> ec_seckey_verify ctx b)"
proof -
  let ?m = "ebind (der_seq_header input) (\<lambda>privkey. ebind (der_privkey_octets input privkey) (\<lambda>out32.
         if \<not> ec_seckey_verify ctx out32 then Some (Inl ()) else Some (Inr out32)))"
  have "eok (\<lambda>b. length b = 32 \<and> ec_seckey_verify ctx b) ?m"
    by (intro eok_ebind [OF der_seq_header_ok] eok_ebind [OF der_privkey_octets_ok]) simp
  then show ?thesis unfolding ec_privkey_import_der_def by (cases ?m rule: ebind_cases) auto
qed

text \<open>
  C24. A valid private key written in the OpenSSL format by \<^verbatim>\<open>GetPrivKey\<close> is read back by \<^verbatim>\<open>SetPrivKey\<close>, and the
  importer returns for every input without reading outside of it, with a valid key or with zeros.
  \<^verbatim>\<open>GetPrivKey\<close> writes the compressed format for every key, because the flag for uncompressed keys that it
  passes is not zero either.
\<close>

theorem privkey_roundtrip:
  assumes "fValid k" "length (key_vch k) = 32" "ec_seckey_verify ctx (key_vch k)"
    and "ec_pubkey_create ctx (key_vch k) = Some pk" "length (ec_pubkey_serialize ctx pk True) = 33"
  shows "\<exists>der. CKey_GetPrivKey ctx k = Some der \<and> length der = 214 \<and>
      CKey_SetPrivKey ctx k' der c = Some (True, k'\<lparr>key_vch := key_vch k, fCompressed := c, fValid := True\<rparr>) \<and>
      CKey_GetPrivKey ctx (k\<lparr>fCompressed := \<not> fCompressed k\<rparr>) = Some der \<and>
      (\<forall>input. \<exists>b ok. ec_privkey_import_der ctx input = Some (b, ok) \<and> (ok \<longrightarrow> ec_seckey_verify ctx b) \<and>
         (\<not> ok \<longrightarrow> b = replicate 32 0))"
proof -
  let ?rest = "der_middle_compressed @ ec_pubkey_serialize ctx pk True"
  have g: "CKey_GetPrivKey ctx (k\<lparr>fCompressed := b\<rparr>) = Some (der_begin_compressed @ key_vch k @ ?rest)" for b
    using GetPrivKey_compressed [of "k\<lparr>fCompressed := b\<rparr>" ctx pk] assms by simp
  have "ec_privkey_import_der ctx (der_begin_compressed @ key_vch k @ ?rest) = Some (key_vch k, True)"
    using assms by (intro import_der_compressed) simp_all
  then have "CKey_SetPrivKey ctx k' (der_begin_compressed @ key_vch k @ ?rest) c =
      Some (True, k'\<lparr>key_vch := key_vch k, fCompressed := c, fValid := True\<rparr>)"
    by (simp add: CKey_SetPrivKey_def)
  moreover have "\<exists>b ok. ec_privkey_import_der ctx input = Some (b, ok) \<and> (ok \<longrightarrow> ec_seckey_verify ctx b) \<and>
      (\<not> ok \<longrightarrow> b = replicate 32 0)" for input
    using import_der_ok [of ctx input] by (auto simp: ec_privkey_import_der_def split: option.splits sum.splits)
  ultimately show ?thesis
    using g [of "fCompressed k"] g [of "\<not> fCompressed k"] assms by auto
qed

theorem privkey_roundtrip_witness:
  "\<exists>der. CKey_GetPrivKey demo_curve \<lparr>fValid = True, fCompressed = False, key_vch = replicate 32 7\<rparr> = Some der \<and> length der = 214 \<and>
     CKey_SetPrivKey demo_curve (CKey_default []) der False =
       Some (True, \<lparr>fValid = True, fCompressed = False, key_vch = replicate 32 7\<rparr>)"
  using privkey_roundtrip [of "\<lparr>fValid = True, fCompressed = False, key_vch = replicate 32 7\<rparr>" demo_curve
      "word_of_nat (wval (replicate 32 (7 :: byte)))" "CKey_default []" False]
  by (auto simp: demo_curve_def CKey_default_def)

text \<open>
  \<^verbatim>\<open>SetPrivKey\<close> overwrites the key bytes before it knows whether the import succeeds and does not clear
  \<^verbatim>\<open>fValid\<close> when it fails: a valid key object stays valid with zeros as its key.
\<close>

lemma SetPrivKey_failure:
  assumes "ec_privkey_import_der ctx der = Some (b, False)"
  shows "CKey_SetPrivKey ctx k der c = Some (False, k\<lparr>key_vch := replicate 32 0\<rparr>)"
  using assms by (auto simp: CKey_SetPrivKey_def ec_privkey_import_der_def split: option.splits sum.splits)

section \<open>BIP32\<close>

lemma BIP32Hash_take: "BIP32Hash jo ji jk cc n header (take 32 d) = BIP32Hash jo ji jk cc n header d"
  by (simp add: BIP32Hash_def)

lemma GetPubKey_compressed:
  assumes "fValid k" "fCompressed k" "ec_pubkey_create ctx (key_vch k) = Some pk"
    and "p = ec_pubkey_serialize ctx pk True" "pubkey_ok p" "length p = 33" "length junk = 65"
  shows "CKey_GetPubKey junk ctx k = Some \<lparr>pk_vch = p @ drop 33 junk\<rparr>"
proof -
  have "CPubKey_size \<lparr>pk_vch = p @ drop 33 junk\<rparr> = 33"
    using assms(5,6) by (simp add: CPubKey_size_def pubkey_ok_def nth_append)
  moreover have "drop 33 (junk[0 := 0xFF]) = drop 33 junk" by (simp add: drop_update_cancel)
  ultimately show ?thesis
    using assms by (auto simp: CKey_GetPubKey_def Let_def CPubKey_default_def Invalidate_def CPubKey_IsValid_def)
qed

lemma pubkey_object:
  assumes "pubkey_ok p" "length p = 33"
  shows "CPubKey_size \<lparr>pk_vch = p @ r\<rparr> = 33" "CPubKey_data \<lparr>pk_vch = p @ r\<rparr> = p" "CPubKey_IsValid \<lparr>pk_vch = p @ r\<rparr>"
  using assms by (simp_all add: CPubKey_size_def CPubKey_data_def CPubKey_IsValid_def pubkey_ok_def nth_append)

lemma derive_commutes:
  assumes parse: "\<And>pk. ec_pubkey_parse ctx (ec_pubkey_serialize ctx pk True) = Some pk"
    and ser: "\<And>pk. pubkey_ok (ec_pubkey_serialize ctx pk True) \<and> length (ec_pubkey_serialize ctx pk True) = 33"
    and tweak: "\<And>b t pk. ec_pubkey_create ctx b = Some pk \<Longrightarrow>
        ec_pubkey_tweak_add ctx pk t =
          (if fst (ec_privkey_tweak_add ctx b t) then ec_pubkey_create ctx (snd (ec_privkey_tweak_add ctx b t)) else None)"
    and valid: "\<And>b t. fst (ec_privkey_tweak_add ctx b t) \<Longrightarrow> ec_pubkey_create ctx (snd (ec_privkey_tweak_add ctx b t)) \<noteq> None"
    and key: "fValid k" "fCompressed k" "ec_pubkey_create ctx (key_vch k) = Some pk"
    and junk: "length junk = 65" "length jo = 128" "length ji = 128" "length jk = 128" "length cc = 32"
    and n: "drop_bit 31 nChild = 0" and out: "length (pk_vch pkout) = 65"
  shows "\<exists>ret kc cc' pkp pkc. CKey_GetPubKey junk ctx k = Some pkp \<and>
    CKey_Derive junk jo ji jk ctx k kout nChild cc = Some (ret, kc, cc') \<and>
    CPubKey_Derive jo ji jk (secp256k1.truncate ctx) pkp pkout nChild cc = Some (ret, pkc, cc') \<and>
    (ret \<longrightarrow> (\<exists>z. CKey_GetPubKey junk ctx kc = Some z \<and> CPubKey_eq z pkc \<and> CPubKey_data z = CPubKey_data pkc))"
proof -
  define p where "p = ec_pubkey_serialize ctx pk True"
  have p: "pubkey_ok p" "length p = 33" using ser by (simp_all add: p_def)
  have g: "CKey_GetPubKey junk ctx k = Some \<lparr>pk_vch = p @ drop 33 junk\<rparr>"
    by (rule GetPubKey_compressed [OF key p_def p junk(1)])
  define b where "b = fips_hmac fips_sha512 128 cc ((p ! 0) # take 32 (drop 1 p) @ WriteBE32 nChild)"
  have "take 32 (drop 1 (p @ drop 33 junk)) = take 32 (drop 1 p)" "(p @ drop 33 junk) ! 0 = p ! 0"
    using p by (simp_all add: nth_append)
  then have h: "BIP32Hash jo ji jk cc nChild (p ! 0) (drop 1 (p @ drop 33 junk)) = Some b"
    using BIP32Hash_hmac [OF junk(2-5), of "take 32 (drop 1 p)" nChild "p ! 0"] p
      BIP32Hash_take [of jo ji jk cc nChild "p ! 0" "drop 1 (p @ drop 33 junk)"] by (simp add: b_def)
  obtain ret kb where t: "ec_privkey_tweak_add ctx (key_vch k) (take 32 b) = (ret, kb)" by (rule prod.exhaust)
  have d: "CKey_Derive junk jo ji jk ctx k kout nChild cc =
      Some (ret, kout\<lparr>key_vch := kb, fCompressed := True, fValid := ret\<rparr>, take 32 (drop 32 b))"
    using key n g h p by (simp add: CKey_Derive_def pubkey_object t nth_append)
  have pa: "ec_pubkey_parse ctx p = Some pk" using parse by (simp add: p_def)
  have tw: "ec_pubkey_tweak_add ctx pk (take 32 b) = (if ret then ec_pubkey_create ctx kb else None)"
    using tweak [OF key(3), of "take 32 b"] t by simp
  show ?thesis
  proof (cases ret)
    case False
    then show ?thesis using g d n h pa tw p
      by (auto simp: CPubKey_Derive_def pubkey_object secp256k1.defs nth_append)
  next
    case True
    then obtain pk' where pk': "ec_pubkey_create ctx kb = Some pk'" using valid [of "key_vch k" "take 32 b"] t by auto
    let ?q = "ec_pubkey_serialize ctx pk' True"
    have q: "pubkey_ok ?q" "length ?q = 33" using ser by simp_all
    have z: "CKey_GetPubKey junk ctx (kout\<lparr>key_vch := kb, fCompressed := True, fValid := True\<rparr>) = Some \<lparr>pk_vch = ?q @ drop 33 junk\<rparr>"
      by (rule GetPubKey_compressed [OF _ _ _ refl q junk(1)]) (simp_all add: pk')
    have "CPubKey_Derive jo ji jk (secp256k1.truncate ctx) \<lparr>pk_vch = p @ drop 33 junk\<rparr> pkout nChild cc =
        Some (True, CPubKey_Set pkout ?q, take 32 (drop 32 b))"
      using n h pa tw p True pk' by (simp add: CPubKey_Derive_def pubkey_object secp256k1.defs nth_append)
    moreover have "CPubKey_Set pkout ?q = pkout\<lparr>pk_vch := ?q @ drop 33 (pk_vch pkout)\<rparr>"
      using q by (auto simp: CPubKey_Set_def pubkey_ok_def)
    moreover have "CPubKey_eq \<lparr>pk_vch = ?q @ drop 33 junk\<rparr> (pkout\<lparr>pk_vch := ?q @ drop 33 (pk_vch pkout)\<rparr>)"
        "CPubKey_data \<lparr>pk_vch = ?q @ drop 33 junk\<rparr> = CPubKey_data (pkout\<lparr>pk_vch := ?q @ drop 33 (pk_vch pkout)\<rparr>)"
      using q pubkey_object [OF q] by (simp_all add: CPubKey_eq_def CPubKey_data_def CPubKey_size_def nth_append pubkey_ok_def)
    ultimately show ?thesis using g d z True by auto
  qed
qed

text \<open>
  C11. Public and private derivation agree (BIP32): deriving a normal child of an extended private key and
  taking its public part (\<^verbatim>\<open>Neuter\<close>) gives the key that \<^verbatim>\<open>CExtPubKey::Derive\<close> derives from the public part of
  the parent, with the same depth, fingerprint, index and chain code, and the one derivation succeeds
  exactly when the other does. Assumed of libsecp256k1: parsing inverts serialization, compressed keys
  have 33 bytes with a valid header, and tweaking commutes with computing the public key.
\<close>

theorem BIP32_neuter_derive:
  assumes parse: "\<And>pk. ec_pubkey_parse ctx (ec_pubkey_serialize ctx pk True) = Some pk"
    and ser: "\<And>pk. pubkey_ok (ec_pubkey_serialize ctx pk True) \<and> length (ec_pubkey_serialize ctx pk True) = 33"
    and tweak: "\<And>b t pk. ec_pubkey_create ctx b = Some pk \<Longrightarrow>
        ec_pubkey_tweak_add ctx pk t =
          (if fst (ec_privkey_tweak_add ctx b t) then ec_pubkey_create ctx (snd (ec_privkey_tweak_add ctx b t)) else None)"
    and valid: "\<And>b t. fst (ec_privkey_tweak_add ctx b t) \<Longrightarrow> ec_pubkey_create ctx (snd (ec_privkey_tweak_add ctx b t)) \<noteq> None"
    and key: "fValid (xk_key x)" "fCompressed (xk_key x)" "ec_pubkey_create ctx (key_vch (xk_key x)) = Some pk"
    and junk: "length junk = 65" "length jo = 128" "length ji = 128" "length jk = 128" "length (xk_chaincode x) = 32"
    and hash_junk: "length j = 64" "length jr = 64"
    and n: "drop_bit 31 nChild = 0" and out: "length (pk_vch (xp_pubkey outp)) = 65"
  shows "\<exists>xp ret y yp. CExtKey_Neuter junk ctx x = Some xp \<and>
    CExtKey_Derive junk j jr jo ji jk ctx x out nChild = Some (ret, y) \<and>
    CExtPubKey_Derive j jr jo ji jk (secp256k1.truncate ctx) xp outp nChild = Some (ret, yp) \<and>
    (ret \<longrightarrow> (\<exists>z. CExtKey_Neuter junk ctx y = Some z \<and> CExtPubKey_eq z yp))"
proof -
  obtain ret kc cc' pkp pkc where d: "CKey_GetPubKey junk ctx (xk_key x) = Some pkp"
    "CKey_Derive junk jo ji jk ctx (xk_key x) (xk_key out) nChild (xk_chaincode x) = Some (ret, kc, cc')"
    "CPubKey_Derive jo ji jk (secp256k1.truncate ctx) pkp (xp_pubkey outp) nChild (xk_chaincode x) = Some (ret, pkc, cc')"
    and z: "ret \<Longrightarrow> \<exists>z. CKey_GetPubKey junk ctx kc = Some z \<and> CPubKey_eq z pkc"
    using derive_commutes [OF parse ser tweak valid key junk n out, of "xk_key out"] by blast
  have id: "CPubKey_GetID j jr pkp = Some (rmd160 (fips_sha256 (CPubKey_data pkp)))"
    unfolding CPubKey_GetID_def by (rule Hash160_spec [OF hash_junk])
  show ?thesis
    using d id z by (auto simp: CExtKey_Neuter_def CExtKey_Derive_def CExtPubKey_Derive_def CExtPubKey_eq_def)
qed

lemma demo_curve_laws:
  "ec_pubkey_parse demo_curve (ec_pubkey_serialize demo_curve pk True) = Some pk"
  "pubkey_ok (ec_pubkey_serialize demo_curve pk True) \<and> length (ec_pubkey_serialize demo_curve pk True) = 33"
  "ec_pubkey_create demo_curve b = Some pk \<Longrightarrow> ec_pubkey_tweak_add demo_curve pk t =
     (if fst (ec_privkey_tweak_add demo_curve b t) then ec_pubkey_create demo_curve (snd (ec_privkey_tweak_add demo_curve b t)) else None)"
proof -
  show "ec_pubkey_parse demo_curve (ec_pubkey_serialize demo_curve pk True) = Some pk"
    using unat_lt2p [of pk] by (simp add: demo_curve_def wval_wlist)
  show "pubkey_ok (ec_pubkey_serialize demo_curve pk True) \<and> length (ec_pubkey_serialize demo_curve pk True) = 33"
    by (simp add: demo_curve_def pubkey_ok_def GetLen_def)
  have "word_of_nat (n mod 2 ^ 256) = (word_of_nat n :: 256 word)" for n
    by (rule word_unat_eq_iff [THEN iffD2]) (simp add: unat_of_nat)
  then show "ec_pubkey_create demo_curve b = Some pk \<Longrightarrow> ec_pubkey_tweak_add demo_curve pk t =
     (if fst (ec_privkey_tweak_add demo_curve b t) then ec_pubkey_create demo_curve (snd (ec_privkey_tweak_add demo_curve b t)) else None)"
    by (auto simp: demo_curve_def wval_wlist)
qed

theorem BIP32_neuter_derive_witness:
  "let x = \<lparr>xk_nDepth = 0, xk_vchFingerprint = replicate 4 0, xk_nChild = 0, xk_chaincode = replicate 32 9,
            xk_key = \<lparr>fValid = True, fCompressed = True, key_vch = replicate 32 7\<rparr>\<rparr>;
       outp = \<lparr>xp_nDepth = 0, xp_vchFingerprint = [], xp_nChild = 0, xp_chaincode = [], xp_pubkey = \<lparr>pk_vch = replicate 65 0\<rparr>\<rparr>;
       j = replicate 64 0; jh = replicate 128 0 in
     \<exists>xp y yp z. CExtKey_Neuter (replicate 65 0) demo_curve x = Some xp \<and>
       CExtKey_Derive (replicate 65 0) j j jh jh jh demo_curve x x 3 = Some (True, y) \<and>
       CExtPubKey_Derive j j jh jh jh (secp256k1.truncate demo_curve) xp outp 3 = Some (True, yp) \<and>
       CExtKey_Neuter (replicate 65 0) demo_curve y = Some z \<and> CExtPubKey_eq z yp"
proof -
  let ?x = "\<lparr>xk_nDepth = 0, xk_vchFingerprint = replicate 4 0, xk_nChild = 0, xk_chaincode = replicate 32 9,
            xk_key = \<lparr>fValid = True, fCompressed = True, key_vch = replicate 32 7\<rparr>\<rparr>"
  let ?outp = "\<lparr>xp_nDepth = 0, xp_vchFingerprint = [], xp_nChild = 0, xp_chaincode = [], xp_pubkey = \<lparr>pk_vch = replicate 65 0\<rparr>\<rparr>"
  obtain xp ret y yp where r: "CExtKey_Neuter (replicate 65 0) demo_curve ?x = Some xp"
    "CExtKey_Derive (replicate 65 0) (replicate 64 0) (replicate 64 0) (replicate 128 0) (replicate 128 0) (replicate 128 0) demo_curve ?x ?x 3 = Some (ret, y)"
    "CExtPubKey_Derive (replicate 64 0) (replicate 64 0) (replicate 128 0) (replicate 128 0) (replicate 128 0) (secp256k1.truncate demo_curve) xp ?outp 3 = Some (ret, yp)"
    "ret \<longrightarrow> (\<exists>z. CExtKey_Neuter (replicate 65 0) demo_curve y = Some z \<and> CExtPubKey_eq z yp)"
    using BIP32_neuter_derive [of demo_curve ?x "word_of_nat (wval (replicate 32 (7 :: byte)))" "replicate 65 0" "replicate 128 0" "replicate 128 0"
        "replicate 128 0" "replicate 64 0" "replicate 64 0" 3 ?outp ?x, OF demo_curve_laws(1,2) demo_curve_laws(3)]
    by (auto simp: demo_curve_def)
  have t: "ret = True"
    using r(2) by (auto simp: CExtKey_Derive_def CKey_Derive_def demo_curve_def bind_Some_iff split: if_splits)
  show ?thesis unfolding Let_def using r [unfolded t] by blast
qed

section \<open>Key generation and encoding of extended keys\<close>

lemma MakeNewKey_loop_skip:
  "(\<And>i. a \<le> i \<Longrightarrow> i < a + d \<Longrightarrow> \<not> CKey_Check ctx (rnd i)) \<Longrightarrow> MakeNewKey_loop ctx rnd a = MakeNewKey_loop ctx rnd (a + d)"
proof (induction d)
  case (Suc d)
  then have "MakeNewKey_loop ctx rnd a = MakeNewKey_loop ctx rnd (a + d)" by simp
  also have "\<dots> = MakeNewKey_loop ctx rnd (a + Suc d)"
    using Suc.prems [of "a + d"] by (subst MakeNewKey_loop.simps) simp
  finally show ?case .
qed simp

lemma MakeNewKey_loop_Some: "MakeNewKey_loop ctx rnd a = Some b \<Longrightarrow> \<exists>i. b = rnd i \<and> CKey_Check ctx (rnd i)"
  by (rule MakeNewKey_loop.raw_induct [where P = "\<lambda>ctx rnd a b. \<exists>i. b = rnd i \<and> CKey_Check ctx (rnd i)"])
    (auto split: if_splits)

text \<open>
  C30. Key generation returns as soon as the generator draws a valid key, with the first such draw, and
  returns only then. A valid extended key is encoded in 74 bytes that decode to an equal extended key.
\<close>

theorem MakeNewKey_returns:
  assumes "CKey_Check ctx (rnd n)" "\<And>i. i < n \<Longrightarrow> \<not> CKey_Check ctx (rnd i)"
    and "length (rnd n) = 32" "length f = 4" "length cc = 32"
  shows "CKey_MakeNewKey ctx rnd k c = Some (k\<lparr>key_vch := rnd n, fValid := True, fCompressed := c\<rparr>) \<and>
    (CKey_MakeNewKey ctx rnd' k c \<noteq> None \<longrightarrow> (\<exists>i. CKey_Check ctx (rnd' i))) \<and>
    (let x = \<lparr>xk_nDepth = d, xk_vchFingerprint = f, xk_nChild = nc, xk_chaincode = cc,
              xk_key = k\<lparr>key_vch := rnd n, fValid := True, fCompressed := True\<rparr>\<rparr> in
     \<exists>code. CExtKey_Encode x = Some code \<and> length code = 74 \<and> CExtKey_eq (CExtKey_Decode ctx out code) x)"
proof -
  have "MakeNewKey_loop ctx rnd 0 = Some (rnd n)"
    using MakeNewKey_loop_skip [of 0 n ctx rnd] assms(1,2) by (simp add: MakeNewKey_loop.simps [of ctx rnd n])
  moreover have "\<exists>i. CKey_Check ctx (rnd' i)" if "CKey_MakeNewKey ctx rnd' k c \<noteq> None"
    using that MakeNewKey_loop_Some [of ctx rnd' 0] by (fastforce simp: CKey_MakeNewKey_def bind_Some_iff)
  moreover have "let x = \<lparr>xk_nDepth = d, xk_vchFingerprint = f, xk_nChild = nc, xk_chaincode = cc,
        xk_key = k\<lparr>key_vch := rnd n, fValid := True, fCompressed := True\<rparr>\<rparr> in
      \<exists>code. CExtKey_Encode x = Some code \<and> length code = 74 \<and> CExtKey_eq (CExtKey_Decode ctx out code) x"
    using assms by (simp add: Let_def CExtKey_Encode_def CExtKey_Decode_def CExtKey_eq_def CKey_eq_def CKey_Set_def CKey_size_def
        nth_append be32_join [simplified])
  ultimately show ?thesis by (simp add: CKey_MakeNewKey_def)
qed

theorem MakeNewKey_returns_witness:
  "CKey_MakeNewKey demo_curve (\<lambda>i. if i < 2 then [] else replicate 32 3) (CKey_default []) True =
     Some \<lparr>fValid = True, fCompressed = True, key_vch = replicate 32 3\<rparr>"
  using MakeNewKey_returns [of demo_curve "\<lambda>i. if i < 2 then [] else replicate 32 3" 2 "replicate 4 0" "replicate 32 0" "CKey_default []" True]
  by (simp add: CKey_Check_def demo_curve_def CKey_default_def)

end
