(* ===== verification/Sig_Encoding.thy ===== *)
theory Sig_Encoding
  imports Key
begin

text \<open>
  \<^verbatim>\<open>script/script_error.h\<close>, \<^verbatim>\<open>script/script_error.cpp\<close> and the first part of \<^verbatim>\<open>script/interpreter.cpp\<close>: errors, verification
  flags, the interface of the signature checkers and the checks of signature and key encodings.

  A result is \<open>None\<close> when an assertion fails, a signed operation overflows or a hash object faults, an
  \<open>Inl\<close> when the function returns false with that \<^verbatim>\<open>ScriptError\<close>, and an \<open>Inr\<close> otherwise. The checkers are
  records of functions that may fault themselves; \<^verbatim>\<open>CPubKey::CheckLowS\<close>, which calls libsecp256k1, is kept with them.
\<close>

section \<open>Errors\<close>

datatype ScriptError =
    SCRIPT_ERR_OK
  | SCRIPT_ERR_UNKNOWN_ERROR
  | SCRIPT_ERR_EVAL_FALSE
  | SCRIPT_ERR_OP_RETURN
  | SCRIPT_ERR_SCRIPT_SIZE
  | SCRIPT_ERR_PUSH_SIZE
  | SCRIPT_ERR_OP_COUNT
  | SCRIPT_ERR_STACK_SIZE
  | SCRIPT_ERR_SIG_COUNT
  | SCRIPT_ERR_PUBKEY_COUNT
  | SCRIPT_ERR_VERIFY
  | SCRIPT_ERR_EQUALVERIFY
  | SCRIPT_ERR_CHECKMULTISIGVERIFY
  | SCRIPT_ERR_CHECKSIGVERIFY
  | SCRIPT_ERR_NUMEQUALVERIFY
  | SCRIPT_ERR_BAD_OPCODE
  | SCRIPT_ERR_DISABLED_OPCODE
  | SCRIPT_ERR_INVALID_STACK_OPERATION
  | SCRIPT_ERR_INVALID_ALTSTACK_OPERATION
  | SCRIPT_ERR_UNBALANCED_CONDITIONAL
  | SCRIPT_ERR_NEGATIVE_LOCKTIME
  | SCRIPT_ERR_UNSATISFIED_LOCKTIME
  | SCRIPT_ERR_SIG_HASHTYPE
  | SCRIPT_ERR_SIG_DER
  | SCRIPT_ERR_MINIMALDATA
  | SCRIPT_ERR_SIG_PUSHONLY
  | SCRIPT_ERR_SIG_HIGH_S
  | SCRIPT_ERR_SIG_NULLDUMMY
  | SCRIPT_ERR_PUBKEYTYPE
  | SCRIPT_ERR_CLEANSTACK
  | SCRIPT_ERR_DISCOURAGE_UPGRADABLE_NOPS
  | SCRIPT_ERR_DISCOURAGE_UPGRADABLE_WITNESS_PROGRAM
  | SCRIPT_ERR_WITNESS_PROGRAM_WRONG_LENGTH
  | SCRIPT_ERR_WITNESS_PROGRAM_WITNESS_EMPTY
  | SCRIPT_ERR_WITNESS_PROGRAM_MISMATCH
  | SCRIPT_ERR_WITNESS_MALLEATED
  | SCRIPT_ERR_WITNESS_MALLEATED_P2SH
  | SCRIPT_ERR_WITNESS_UNEXPECTED
  | SCRIPT_ERR_ERROR_COUNT

definition ScriptErrorString :: "ScriptError \<Rightarrow> string" where
  "ScriptErrorString serror = (case serror of
     SCRIPT_ERR_OK \<Rightarrow> ''No error''
   | SCRIPT_ERR_EVAL_FALSE \<Rightarrow> ''Script evaluated without error but finished with a false/empty top stack element''
   | SCRIPT_ERR_VERIFY \<Rightarrow> ''Script failed an OP_VERIFY operation''
   | SCRIPT_ERR_EQUALVERIFY \<Rightarrow> ''Script failed an OP_EQUALVERIFY operation''
   | SCRIPT_ERR_CHECKMULTISIGVERIFY \<Rightarrow> ''Script failed an OP_CHECKMULTISIGVERIFY operation''
   | SCRIPT_ERR_CHECKSIGVERIFY \<Rightarrow> ''Script failed an OP_CHECKSIGVERIFY operation''
   | SCRIPT_ERR_NUMEQUALVERIFY \<Rightarrow> ''Script failed an OP_NUMEQUALVERIFY operation''
   | SCRIPT_ERR_SCRIPT_SIZE \<Rightarrow> ''Script is too big''
   | SCRIPT_ERR_PUSH_SIZE \<Rightarrow> ''Push value size limit exceeded''
   | SCRIPT_ERR_OP_COUNT \<Rightarrow> ''Operation limit exceeded''
   | SCRIPT_ERR_STACK_SIZE \<Rightarrow> ''Stack size limit exceeded''
   | SCRIPT_ERR_SIG_COUNT \<Rightarrow> ''Signature count negative or greater than pubkey count''
   | SCRIPT_ERR_PUBKEY_COUNT \<Rightarrow> ''Pubkey count negative or limit exceeded''
   | SCRIPT_ERR_BAD_OPCODE \<Rightarrow> ''Opcode missing or not understood''
   | SCRIPT_ERR_DISABLED_OPCODE \<Rightarrow> ''Attempted to use a disabled opcode''
   | SCRIPT_ERR_INVALID_STACK_OPERATION \<Rightarrow> ''Operation not valid with the current stack size''
   | SCRIPT_ERR_INVALID_ALTSTACK_OPERATION \<Rightarrow> ''Operation not valid with the current altstack size''
   | SCRIPT_ERR_OP_RETURN \<Rightarrow> ''OP_RETURN was encountered''
   | SCRIPT_ERR_UNBALANCED_CONDITIONAL \<Rightarrow> ''Invalid OP_IF construction''
   | SCRIPT_ERR_NEGATIVE_LOCKTIME \<Rightarrow> ''Negative locktime''
   | SCRIPT_ERR_UNSATISFIED_LOCKTIME \<Rightarrow> ''Locktime requirement not satisfied''
   | SCRIPT_ERR_SIG_HASHTYPE \<Rightarrow> ''Signature hash type missing or not understood''
   | SCRIPT_ERR_SIG_DER \<Rightarrow> ''Non-canonical DER signature''
   | SCRIPT_ERR_MINIMALDATA \<Rightarrow> ''Data push larger than necessary''
   | SCRIPT_ERR_SIG_PUSHONLY \<Rightarrow> ''Only non-push operators allowed in signatures''
   | SCRIPT_ERR_SIG_HIGH_S \<Rightarrow> ''Non-canonical signature: S value is unnecessarily high''
   | SCRIPT_ERR_SIG_NULLDUMMY \<Rightarrow> ''Dummy CHECKMULTISIG argument must be zero''
   | SCRIPT_ERR_DISCOURAGE_UPGRADABLE_NOPS \<Rightarrow> ''NOPx reserved for soft-fork upgrades''
   | SCRIPT_ERR_DISCOURAGE_UPGRADABLE_WITNESS_PROGRAM \<Rightarrow> ''Witness version reserved for soft-fork upgrades''
   | SCRIPT_ERR_PUBKEYTYPE \<Rightarrow> ''Public key is neither compressed or uncompressed''
   | SCRIPT_ERR_WITNESS_PROGRAM_WRONG_LENGTH \<Rightarrow> ''Witness program has incorrect length''
   | SCRIPT_ERR_WITNESS_PROGRAM_WITNESS_EMPTY \<Rightarrow> ''Witness program was passed an empty witness''
   | SCRIPT_ERR_WITNESS_PROGRAM_MISMATCH \<Rightarrow> ''Witness program hash mismatch''
   | SCRIPT_ERR_WITNESS_MALLEATED \<Rightarrow> ''Witness requires empty scriptSig''
   | SCRIPT_ERR_WITNESS_MALLEATED_P2SH \<Rightarrow> ''Witness requires only-redeemscript scriptSig''
   | SCRIPT_ERR_WITNESS_UNEXPECTED \<Rightarrow> ''Witness provided for non-witness script''
   | _ \<Rightarrow> ''unknown error'')"

type_synonym 'a result = "(ScriptError + 'a) option"

abbreviation success :: "'a \<Rightarrow> 'a result" where
  "success x \<equiv> Some (Inr x)"

abbreviation set_error :: "ScriptError \<Rightarrow> 'a result" where
  "set_error e \<equiv> Some (Inl e)"

section \<open>Flags\<close>

definition SCRIPT_VERIFY_NONE :: u32 where
  "SCRIPT_VERIFY_NONE = 0"

definition SCRIPT_VERIFY_P2SH :: u32 where
  "SCRIPT_VERIFY_P2SH = push_bit 0 1"

definition SCRIPT_VERIFY_STRICTENC :: u32 where
  "SCRIPT_VERIFY_STRICTENC = push_bit 1 1"

definition SCRIPT_VERIFY_DERSIG :: u32 where
  "SCRIPT_VERIFY_DERSIG = push_bit 2 1"

definition SCRIPT_VERIFY_LOW_S :: u32 where
  "SCRIPT_VERIFY_LOW_S = push_bit 3 1"

definition SCRIPT_VERIFY_NULLDUMMY :: u32 where
  "SCRIPT_VERIFY_NULLDUMMY = push_bit 4 1"

definition SCRIPT_VERIFY_SIGPUSHONLY :: u32 where
  "SCRIPT_VERIFY_SIGPUSHONLY = push_bit 5 1"

definition SCRIPT_VERIFY_MINIMALDATA :: u32 where
  "SCRIPT_VERIFY_MINIMALDATA = push_bit 6 1"

definition SCRIPT_VERIFY_DISCOURAGE_UPGRADABLE_NOPS :: u32 where
  "SCRIPT_VERIFY_DISCOURAGE_UPGRADABLE_NOPS = push_bit 7 1"

definition SCRIPT_VERIFY_CLEANSTACK :: u32 where
  "SCRIPT_VERIFY_CLEANSTACK = push_bit 8 1"

definition SCRIPT_VERIFY_CHECKLOCKTIMEVERIFY :: u32 where
  "SCRIPT_VERIFY_CHECKLOCKTIMEVERIFY = push_bit 9 1"

definition SCRIPT_VERIFY_CHECKSEQUENCEVERIFY :: u32 where
  "SCRIPT_VERIFY_CHECKSEQUENCEVERIFY = push_bit 10 1"

definition SIGHASH_ALL :: byte where
  "SIGHASH_ALL = 1"

definition SIGHASH_NONE :: byte where
  "SIGHASH_NONE = 2"

definition SIGHASH_SINGLE :: byte where
  "SIGHASH_SINGLE = 3"

definition SIGHASH_ANYONECANPAY :: byte where
  "SIGHASH_ANYONECANPAY = 0x80"

text \<open>
  What the machine calls: the virtual functions of \<^verbatim>\<open>BaseSignatureChecker\<close> and \<^verbatim>\<open>CPubKey::CheckLowS\<close>.
\<close>

record SignatureChecker =
  CheckSig :: "bytes \<Rightarrow> bytes \<Rightarrow> bytes \<Rightarrow> bool option"
  CheckLockTime :: "int \<Rightarrow> bool option"
  CheckSequence :: "int \<Rightarrow> bool option"
  CheckLowS :: "bytes \<Rightarrow> bool option"

definition BaseSignatureChecker :: "(bytes \<Rightarrow> bool option) \<Rightarrow> SignatureChecker" where
  "BaseSignatureChecker low =
     \<lparr>CheckSig = (\<lambda>scriptSig vchPubKey scriptCode. Some False), CheckLockTime = (\<lambda>nLockTime. Some False),
      CheckSequence = (\<lambda>nSequence. Some False), CheckLowS = low\<rparr>"

section \<open>Encodings\<close>

fun CastToBool :: "bytes \<Rightarrow> bool" where
  "CastToBool [] = False"
| "CastToBool (b # vch) =
     (if b \<noteq> 0 then (if vch = [] \<and> b = 0x80 then False else True) else CastToBool vch)"

definition popstack :: "'a list \<Rightarrow> 'a list result" where
  "popstack s = (case s of [] \<Rightarrow> set_error SCRIPT_ERR_UNKNOWN_ERROR | x # s \<Rightarrow> success s)"

definition IsCompressedOrUncompressedPubKey :: "bytes \<Rightarrow> bool" where
  "IsCompressedOrUncompressedPubKey vchPubKey =
     (if length vchPubKey < 33 then False
      else if vchPubKey ! 0 = 0x04 then (if length vchPubKey \<noteq> 65 then False else True)
      else if vchPubKey ! 0 = 0x02 \<or> vchPubKey ! 0 = 0x03 then (if length vchPubKey \<noteq> 33 then False else True)
      else False)"

definition IsValidSignatureEncoding :: "bytes \<Rightarrow> bool" where
  "IsValidSignatureEncoding sig =
     (if length sig < 9 then False
      else if length sig > 73 then False
      else if sig ! 0 \<noteq> 0x30 then False
      else if unat (sig ! 1) \<noteq> length sig - 3 then False
      else let lenR = unat (sig ! 3) in
        if 5 + lenR \<ge> length sig then False
        else let lenS = unat (sig ! (5 + lenR)) in
          if lenR + lenS + 7 \<noteq> length sig then False
          else if sig ! 2 \<noteq> 0x02 then False
          else if lenR = 0 then False
          else if sig ! 4 AND 0x80 \<noteq> 0 then False
          else if lenR > 1 \<and> sig ! 4 = 0x00 \<and> \<not> (sig ! 5 AND 0x80 \<noteq> 0) then False
          else if sig ! (lenR + 4) \<noteq> 0x02 then False
          else if lenS = 0 then False
          else if sig ! (lenR + 6) AND 0x80 \<noteq> 0 then False
          else if lenS > 1 \<and> sig ! (lenR + 6) = 0x00 \<and> \<not> (sig ! (lenR + 7) AND 0x80 \<noteq> 0) then False
          else True)"

definition IsLowDERSignature :: "(bytes \<Rightarrow> bool option) \<Rightarrow> bytes \<Rightarrow> unit result" where
  "IsLowDERSignature low vchSig =
     (if \<not> IsValidSignatureEncoding vchSig then set_error SCRIPT_ERR_SIG_DER
      else let vchSigCopy = take (length vchSig - 1) vchSig in
        do { ok \<leftarrow> low vchSigCopy; if \<not> ok then set_error SCRIPT_ERR_SIG_HIGH_S else success () })"

definition IsDefinedHashtypeSignature :: "bytes \<Rightarrow> bool" where
  "IsDefinedHashtypeSignature vchSig =
     (if length vchSig = 0 then False
      else let nHashType = vchSig ! (length vchSig - 1) AND NOT SIGHASH_ANYONECANPAY in
        if nHashType < SIGHASH_ALL \<or> nHashType > SIGHASH_SINGLE then False else True)"

definition CheckSignatureEncoding :: "(bytes \<Rightarrow> bool option) \<Rightarrow> bytes \<Rightarrow> u32 \<Rightarrow> unit result" where
  "CheckSignatureEncoding low vchSig flags =
     (if length vchSig = 0 then success ()
      else if flags AND (SCRIPT_VERIFY_DERSIG OR SCRIPT_VERIFY_LOW_S OR SCRIPT_VERIFY_STRICTENC) \<noteq> 0 \<and>
              \<not> IsValidSignatureEncoding vchSig then set_error SCRIPT_ERR_SIG_DER
      else ebind (if flags AND SCRIPT_VERIFY_LOW_S \<noteq> 0 then IsLowDERSignature low vchSig else success ()) (\<lambda>_.
        if flags AND SCRIPT_VERIFY_STRICTENC \<noteq> 0 \<and> \<not> IsDefinedHashtypeSignature vchSig
        then set_error SCRIPT_ERR_SIG_HASHTYPE else success ()))"

definition CheckPubKeyEncoding :: "bytes \<Rightarrow> u32 \<Rightarrow> unit result" where
  "CheckPubKeyEncoding vchSig flags =
     (if flags AND SCRIPT_VERIFY_STRICTENC \<noteq> 0 \<and> \<not> IsCompressedOrUncompressedPubKey vchSig
      then set_error SCRIPT_ERR_PUBKEYTYPE else success ())"

definition CheckMinimalPush :: "bytes \<Rightarrow> byte \<Rightarrow> bool" where
  "CheckMinimalPush data opcode =
     (if length data = 0 then opcode = OP_0
      else if length data = 1 \<and> data ! 0 \<ge> 1 \<and> data ! 0 \<le> 16 then uint opcode = uint OP_1 + (uint (data ! 0) - 1)
      else if length data = 1 \<and> data ! 0 = 0x81 then opcode = OP_1NEGATE
      else if length data \<le> 75 then unat opcode = length data
      else if length data \<le> 255 then opcode = OP_PUSHDATA1
      else if length data \<le> 65535 then opcode = OP_PUSHDATA2
      else True)"

section \<open>Strict DER\<close>

text \<open>
  The integers of a canonical signature: at least one byte, not negative, and no leading zero byte unless
  the integer would be negative without it.
\<close>

definition der_int_ok :: "bytes \<Rightarrow> bool" where
  "der_int_ok r \<longleftrightarrow> r \<noteq> [] \<and> r ! 0 AND 0x80 = 0 \<and> (length r > 1 \<and> r ! 0 = 0 \<longrightarrow> r ! 1 AND 0x80 \<noteq> 0)"

lemma drop_nth_Cons: "n < length xs \<Longrightarrow> drop n xs = xs ! n # drop (Suc n) xs"
  by (simp add: Cons_nth_drop_Suc)

lemma sig_split:
  assumes "length sig = lenR + lenS + 7"
  shows "sig = [sig ! 0, sig ! 1, sig ! 2, sig ! 3] @ take lenR (drop 4 sig) @
    [sig ! (lenR + 4), sig ! (lenR + 5)] @ take lenS (drop (lenR + 6) sig) @ [sig ! (lenR + lenS + 6)]"
proof -
  have "drop (lenR + lenS + 6) sig = [sig ! (lenR + lenS + 6)]" using assms by (simp add: drop_nth_Cons)
  then have "drop (lenR + 6) sig = take lenS (drop (lenR + 6) sig) @ [sig ! (lenR + lenS + 6)]"
    using append_take_drop_id [of lenS "drop (lenR + 6) sig"] by (simp add: ac_simps)
  then have s: "drop (lenR + 4) sig = [sig ! (lenR + 4), sig ! (lenR + 5)] @ take lenS (drop (lenR + 6) sig) @ [sig ! (lenR + lenS + 6)]"
    using assms drop_nth_Cons [of "lenR + 4" sig] drop_nth_Cons [of "lenR + 5" sig] by (simp add: eval_nat_numeral)
  have "drop 4 sig = take lenR (drop 4 sig) @ drop (lenR + 4) sig"
    using append_take_drop_id [of lenR "drop 4 sig"] by (simp add: ac_simps)
  moreover have "sig = [sig ! 0, sig ! 1, sig ! 2, sig ! 3] @ drop 4 sig"
    using assms drop_nth_Cons [of 0 sig] drop_nth_Cons [of 1 sig] drop_nth_Cons [of 2 sig] drop_nth_Cons [of 3 sig]
    by (simp add: eval_nat_numeral)
  ultimately show ?thesis using s by simp
qed

lemma der_sig_hashtype:
  "der_sig r s @ [ht] = [0x30, word_of_nat (4 + length r + length s), 0x02, word_of_nat (length r)] @ r @
     [0x02, word_of_nat (length s)] @ s @ [ht]"
  by (simp add: der_sig_def der_enc_def)

lemma IsValidSignatureEncoding_der_sig:
  assumes "der_int_ok r" "der_int_ok s" "length r + length s \<le> 66"
  shows "IsValidSignatureEncoding (der_sig r s @ [ht])"
proof -
  let ?g = "der_sig r s @ [ht]"
  have l: "length ?g = length r + length s + 7" by (simp add: der_sig_def der_enc_def)
  have pos: "0 < length r" "0 < length s" using assms by (auto simp: der_int_ok_def)
  have u: "unat (?g ! 1) = 4 + length r + length s" "unat (?g ! 3) = length r" "unat (?g ! (5 + length r)) = length s"
    using assms(3) small_length_byte(1) [of "4 + length r + length s"] small_length_byte(1) [of "length r"] small_length_byte(1) [of "length s"]
    unfolding der_sig_hashtype by (simp_all add: nth_append)
  have t: "?g ! 0 = 0x30" "?g ! 2 = 0x02" "?g ! (length r + 4) = 0x02"
    unfolding der_sig_hashtype by (simp_all add: nth_append)
  have rs: "?g ! 4 = r ! 0" "?g ! (length r + 6) = s ! 0"
    and rs': "length r > 1 \<Longrightarrow> ?g ! 5 = r ! 1" "length s > 1 \<Longrightarrow> ?g ! (length r + 7) = s ! 1"
    using pos unfolding der_sig_hashtype by (simp_all add: nth_append)
  have "\<not> length r + length s < 2" using pos by linarith
  then show ?thesis
    using assms pos rs' unfolding IsValidSignatureEncoding_def Let_def u t rs l der_int_ok_def
    by (auto simp del: length_greater_0_conv)
qed

lemma IsValidSignatureEncoding_D:
  assumes "IsValidSignatureEncoding sig"
  shows "\<exists>r s ht. sig = der_sig r s @ [ht] \<and> der_int_ok r \<and> der_int_ok s \<and> length r + length s \<le> 66"
proof -
  define lenR where "lenR = unat (sig ! 3)"
  define lenS where "lenS = unat (sig ! (5 + lenR))"
  have v: "length sig \<le> 73" "sig ! 0 = 0x30" "unat (sig ! 1) = length sig - 3" "lenR + lenS + 7 = length sig"
    "sig ! 2 = 0x02" "lenR \<noteq> 0" "sig ! 4 AND 0x80 = 0" "lenR > 1 \<and> sig ! 4 = 0 \<longrightarrow> sig ! 5 AND 0x80 \<noteq> 0"
    "sig ! (lenR + 4) = 0x02" "lenS \<noteq> 0" "sig ! (lenR + 6) AND 0x80 = 0"
    "lenS > 1 \<and> sig ! (lenR + 6) = 0 \<longrightarrow> sig ! (lenR + 7) AND 0x80 \<noteq> 0"
    using assms unfolding IsValidSignatureEncoding_def Let_def lenS_def lenR_def by (auto split: if_splits)
  let ?r = "take lenR (drop 4 sig)" and ?s = "take lenS (drop (lenR + 6) sig)"
  have l: "length ?r = lenR" "length ?s = lenS" using v(4) by auto
  have u: "4 + lenR + lenS = unat (sig ! 1)" using v(3,4) by linarith
  have b: "sig ! 1 = word_of_nat (4 + lenR + lenS)" unfolding u by simp
  have b': "sig ! 3 = word_of_nat lenR" "sig ! (lenR + 5) = word_of_nat lenS" by (simp_all add: lenR_def lenS_def add.commute)
  have "sig = der_sig ?r ?s @ [sig ! (lenR + lenS + 6)]"
    using sig_split [OF v(4) [symmetric]] unfolding der_sig_hashtype l v(2,5,9) b b' by (simp only: ac_simps)
  moreover have "der_int_ok ?r" "der_int_ok ?s"
    using v by (auto simp: der_int_ok_def add.commute)
  ultimately show ?thesis using l v(1,4) by (intro exI [of _ ?r] exI [of _ ?s] exI) auto
qed

text \<open>
  C16. Strict and lax signature parsing. \<^verbatim>\<open>IsValidSignatureEncoding\<close> accepts exactly the DER encodings of two
  canonical integers followed by a hash type byte, of at most 73 bytes. The lax parser of \<^verbatim>\<open>pubkey.cpp\<close>
  accepts every such encoding and hands the two integers, stripped of leading zeros and padded to 32
  bytes, to the curve library (or the invalid signature of zeros when they do not fit or the library
  refuses them), and on no input at all does it read outside of its buffer.
\<close>

theorem signature_DER:
  "(IsValidSignatureEncoding sig \<longleftrightarrow>
      (\<exists>r s ht. sig = der_sig r s @ [ht] \<and> der_int_ok r \<and> der_int_ok s \<and> length r + length s \<le> 66)) \<and>
   (length r + length s \<le> 66 \<longrightarrow>
      ecdsa_signature_parse_der_lax ctx (der_sig r s) =
        Some (Inr (if length (trim r) \<le> 32 \<and> length (trim s) \<le> 32 \<and> fst (ecdsa_signature_parse_compact ctx (pad32 r @ pad32 s))
                   then snd (ecdsa_signature_parse_compact ctx (pad32 r @ pad32 s))
                   else snd (ecdsa_signature_parse_compact ctx (replicate 64 0))))) \<and>
   ecdsa_signature_parse_der_lax ctx input \<noteq> None"
  using IsValidSignatureEncoding_D [of sig] IsValidSignatureEncoding_der_sig parse_der_lax_enc [of r s ctx "[]"]
    eok_not_None [OF parse_der_lax_ok, of ctx input]
  by auto

theorem signature_DER_witness:
  "IsValidSignatureEncoding (der_sig [5] [0, 0x81] @ [1]) \<and>
   ecdsa_signature_parse_der_lax (secp256k1.truncate demo_curve) (der_sig [5] [0, 0x81]) =
     Some (Inr (replicate 31 0 @ [5] @ replicate 31 0 @ [0x81]))"
proof -
  have "der_int_ok [5]" "der_int_ok [0, 0x81]" by (simp_all add: der_int_ok_def)
  then show ?thesis
    using signature_DER [of "der_sig [5] [0, 0x81] @ [1]" "[5]" "[0, 0x81]" "secp256k1.truncate demo_curve" "[]"]
    by (force simp: demo_curve_def secp256k1.defs trim_def pad32_def)
qed

end
