(* ===== verification/Interpreter.thy ===== *)
theory Interpreter
  imports Sig_Encoding
begin

text \<open>
  The script machine \<^verbatim>\<open>EvalScript\<close> of \<^verbatim>\<open>script/interpreter.cpp\<close>. One definition models each \<^verbatim>\<open>case\<close> of the \<^verbatim>\<open>switch\<close>.
  Results are those of \<open>Sig_Encoding\<close>; a thrown exception is caught by \<^verbatim>\<open>EvalScript\<close> itself and is
  \<open>SCRIPT_ERR_UNKNOWN_ERROR\<close>. Stacks are lists with the top first, so \<^verbatim>\<open>stacktop(-i)\<close> is element \<open>i - 1\<close>; the
  guards on the stack size are the patterns of the case distinctions.
\<close>

section \<open>The state of EvalScript\<close>

text \<open>
  \<^verbatim>\<open>stack\<close>, \<^verbatim>\<open>altstack\<close> and \<^verbatim>\<open>vfExec\<close> have their last element first. \<^verbatim>\<open>pbegincodehash\<close> is the rest of the script
  from that iterator; \<^verbatim>\<open>pc\<close>, after the operation has been read, is an argument of the operations that use it.
\<close>

record EvalState =
  stack :: "bytes list"
  altstack :: "bytes list"
  vfExec :: "bool list"
  nOpCount :: int
  pbegincodehash :: bytes

type_synonym op_result = "EvalState result"

definition vchFalse :: bytes where
  "vchFalse = []"

definition vchTrue :: bytes where
  "vchTrue = [1]"

definition bool_vch :: "bool \<Rightarrow> bytes" where
  "bool_vch b = (if b then vchTrue else vchFalse)"

text \<open>A stack element read as a number; \<^verbatim>\<open>scriptnum_error\<close> ends in the handler of \<^verbatim>\<open>EvalScript\<close>.\<close>

definition with_num :: "u32 \<Rightarrow> bytes \<Rightarrow> nat \<Rightarrow> (int \<Rightarrow> op_result) \<Rightarrow> op_result" where
  "with_num flags vch nMaxNumSize k =
     (case CScriptNum vch (flags AND SCRIPT_VERIFY_MINIMALDATA \<noteq> 0) nMaxNumSize of
        Inl e \<Rightarrow> set_error SCRIPT_ERR_UNKNOWN_ERROR
      | Inr n \<Rightarrow> k n)"

abbreviation bad_stack :: op_result where
  "bad_stack \<equiv> set_error SCRIPT_ERR_INVALID_STACK_OPERATION"

section \<open>Push and control operations\<close>

definition op_push_value :: "u32 \<Rightarrow> byte \<Rightarrow> bytes \<Rightarrow> EvalState \<Rightarrow> op_result" where
  "op_push_value flags opcode vchPushValue st =
     (if flags AND SCRIPT_VERIFY_MINIMALDATA \<noteq> 0 \<and> \<not> CheckMinimalPush vchPushValue opcode
      then set_error SCRIPT_ERR_MINIMALDATA
      else success (st\<lparr>stack := vchPushValue # stack st\<rparr>))"

definition op_small_int :: "byte \<Rightarrow> EvalState \<Rightarrow> op_result" where
  "op_small_int opcode st = success (st\<lparr>stack := serialize (uint opcode - (uint OP_1 - 1)) # stack st\<rparr>)"

definition op_checklocktimeverify :: "u32 \<Rightarrow> SignatureChecker \<Rightarrow> EvalState \<Rightarrow> op_result" where
  "op_checklocktimeverify flags chk st =
     (if flags AND SCRIPT_VERIFY_CHECKLOCKTIMEVERIFY = 0
      then if flags AND SCRIPT_VERIFY_DISCOURAGE_UPGRADABLE_NOPS \<noteq> 0
           then set_error SCRIPT_ERR_DISCOURAGE_UPGRADABLE_NOPS else success st
      else case stack st of [] \<Rightarrow> bad_stack
        | x # s \<Rightarrow> with_num flags x 5 (\<lambda>nLockTime.
            if nLockTime < 0 then set_error SCRIPT_ERR_NEGATIVE_LOCKTIME
            else do {
              ok \<leftarrow> CheckLockTime chk nLockTime;
              if \<not> ok then set_error SCRIPT_ERR_UNSATISFIED_LOCKTIME else success st
            }))"

definition op_checksequenceverify :: "u32 \<Rightarrow> SignatureChecker \<Rightarrow> EvalState \<Rightarrow> op_result" where
  "op_checksequenceverify flags chk st =
     (if flags AND SCRIPT_VERIFY_CHECKSEQUENCEVERIFY = 0
      then if flags AND SCRIPT_VERIFY_DISCOURAGE_UPGRADABLE_NOPS \<noteq> 0
           then set_error SCRIPT_ERR_DISCOURAGE_UPGRADABLE_NOPS else success st
      else case stack st of [] \<Rightarrow> bad_stack
        | x # s \<Rightarrow> with_num flags x 5 (\<lambda>nSequence.
            if nSequence < 0 then set_error SCRIPT_ERR_NEGATIVE_LOCKTIME
            else if nSequence AND uint SEQUENCE_LOCKTIME_DISABLE_FLAG \<noteq> 0 then success st
            else do {
              ok \<leftarrow> CheckSequence chk nSequence;
              if \<not> ok then set_error SCRIPT_ERR_UNSATISFIED_LOCKTIME else success st
            }))"

definition op_nop_n :: "u32 \<Rightarrow> EvalState \<Rightarrow> op_result" where
  "op_nop_n flags st =
     (if flags AND SCRIPT_VERIFY_DISCOURAGE_UPGRADABLE_NOPS \<noteq> 0
      then set_error SCRIPT_ERR_DISCOURAGE_UPGRADABLE_NOPS else success st)"

definition op_if :: "byte \<Rightarrow> bool \<Rightarrow> EvalState \<Rightarrow> op_result" where
  "op_if opcode fExec st =
     (if fExec
      then case stack st of [] \<Rightarrow> set_error SCRIPT_ERR_UNBALANCED_CONDITIONAL
        | vch # s \<Rightarrow>
            let fValue = CastToBool vch;
                fValue = (if opcode = OP_NOTIF then \<not> fValue else fValue)
            in success (st\<lparr>stack := s, vfExec := fValue # vfExec st\<rparr>)
      else success (st\<lparr>vfExec := False # vfExec st\<rparr>))"

definition op_else :: "EvalState \<Rightarrow> op_result" where
  "op_else st =
     (case vfExec st of [] \<Rightarrow> set_error SCRIPT_ERR_UNBALANCED_CONDITIONAL
      | b # v \<Rightarrow> success (st\<lparr>vfExec := (\<not> b) # v\<rparr>))"

definition op_endif :: "EvalState \<Rightarrow> op_result" where
  "op_endif st =
     (case vfExec st of [] \<Rightarrow> set_error SCRIPT_ERR_UNBALANCED_CONDITIONAL
      | b # v \<Rightarrow> success (st\<lparr>vfExec := v\<rparr>))"

definition op_verify :: "EvalState \<Rightarrow> op_result" where
  "op_verify st =
     (case stack st of [] \<Rightarrow> bad_stack
      | x # s \<Rightarrow> if CastToBool x then success (st\<lparr>stack := s\<rparr>) else set_error SCRIPT_ERR_VERIFY)"

definition op_return :: "EvalState \<Rightarrow> op_result" where
  "op_return st = set_error SCRIPT_ERR_OP_RETURN"

section \<open>Stack operations\<close>

definition op_toaltstack :: "EvalState \<Rightarrow> op_result" where
  "op_toaltstack st =
     (case stack st of [] \<Rightarrow> bad_stack
      | x # s \<Rightarrow> success (st\<lparr>stack := s, altstack := x # altstack st\<rparr>))"

definition op_fromaltstack :: "EvalState \<Rightarrow> op_result" where
  "op_fromaltstack st =
     (case altstack st of [] \<Rightarrow> set_error SCRIPT_ERR_INVALID_ALTSTACK_OPERATION
      | x # a \<Rightarrow> success (st\<lparr>stack := x # stack st, altstack := a\<rparr>))"

definition op_2drop :: "EvalState \<Rightarrow> op_result" where
  "op_2drop st = (case stack st of x2 # x1 # s \<Rightarrow> success (st\<lparr>stack := s\<rparr>) | _ \<Rightarrow> bad_stack)"

definition op_2dup :: "EvalState \<Rightarrow> op_result" where
  "op_2dup st =
     (case stack st of vch2 # vch1 # s \<Rightarrow> success (st\<lparr>stack := vch2 # vch1 # vch2 # vch1 # s\<rparr>) | _ \<Rightarrow> bad_stack)"

definition op_3dup :: "EvalState \<Rightarrow> op_result" where
  "op_3dup st =
     (case stack st of vch3 # vch2 # vch1 # s \<Rightarrow>
        success (st\<lparr>stack := vch3 # vch2 # vch1 # vch3 # vch2 # vch1 # s\<rparr>)
      | _ \<Rightarrow> bad_stack)"

definition op_2over :: "EvalState \<Rightarrow> op_result" where
  "op_2over st =
     (case stack st of x4 # x3 # vch2 # vch1 # s \<Rightarrow>
        success (st\<lparr>stack := vch2 # vch1 # x4 # x3 # vch2 # vch1 # s\<rparr>)
      | _ \<Rightarrow> bad_stack)"

definition op_2rot :: "EvalState \<Rightarrow> op_result" where
  "op_2rot st =
     (case stack st of x6 # x5 # x4 # x3 # vch2 # vch1 # s \<Rightarrow>
        success (st\<lparr>stack := vch2 # vch1 # x6 # x5 # x4 # x3 # s\<rparr>)
      | _ \<Rightarrow> bad_stack)"

definition op_2swap :: "EvalState \<Rightarrow> op_result" where
  "op_2swap st =
     (case stack st of x4 # x3 # x2 # x1 # s \<Rightarrow> success (st\<lparr>stack := x2 # x1 # x4 # x3 # s\<rparr>) | _ \<Rightarrow> bad_stack)"

definition op_ifdup :: "EvalState \<Rightarrow> op_result" where
  "op_ifdup st =
     (case stack st of [] \<Rightarrow> bad_stack
      | vch # s \<Rightarrow> if CastToBool vch then success (st\<lparr>stack := vch # vch # s\<rparr>) else success st)"

definition op_depth :: "EvalState \<Rightarrow> op_result" where
  "op_depth st = success (st\<lparr>stack := serialize (int (length (stack st))) # stack st\<rparr>)"

definition op_drop :: "EvalState \<Rightarrow> op_result" where
  "op_drop st = (case stack st of [] \<Rightarrow> bad_stack | x # s \<Rightarrow> success (st\<lparr>stack := s\<rparr>))"

definition op_dup :: "EvalState \<Rightarrow> op_result" where
  "op_dup st = (case stack st of [] \<Rightarrow> bad_stack | vch # s \<Rightarrow> success (st\<lparr>stack := vch # vch # s\<rparr>))"

definition op_nip :: "EvalState \<Rightarrow> op_result" where
  "op_nip st = (case stack st of x2 # x1 # s \<Rightarrow> success (st\<lparr>stack := x2 # s\<rparr>) | _ \<Rightarrow> bad_stack)"

definition op_over :: "EvalState \<Rightarrow> op_result" where
  "op_over st = (case stack st of x2 # vch # s \<Rightarrow> success (st\<lparr>stack := vch # x2 # vch # s\<rparr>) | _ \<Rightarrow> bad_stack)"

definition op_pick_roll :: "u32 \<Rightarrow> byte \<Rightarrow> EvalState \<Rightarrow> op_result" where
  "op_pick_roll flags opcode st =
     (case stack st of x # y # s' \<Rightarrow>
        with_num flags x nDefaultMaxNumSize (\<lambda>bn.
          let n = getint bn; s = y # s' in
          if n < 0 \<or> n \<ge> int (length s) then bad_stack
          else let vch = s ! nat n;
                   s = (if opcode = OP_ROLL then take (nat n) s @ drop (Suc (nat n)) s else s)
               in success (st\<lparr>stack := vch # s\<rparr>))
      | _ \<Rightarrow> bad_stack)"

definition op_rot :: "EvalState \<Rightarrow> op_result" where
  "op_rot st = (case stack st of x3 # x2 # x1 # s \<Rightarrow> success (st\<lparr>stack := x1 # x3 # x2 # s\<rparr>) | _ \<Rightarrow> bad_stack)"

definition op_swap :: "EvalState \<Rightarrow> op_result" where
  "op_swap st = (case stack st of x2 # x1 # s \<Rightarrow> success (st\<lparr>stack := x1 # x2 # s\<rparr>) | _ \<Rightarrow> bad_stack)"

definition op_tuck :: "EvalState \<Rightarrow> op_result" where
  "op_tuck st = (case stack st of vch # x1 # s \<Rightarrow> success (st\<lparr>stack := vch # x1 # vch # s\<rparr>) | _ \<Rightarrow> bad_stack)"

definition op_size :: "EvalState \<Rightarrow> op_result" where
  "op_size st =
     (case stack st of [] \<Rightarrow> bad_stack
      | x # s \<Rightarrow> success (st\<lparr>stack := serialize (int (length x)) # x # s\<rparr>))"

definition op_equal :: "byte \<Rightarrow> EvalState \<Rightarrow> op_result" where
  "op_equal opcode st =
     (case stack st of vch2 # vch1 # s \<Rightarrow>
        let fEqual = (vch1 = vch2) in
        if opcode = OP_EQUALVERIFY
        then if fEqual then success (st\<lparr>stack := s\<rparr>) else set_error SCRIPT_ERR_EQUALVERIFY
        else success (st\<lparr>stack := bool_vch fEqual # s\<rparr>)
      | _ \<Rightarrow> bad_stack)"

section \<open>Numeric operations\<close>

definition unary_num :: "byte \<Rightarrow> int \<Rightarrow> int option" where
  "unary_num opcode bn =
     (if opcode = OP_1ADD then scriptnum_add bn 1
      else if opcode = OP_1SUB then scriptnum_sub bn 1
      else if opcode = OP_NEGATE then scriptnum_neg bn
      else if opcode = OP_ABS then (if bn < 0 then scriptnum_neg bn else Some bn)
      else if opcode = OP_NOT then Some (of_bool (bn = 0))
      else if opcode = OP_0NOTEQUAL then Some (of_bool (bn \<noteq> 0))
      else None)"

definition op_unary :: "u32 \<Rightarrow> byte \<Rightarrow> EvalState \<Rightarrow> op_result" where
  "op_unary flags opcode st =
     (case stack st of [] \<Rightarrow> bad_stack
      | x # s \<Rightarrow> with_num flags x nDefaultMaxNumSize (\<lambda>bn.
          do { bn \<leftarrow> unary_num opcode bn; success (st\<lparr>stack := serialize bn # s\<rparr>) }))"

definition binary_num :: "byte \<Rightarrow> int \<Rightarrow> int \<Rightarrow> int option" where
  "binary_num opcode bn1 bn2 =
     (if opcode = OP_ADD then int64 (bn1 + bn2)
      else if opcode = OP_SUB then int64 (bn1 - bn2)
      else if opcode = OP_BOOLAND then Some (of_bool (bn1 \<noteq> 0 \<and> bn2 \<noteq> 0))
      else if opcode = OP_BOOLOR then Some (of_bool (bn1 \<noteq> 0 \<or> bn2 \<noteq> 0))
      else if opcode = OP_NUMEQUAL then Some (of_bool (bn1 = bn2))
      else if opcode = OP_NUMEQUALVERIFY then Some (of_bool (bn1 = bn2))
      else if opcode = OP_NUMNOTEQUAL then Some (of_bool (bn1 \<noteq> bn2))
      else if opcode = OP_LESSTHAN then Some (of_bool (bn1 < bn2))
      else if opcode = OP_GREATERTHAN then Some (of_bool (bn1 > bn2))
      else if opcode = OP_LESSTHANOREQUAL then Some (of_bool (bn1 \<le> bn2))
      else if opcode = OP_GREATERTHANOREQUAL then Some (of_bool (bn1 \<ge> bn2))
      else if opcode = OP_MIN then Some (if bn1 < bn2 then bn1 else bn2)
      else if opcode = OP_MAX then Some (if bn1 > bn2 then bn1 else bn2)
      else None)"

definition op_binary :: "u32 \<Rightarrow> byte \<Rightarrow> EvalState \<Rightarrow> op_result" where
  "op_binary flags opcode st =
     (case stack st of x2 # x1 # s \<Rightarrow>
        with_num flags x1 nDefaultMaxNumSize (\<lambda>bn1.
        with_num flags x2 nDefaultMaxNumSize (\<lambda>bn2.
          do {
            bn \<leftarrow> binary_num opcode bn1 bn2;
            if opcode = OP_NUMEQUALVERIFY
            then if CastToBool (serialize bn) then success (st\<lparr>stack := s\<rparr>) else set_error SCRIPT_ERR_NUMEQUALVERIFY
            else success (st\<lparr>stack := serialize bn # s\<rparr>)
          }))
      | _ \<Rightarrow> bad_stack)"

definition op_within :: "u32 \<Rightarrow> EvalState \<Rightarrow> op_result" where
  "op_within flags st =
     (case stack st of x3 # x2 # x1 # s \<Rightarrow>
        with_num flags x1 nDefaultMaxNumSize (\<lambda>bn1.
        with_num flags x2 nDefaultMaxNumSize (\<lambda>bn2.
        with_num flags x3 nDefaultMaxNumSize (\<lambda>bn3.
          success (st\<lparr>stack := bool_vch (bn2 \<le> bn1 \<and> bn1 < bn3) # s\<rparr>))))
      | _ \<Rightarrow> bad_stack)"

section \<open>Crypto operations\<close>

text \<open>
  The hash objects start with uninitialised buffers; their content does not affect the digest, so
  the model fills them with zeros.
\<close>

definition hash_vch :: "byte \<Rightarrow> bytes \<Rightarrow> bytes option" where
  "hash_vch opcode vch =
     (let junk = replicate 64 0 in
      if opcode = OP_RIPEMD160
      then map_option snd (do { h \<leftarrow> CRIPEMD160_Write (CRIPEMD160 junk) vch; CRIPEMD160_Finalize h })
      else if opcode = OP_SHA1
      then map_option snd (do { h \<leftarrow> CSHA1_Write (CSHA1 junk) vch; CSHA1_Finalize h })
      else if opcode = OP_SHA256
      then map_option snd (do { h \<leftarrow> CSHA256_Write (CSHA256 junk) vch; CSHA256_Finalize h })
      else if opcode = OP_HASH160
      then map_option snd (do { h \<leftarrow> CHash160_Write (CSHA256 junk) vch; CHash160_Finalize junk h })
      else map_option snd (do { h \<leftarrow> CHash256_Write (CSHA256 junk) vch; CHash256_Finalize h }))"

definition op_hash_op :: "byte \<Rightarrow> EvalState \<Rightarrow> op_result" where
  "op_hash_op opcode st =
     (case stack st of [] \<Rightarrow> bad_stack
      | vch # s \<Rightarrow> do { vchHash \<leftarrow> hash_vch opcode vch; success (st\<lparr>stack := vchHash # s\<rparr>) })"

definition op_codeseparator :: "bytes \<Rightarrow> EvalState \<Rightarrow> op_result" where
  "op_codeseparator pc st = success (st\<lparr>pbegincodehash := pc\<rparr>)"

text \<open>The two encoding checks in the order of the condition.\<close>

definition check_encodings :: "u32 \<Rightarrow> SignatureChecker \<Rightarrow> bytes \<Rightarrow> bytes \<Rightarrow> unit result" where
  "check_encodings flags chk vchSig vchPubKey =
     ebind (CheckSignatureEncoding (CheckLowS chk) vchSig flags) (\<lambda>_. CheckPubKeyEncoding vchPubKey flags)"

definition op_checksig :: "u32 \<Rightarrow> SignatureChecker \<Rightarrow> byte \<Rightarrow> EvalState \<Rightarrow> op_result" where
  "op_checksig flags chk opcode st =
     (case stack st of vchPubKey # vchSig # s \<Rightarrow>
        let scriptCode = snd (FindAndDelete (pbegincodehash st) (push_data [] vchSig)) in
        ebind (check_encodings flags chk vchSig vchPubKey) (\<lambda>_.
          do {
            fSuccess \<leftarrow> CheckSig chk vchSig vchPubKey scriptCode;
            if opcode = OP_CHECKSIGVERIFY
            then if fSuccess then success (st\<lparr>stack := s\<rparr>) else set_error SCRIPT_ERR_CHECKSIGVERIFY
            else success (st\<lparr>stack := bool_vch fSuccess # s\<rparr>)
          })
      | _ \<Rightarrow> bad_stack)"

text \<open>
  The loop of \<^verbatim>\<open>OP_CHECKMULTISIG\<close> over the signatures and keys that are left, topmost first. Its
  condition stops it when no signature is left or more signatures than keys are.
\<close>

fun multisig_loop :: "u32 \<Rightarrow> SignatureChecker \<Rightarrow> bytes \<Rightarrow> bytes list \<Rightarrow> bytes list \<Rightarrow> bool result" where
  "multisig_loop flags chk scriptCode [] keys = success True"
| "multisig_loop flags chk scriptCode (sig # sigs) [] = success False"
| "multisig_loop flags chk scriptCode (sig # sigs) (key # keys) =
     (case check_encodings flags chk sig key of
        None \<Rightarrow> None
      | Some (Inl e) \<Rightarrow> set_error e
      | Some (Inr _) \<Rightarrow>
          (case CheckSig chk sig key scriptCode of None \<Rightarrow> None
           | Some fOk \<Rightarrow>
               let sigs' = (if fOk then sigs else sig # sigs) in
               if length sigs' > length keys then success False
               else multisig_loop flags chk scriptCode sigs' keys))"

definition multisig_finish :: "u32 \<Rightarrow> byte \<Rightarrow> nat \<Rightarrow> bool \<Rightarrow> EvalState \<Rightarrow> op_result" where
  "multisig_finish flags opcode i fSuccess st =
     (case drop (i - 1) (stack st) of [] \<Rightarrow> bad_stack
      | dummy # s \<Rightarrow>
          if flags AND SCRIPT_VERIFY_NULLDUMMY \<noteq> 0 \<and> dummy \<noteq> [] then set_error SCRIPT_ERR_SIG_NULLDUMMY
          else if opcode = OP_CHECKMULTISIGVERIFY
          then if fSuccess then success (st\<lparr>stack := s\<rparr>) else set_error SCRIPT_ERR_CHECKMULTISIGVERIFY
          else success (st\<lparr>stack := bool_vch fSuccess # s\<rparr>))"

definition op_checkmultisig :: "u32 \<Rightarrow> SignatureChecker \<Rightarrow> byte \<Rightarrow> EvalState \<Rightarrow> op_result" where
  "op_checkmultisig flags chk opcode st =
     (if length (stack st) < 1 then bad_stack
      else with_num flags (stack st ! 0) nDefaultMaxNumSize (\<lambda>bn.
        let nKeysCount = getint bn in
        if nKeysCount < 0 \<or> nKeysCount > int MAX_PUBKEYS_PER_MULTISIG then set_error SCRIPT_ERR_PUBKEY_COUNT
        else let st = st\<lparr>nOpCount := nOpCount st + nKeysCount\<rparr> in
          if nOpCount st > int MAX_OPS_PER_SCRIPT then set_error SCRIPT_ERR_OP_COUNT
          else let ikey = 2; i = 2 + nat nKeysCount in
            if length (stack st) < i then bad_stack
            else with_num flags (stack st ! (i - 1)) nDefaultMaxNumSize (\<lambda>bn.
              let nSigsCount = getint bn in
              if nSigsCount < 0 \<or> nSigsCount > nKeysCount then set_error SCRIPT_ERR_SIG_COUNT
              else let isig = i + 1; i = isig + nat nSigsCount in
                if length (stack st) < i then bad_stack
                else let sigs = take (nat nSigsCount) (drop (isig - 1) (stack st));
                         keys = take (nat nKeysCount) (drop (ikey - 1) (stack st));
                         scriptCode = fold (\<lambda>vchSig code. snd (FindAndDelete code (push_data [] vchSig))) sigs (pbegincodehash st)
                     in ebind (multisig_loop flags chk scriptCode sigs keys)
                          (\<lambda>fSuccess. multisig_finish flags opcode i fSuccess st))))"

section \<open>Dispatch and the main loop\<close>

definition disabled_opcodes :: "byte list" where
  "disabled_opcodes =
     [OP_CAT, OP_SUBSTR, OP_LEFT, OP_RIGHT, OP_INVERT, OP_AND, OP_OR, OP_XOR, OP_2MUL, OP_2DIV, OP_MUL, OP_DIV, OP_MOD,
      OP_LSHIFT, OP_RSHIFT]"

definition exec_op :: "u32 \<Rightarrow> SignatureChecker \<Rightarrow> bytes \<Rightarrow> bool \<Rightarrow> byte \<Rightarrow> EvalState \<Rightarrow> op_result" where
  "exec_op flags chk pc fExec opcode st =
     (if opcode = OP_1NEGATE \<or> OP_1 \<le> opcode \<and> opcode \<le> OP_16 then op_small_int opcode st
      else if opcode = OP_NOP then success st
      else if opcode = OP_CHECKLOCKTIMEVERIFY then op_checklocktimeverify flags chk st
      else if opcode = OP_CHECKSEQUENCEVERIFY then op_checksequenceverify flags chk st
      else if opcode \<in> {OP_NOP1, OP_NOP4, OP_NOP5, OP_NOP6, OP_NOP7, OP_NOP8, OP_NOP9, OP_NOP10} then op_nop_n flags st
      else if opcode = OP_IF \<or> opcode = OP_NOTIF then op_if opcode fExec st
      else if opcode = OP_ELSE then op_else st
      else if opcode = OP_ENDIF then op_endif st
      else if opcode = OP_VERIFY then op_verify st
      else if opcode = OP_RETURN then op_return st
      else if opcode = OP_TOALTSTACK then op_toaltstack st
      else if opcode = OP_FROMALTSTACK then op_fromaltstack st
      else if opcode = OP_2DROP then op_2drop st
      else if opcode = OP_2DUP then op_2dup st
      else if opcode = OP_3DUP then op_3dup st
      else if opcode = OP_2OVER then op_2over st
      else if opcode = OP_2ROT then op_2rot st
      else if opcode = OP_2SWAP then op_2swap st
      else if opcode = OP_IFDUP then op_ifdup st
      else if opcode = OP_DEPTH then op_depth st
      else if opcode = OP_DROP then op_drop st
      else if opcode = OP_DUP then op_dup st
      else if opcode = OP_NIP then op_nip st
      else if opcode = OP_OVER then op_over st
      else if opcode = OP_PICK \<or> opcode = OP_ROLL then op_pick_roll flags opcode st
      else if opcode = OP_ROT then op_rot st
      else if opcode = OP_SWAP then op_swap st
      else if opcode = OP_TUCK then op_tuck st
      else if opcode = OP_SIZE then op_size st
      else if opcode = OP_EQUAL \<or> opcode = OP_EQUALVERIFY then op_equal opcode st
      else if opcode \<in> {OP_1ADD, OP_1SUB, OP_NEGATE, OP_ABS, OP_NOT, OP_0NOTEQUAL} then op_unary flags opcode st
      else if opcode \<in> {OP_ADD, OP_SUB, OP_BOOLAND, OP_BOOLOR, OP_NUMEQUAL, OP_NUMEQUALVERIFY, OP_NUMNOTEQUAL,
                OP_LESSTHAN, OP_GREATERTHAN, OP_LESSTHANOREQUAL, OP_GREATERTHANOREQUAL, OP_MIN, OP_MAX}
      then op_binary flags opcode st
      else if opcode = OP_WITHIN then op_within flags st
      else if opcode \<in> {OP_RIPEMD160, OP_SHA1, OP_SHA256, OP_HASH160, OP_HASH256} then op_hash_op opcode st
      else if opcode = OP_CODESEPARATOR then op_codeseparator pc st
      else if opcode = OP_CHECKSIG \<or> opcode = OP_CHECKSIGVERIFY then op_checksig flags chk opcode st
      else if opcode = OP_CHECKMULTISIG \<or> opcode = OP_CHECKMULTISIGVERIFY then op_checkmultisig flags chk opcode st
      else set_error SCRIPT_ERR_BAD_OPCODE)"

text \<open>One round of the loop, after \<^verbatim>\<open>GetOp\<close> has read \<open>opcode\<close> and \<open>vchPushValue\<close> and moved on to \<open>pc\<close>.\<close>

definition EvalScript_step :: "u32 \<Rightarrow> SignatureChecker \<Rightarrow> bytes \<Rightarrow> byte \<Rightarrow> bytes \<Rightarrow> EvalState \<Rightarrow> op_result" where
  "EvalScript_step flags chk pc opcode vchPushValue st =
     (let fExec = (False \<notin> set (vfExec st)) in
      if length vchPushValue > MAX_SCRIPT_ELEMENT_SIZE then set_error SCRIPT_ERR_PUSH_SIZE
      else let st = (if opcode > OP_16 then st\<lparr>nOpCount := nOpCount st + 1\<rparr> else st) in
        if opcode > OP_16 \<and> nOpCount st > int MAX_OPS_PER_SCRIPT then set_error SCRIPT_ERR_OP_COUNT
        else if opcode \<in> set disabled_opcodes then set_error SCRIPT_ERR_DISABLED_OPCODE
        else ebind
          (if fExec \<and> opcode \<le> OP_PUSHDATA4 then op_push_value flags opcode vchPushValue st
           else if fExec \<or> OP_IF \<le> opcode \<and> opcode \<le> OP_ENDIF then exec_op flags chk pc fExec opcode st
           else success st)
          (\<lambda>st. if length (stack st) + length (altstack st) > 1000 then set_error SCRIPT_ERR_STACK_SIZE
                else success st))"

function EvalScript_loop :: "u32 \<Rightarrow> SignatureChecker \<Rightarrow> bytes \<Rightarrow> EvalState \<Rightarrow> op_result" where
  "EvalScript_loop flags chk pc st =
     (if pc = [] then success st
      else case GetOp2 pc of None \<Rightarrow> set_error SCRIPT_ERR_BAD_OPCODE
        | Some (opcode, vchPushValue, pc') \<Rightarrow>
            (case EvalScript_step flags chk pc' opcode vchPushValue st of
               None \<Rightarrow> None
             | Some (Inl e) \<Rightarrow> set_error e
             | Some (Inr st') \<Rightarrow> EvalScript_loop flags chk pc' st'))"
  by pat_completeness auto
termination
  by (relation "measure (\<lambda>(flags, chk, pc, st). length pc)") (auto simp: GetOp2_shorter)

declare EvalScript_loop.simps [simp del]

definition init_state :: "bytes list \<Rightarrow> bytes \<Rightarrow> EvalState" where
  "init_state stk script = \<lparr>stack = stk, altstack = [], vfExec = [], nOpCount = 0, pbegincodehash = script\<rparr>"

definition EvalScript :: "bytes list \<Rightarrow> bytes \<Rightarrow> u32 \<Rightarrow> SignatureChecker \<Rightarrow> bytes list result" where
  "EvalScript stk script flags chk =
     (if length script > 10000 then set_error SCRIPT_ERR_SCRIPT_SIZE
      else ebind
        (EvalScript_loop flags chk script (init_state stk script))
        (\<lambda>st. if vfExec st \<noteq> [] then set_error SCRIPT_ERR_UNBALANCED_CONDITIONAL else success (stack st)))"

section \<open>The machine does not fault and keeps its limits\<close>

text \<open>
  The invariant of the operations on the script \<open>sc\<close>: stack elements have at most 520 bytes, the operation
  count is at most 201 and the code that signatures sign is a part of the script up to its end.
  Between two rounds of the loop the two stacks also have at most 1000 elements together.
\<close>

definition op_inv :: "bytes \<Rightarrow> EvalState \<Rightarrow> bool" where
  "op_inv sc st \<longleftrightarrow> (\<forall>x \<in> set (stack st) \<union> set (altstack st). length x \<le> MAX_SCRIPT_ELEMENT_SIZE) \<and>
     0 \<le> nOpCount st \<and> nOpCount st \<le> int MAX_OPS_PER_SCRIPT \<and> suffix (pbegincodehash st) sc"

definition state_inv :: "bytes \<Rightarrow> EvalState \<Rightarrow> bool" where
  "state_inv sc st \<longleftrightarrow> op_inv sc st \<and> length (stack st) + length (altstack st) \<le> 1000"

text \<open>A checker that does not fault.\<close>

definition safe_checker :: "SignatureChecker \<Rightarrow> bool" where
  "safe_checker chk \<longleftrightarrow> (\<forall>sig key code. CheckSig chk sig key code \<noteq> None) \<and> (\<forall>n. CheckLockTime chk n \<noteq> None) \<and>
     (\<forall>n. CheckSequence chk n \<noteq> None) \<and> (\<forall>sig. CheckLowS chk sig \<noteq> None)"

named_theorems op_ok \<open>every operation keeps the invariant\<close>

lemma bool_vch_length [simp]: "length (bool_vch b) \<le> MAX_SCRIPT_ELEMENT_SIZE"
  by (simp add: bool_vch_def vchTrue_def vchFalse_def MAX_SCRIPT_ELEMENT_SIZE_def)

lemma serialize_small: "\<bar>v\<bar> < 2 ^ 39 \<Longrightarrow> length (serialize v) \<le> MAX_SCRIPT_ELEMENT_SIZE"
  using length_serialize [of v 5] by (simp add: MAX_SCRIPT_ELEMENT_SIZE_def)

lemma CScriptNum_bound:
  assumes "CScriptNum v m k = Inr n" "k \<le> 8"
  shows "\<bar>n\<bar> < 2 ^ (8 * k - 1)"
  using assms abs_set_vch_lt [of v k] by (auto simp: CScriptNum_def split: if_splits)

lemma with_num_eok:
  assumes "\<And>n. \<bar>n\<bar> < 2 ^ (8 * k - 1) \<Longrightarrow> eok P (f n)" "k \<le> 8"
  shows "eok P (with_num flags v k f)"
  using assms CScriptNum_bound [of v] by (auto simp: with_num_def split: sum.split)

lemma eok_bind: "m \<noteq> None \<Longrightarrow> (\<And>x. m = Some x \<Longrightarrow> eok P (f x)) \<Longrightarrow> eok P (Option.bind m f)"
  by (cases m) auto

lemmas with_num4 = with_num_eok [where k = nDefaultMaxNumSize, unfolded nDefaultMaxNumSize_def, simplified, folded nDefaultMaxNumSize_def]

lemma stack_ops_ok [op_ok]:
  assumes "op_inv sc st"
  shows "eok (op_inv sc) (op_toaltstack st)" "eok (op_inv sc) (op_fromaltstack st)" "eok (op_inv sc) (op_2drop st)" "eok (op_inv sc) (op_2dup st)"
    "eok (op_inv sc) (op_3dup st)" "eok (op_inv sc) (op_2over st)" "eok (op_inv sc) (op_2rot st)" "eok (op_inv sc) (op_2swap st)"
    "eok (op_inv sc) (op_ifdup st)" "eok (op_inv sc) (op_drop st)" "eok (op_inv sc) (op_dup st)" "eok (op_inv sc) (op_nip st)"
    "eok (op_inv sc) (op_over st)" "eok (op_inv sc) (op_rot st)" "eok (op_inv sc) (op_swap st)" "eok (op_inv sc) (op_tuck st)"
    "eok (op_inv sc) (op_equal opcode st)"
  unfolding op_toaltstack_def op_fromaltstack_def op_2drop_def op_2dup_def op_3dup_def op_2over_def op_2rot_def op_2swap_def
    op_ifdup_def op_drop_def op_dup_def op_nip_def op_over_def op_rot_def op_swap_def op_tuck_def op_equal_def Let_def
  using assms by (auto simp: op_inv_def split: list.split)

lemma control_ops_ok [op_ok]:
  assumes "op_inv sc st"
  shows "eok (op_inv sc) (op_nop_n flags st)" "eok (op_inv sc) (op_if opcode fExec st)" "eok (op_inv sc) (op_else st)" "eok (op_inv sc) (op_endif st)"
    "eok (op_inv sc) (op_verify st)" "eok (op_inv sc) (op_return st)"
  unfolding op_nop_n_def op_if_def op_else_def op_endif_def op_verify_def op_return_def Let_def
  using assms by (auto simp: op_inv_def split: list.split)

lemma codeseparator_ok [op_ok]: "op_inv sc st \<Longrightarrow> suffix pc sc \<Longrightarrow> eok (op_inv sc) (op_codeseparator pc st)"
  by (simp add: op_codeseparator_def op_inv_def)

lemma locktime_ops_ok [op_ok]:
  assumes "op_inv sc st" "safe_checker chk"
  shows "eok (op_inv sc) (op_checklocktimeverify flags chk st)" "eok (op_inv sc) (op_checksequenceverify flags chk st)"
  unfolding op_checklocktimeverify_def op_checksequenceverify_def
  using assms by (auto simp: safe_checker_def split: list.split intro!: with_num_eok eok_bind)

lemma small_int_ok [op_ok]:
  assumes "op_inv sc st"
  shows "eok (op_inv sc) (op_small_int opcode st)"
proof -
  have "0 \<le> uint opcode" "uint opcode < 256" using uint_lt2p [of opcode] by simp_all
  moreover have "0 \<le> u \<Longrightarrow> u < 256 \<Longrightarrow> \<bar>u - 80\<bar> < 2 ^ 39" for u :: int by (simp add: abs_less_iff)
  ultimately have "\<bar>uint opcode - (uint OP_1 - 1)\<bar> < 2 ^ 39" by simp
  then show ?thesis using assms serialize_small by (simp add: op_small_int_def op_inv_def)
qed

lemma push_value_ok [op_ok]:
  "op_inv sc st \<Longrightarrow> length v \<le> MAX_SCRIPT_ELEMENT_SIZE \<Longrightarrow> eok (op_inv sc) (op_push_value flags opcode v st)"
  by (simp add: op_push_value_def op_inv_def)

lemma size_ops_ok [op_ok]:
  assumes "op_inv sc st" "length (stack st) \<le> 1000"
  shows "eok (op_inv sc) (op_depth st)" "eok (op_inv sc) (op_size st)"
proof -
  have "\<bar>int (length (stack st))\<bar> < 2 ^ 39" using assms(2) by simp
  then show "eok (op_inv sc) (op_depth st)" using assms(1) serialize_small by (simp add: op_depth_def op_inv_def)
  have "\<bar>int (length x)\<bar> < 2 ^ 39" if "stack st = x # s" for x s
    using assms(1) that by (simp add: op_inv_def MAX_SCRIPT_ELEMENT_SIZE_def)
  then show "eok (op_inv sc) (op_size st)" using assms(1) serialize_small by (auto simp: op_size_def op_inv_def split: list.split)
qed

lemma pick_roll_ok [op_ok]:
  assumes "op_inv sc st"
  shows "eok (op_inv sc) (op_pick_roll flags opcode st)"
proof -
  have "eok (op_inv sc)
      (let n = getint bn; s = y # s' in
       if n < 0 \<or> n \<ge> int (length s) then bad_stack
       else let vch = s ! nat n; s = (if opcode = OP_ROLL then take (nat n) s @ drop (Suc (nat n)) s else s)
            in success (st\<lparr>stack := vch # s\<rparr>))" if "stack st = x # y # s'" for x y s' bn
  proof -
    have "length ((y # s') ! nat (getint bn)) \<le> MAX_SCRIPT_ELEMENT_SIZE" if "nat (getint bn) < length (y # s')"
      using assms nth_mem [OF that] \<open>stack st = x # y # s'\<close> unfolding op_inv_def by auto
    then show ?thesis
      using assms that set_take_subset [of "nat (getint bn)" "y # s'"] set_drop_subset [of "Suc (nat (getint bn))" "y # s'"]
      by (auto simp: op_inv_def Let_def)
  qed
  then show ?thesis unfolding op_pick_roll_def
    by (auto simp del: Let_def split: list.split intro!: with_num_eok simp: nDefaultMaxNumSize_def)
qed

lemma unary_num_bound: "\<bar>bn\<bar> < 2 ^ 31 \<Longrightarrow> opcode \<in> {OP_1ADD, OP_1SUB, OP_NEGATE, OP_ABS, OP_NOT, OP_0NOTEQUAL} \<Longrightarrow>
    \<exists>r. unary_num opcode bn = Some r \<and> \<bar>r\<bar> < 2 ^ 39"
  unfolding unary_num_def by (auto simp: scriptnum_add_def scriptnum_sub_def scriptnum_neg_def int64_max_def int64_min_def)

lemma unary_ok [op_ok]:
  assumes "op_inv sc st" "opcode \<in> {OP_1ADD, OP_1SUB, OP_NEGATE, OP_ABS, OP_NOT, OP_0NOTEQUAL}"
  shows "eok (op_inv sc) (op_unary flags opcode st)"
proof (cases "stack st")
  case (Cons x s)
  have "eok (op_inv sc) (do { bn \<leftarrow> unary_num opcode n; success (st\<lparr>stack := serialize bn # s\<rparr>) })" if "\<bar>n\<bar> < 2 ^ 31" for n
    using unary_num_bound [OF that assms(2)] serialize_small assms(1) Cons by (auto simp: op_inv_def)
  then show ?thesis using Cons by (simp add: op_unary_def) (intro with_num4, simp)
qed (simp add: op_unary_def)

lemma binary_num_bound:
  assumes "\<bar>a\<bar> < 2 ^ 31" "\<bar>b\<bar> < 2 ^ 31"
    and "opcode \<in> {OP_ADD, OP_SUB, OP_BOOLAND, OP_BOOLOR, OP_NUMEQUAL, OP_NUMEQUALVERIFY, OP_NUMNOTEQUAL,
      OP_LESSTHAN, OP_GREATERTHAN, OP_LESSTHANOREQUAL, OP_GREATERTHANOREQUAL, OP_MIN, OP_MAX}"
  shows "\<exists>r. binary_num opcode a b = Some r \<and> \<bar>r\<bar> < 2 ^ 39"
proof -
  have r: "\<bar>a + b\<bar> < 2 ^ 39" "\<bar>a - b\<bar> < 2 ^ 39" "\<bar>a\<bar> < 2 ^ 39" "\<bar>b\<bar> < 2 ^ 39" "\<bar>of_bool c :: int\<bar> < 2 ^ 39" for c
    using assms(1,2) by (simp_all add: abs_less_iff)
  have i: "int64 (a + b) = Some (a + b)" "int64 (a - b) = Some (a - b)"
    using assms(1,2) by (simp_all add: int64_def int64_max_def int64_min_def abs_less_iff)
  show ?thesis using assms(3) unfolding binary_num_def by (elim insertE emptyE) (simp_all add: r i del: power_numeral)
qed

lemma binary_ok [op_ok]:
  assumes "op_inv sc st"
    and op: "opcode \<in> {OP_ADD, OP_SUB, OP_BOOLAND, OP_BOOLOR, OP_NUMEQUAL, OP_NUMEQUALVERIFY, OP_NUMNOTEQUAL,
      OP_LESSTHAN, OP_GREATERTHAN, OP_LESSTHANOREQUAL, OP_GREATERTHANOREQUAL, OP_MIN, OP_MAX}"
  shows "eok (op_inv sc) (op_binary flags opcode st)"
proof -
  have "eok (op_inv sc) (do { bn \<leftarrow> binary_num opcode a b;
      if opcode = OP_NUMEQUALVERIFY
      then if CastToBool (serialize bn) then success (st\<lparr>stack := s\<rparr>) else set_error SCRIPT_ERR_NUMEQUALVERIFY
      else success (st\<lparr>stack := serialize bn # s\<rparr>) })"
    if "stack st = x2 # x1 # s" "\<bar>a\<bar> < 2 ^ 31" "\<bar>b\<bar> < 2 ^ 31" for x1 x2 s a b
    using binary_num_bound [OF that(2,3) op] serialize_small assms(1) that(1) by (auto simp: op_inv_def)
  then show ?thesis unfolding op_binary_def
    by (auto split: list.split intro!: with_num4)
qed

lemma within_ok [op_ok]:
  assumes "op_inv sc st"
  shows "eok (op_inv sc) (op_within flags st)"
  using assms unfolding op_within_def by (auto split: list.split intro!: with_num4 simp: op_inv_def)

lemma hash_vch_spec:
  "hash_vch opcode v = Some (if opcode = OP_RIPEMD160 then rmd160 v else if opcode = OP_SHA1 then fips_sha1 v
     else if opcode = OP_SHA256 then fips_sha256 v else if opcode = OP_HASH160 then rmd160 (fips_sha256 v)
     else fips_sha256 (fips_sha256 v))"
proof -
  let ?j = "replicate 64 (0 :: byte)"
  have "map_option snd (do { h \<leftarrow> CHash160_Write (CSHA256 ?j) v; CHash160_Finalize ?j h }) = Some (rmd160 (fips_sha256 v))"
    using Hash160_spec [of ?j ?j v] by (auto simp: Hash160_def bind_Some_iff)
  then show ?thesis
    using rmd160d.digest_one [OF CRIPEMD160_represents, of ?j v] sha1d.digest_one [OF CSHA1_represents, of ?j v]
      sha256d.digest_one [OF CSHA256_represents, of ?j v] hash256.digest_one [OF CSHA256_represents, of ?j v]
    by (auto simp: hash_vch_def)
qed

lemma hash_op_ok [op_ok]: "op_inv sc st \<Longrightarrow> eok (op_inv sc) (op_hash_op opcode st)"
  by (auto simp: op_hash_op_def hash_vch_spec op_inv_def MAX_SCRIPT_ELEMENT_SIZE_def length_rmd160 length_fips_sha1
      length_fips_sha256 split: list.split)

lemma check_encodings_ok: "safe_checker chk \<Longrightarrow> eok (\<lambda>_. True) (check_encodings flags chk sig key)"
  unfolding check_encodings_def CheckSignatureEncoding_def CheckPubKeyEncoding_def IsLowDERSignature_def Let_def
  by (auto simp: safe_checker_def intro!: eok_bind eok_ebind [where P = "\<lambda>_. True"])

lemma checksig_ok [op_ok]:
  assumes "op_inv sc st" "safe_checker chk"
  shows "eok (op_inv sc) (op_checksig flags chk opcode st)"
  using assms unfolding op_checksig_def Let_def
  by (auto split: list.split intro!: eok_ebind [OF check_encodings_ok] eok_bind simp: op_inv_def safe_checker_def)

lemma multisig_loop_ok: "safe_checker chk \<Longrightarrow> eok (\<lambda>_. True) (multisig_loop flags chk code sigs keys)"
proof (induction flags chk code sigs keys rule: multisig_loop.induct)
  case (3 flags chk code sig sigs key keys)
  have "CheckSig chk sig key code \<noteq> None" using 3(2) by (simp add: safe_checker_def)
  then obtain b where b: "CheckSig chk sig key code = Some b" by blast
  show ?case
    using check_encodings_ok [OF 3(2), of flags sig key] 3 b
    by (cases "check_encodings flags chk sig key" rule: ebind_cases) (auto simp: Let_def)
qed auto

lemma multisig_finish_ok: "op_inv sc st \<Longrightarrow> eok (op_inv sc) (multisig_finish flags opcode i b st)"
proof -
  assume st: "op_inv sc st"
  have "\<forall>x \<in> set s. length x \<le> MAX_SCRIPT_ELEMENT_SIZE" if "drop (i - 1) (stack st) = d # s" for d s
    using st set_drop_subset [of "i - 1" "stack st"] that by (auto simp: op_inv_def)
  with st show ?thesis unfolding multisig_finish_def by (auto simp: op_inv_def split: list.split)
qed

lemma checkmultisig_ok [op_ok]:
  assumes "op_inv sc st" "safe_checker chk"
  shows "eok (op_inv sc) (op_checkmultisig flags chk opcode st)"
proof -
  have "op_inv sc (st\<lparr>nOpCount := nOpCount st + k\<rparr>)" if "0 \<le> k" "nOpCount st + k \<le> int MAX_OPS_PER_SCRIPT" for k
    using assms(1) that by (simp add: op_inv_def)
  then show ?thesis
    unfolding op_checkmultisig_def Let_def
    by (auto intro!: with_num4 eok_ebind [OF multisig_loop_ok [OF assms(2)]] multisig_finish_ok simp: not_less)
qed

lemma eok_if: "(c \<Longrightarrow> eok P a) \<Longrightarrow> (\<not> c \<Longrightarrow> eok P b) \<Longrightarrow> eok P (if c then a else b)"
  by simp

lemma exec_op_ok:
  assumes "op_inv sc st" "length (stack st) \<le> 1000" "safe_checker chk" "suffix pc sc"
  shows "eok (op_inv sc) (exec_op flags chk pc fExec opcode st)"
  unfolding exec_op_def
  by (rule eok_if | (rule op_ok; (rule assms | assumption)) | (simp add: assms; fail))+

lemma step_ok:
  assumes "state_inv sc st" "safe_checker chk" "suffix pc sc"
  shows "eok (state_inv sc) (EvalScript_step flags chk pc opcode v st)"
proof -
  let ?st = "if opcode > OP_16 then st\<lparr>nOpCount := nOpCount st + 1\<rparr> else st"
  have st: "op_inv sc ?st" "length (stack ?st) \<le> 1000" if "\<not> (opcode > OP_16 \<and> nOpCount ?st > int MAX_OPS_PER_SCRIPT)"
    using assms(1) that by (auto simp: state_inv_def op_inv_def)
  have run: "eok (op_inv sc)
      (if False \<notin> set (vfExec st) \<and> opcode \<le> OP_PUSHDATA4 then op_push_value flags opcode v ?st
       else if False \<notin> set (vfExec st) \<or> OP_IF \<le> opcode \<and> opcode \<le> OP_ENDIF
       then exec_op flags chk pc (False \<notin> set (vfExec st)) opcode ?st
       else success ?st)"
    if "length v \<le> MAX_SCRIPT_ELEMENT_SIZE" "\<not> (opcode > OP_16 \<and> nOpCount ?st > int MAX_OPS_PER_SCRIPT)"
    by (intro eok_if push_value_ok exec_op_ok st that assms(2,3)) (simp only: eok_simps st(1) [OF that(2)])
  show ?thesis
    unfolding EvalScript_step_def Let_def
    by (intro eok_if eok_ebind [OF run]) (simp_all add: state_inv_def not_less)
qed

section \<open>Runs of the machine\<close>

text \<open>One round of the loop as a step between the remaining scripts and states, and the states a script reaches.\<close>

inductive script_step :: "u32 \<Rightarrow> SignatureChecker \<Rightarrow> bytes \<times> EvalState \<Rightarrow> bytes \<times> EvalState \<Rightarrow> bool" for flags chk where
  step: "GetOp2 pc = Some (opcode, v, pc') \<Longrightarrow> EvalScript_step flags chk pc' opcode v st = success st' \<Longrightarrow>
    script_step flags chk (pc, st) (pc', st')"

inductive_cases script_stepE: "script_step flags chk (pc, st) c"
inductive_simps script_step_simps: "script_step flags chk (pc, st) (pc', st')"

lemma loop_runs:
  "EvalScript_loop flags chk pc st = success st' \<longleftrightarrow> (script_step flags chk)\<^sup>*\<^sup>* (pc, st) ([], st')"
proof
  assume "EvalScript_loop flags chk pc st = success st'"
  then show "(script_step flags chk)\<^sup>*\<^sup>* (pc, st) ([], st')"
  proof (induction flags chk pc st rule: EvalScript_loop.induct)
    case (1 flags chk pc st)
    show ?case
    proof (cases "pc = []")
      case True
      then show ?thesis using 1(2) by (simp add: EvalScript_loop.simps)
    next
      case False
      then obtain opcode v pc' st1 where g: "GetOp2 pc = Some (opcode, v, pc')"
        and s: "EvalScript_step flags chk pc' opcode v st = success st1" and l: "EvalScript_loop flags chk pc' st1 = success st'"
        using 1(2) by (subst (asm) EvalScript_loop.simps) (auto split: option.splits sum.splits)
      have "(script_step flags chk)\<^sup>*\<^sup>* (pc', st1) ([], st')" using 1(1) [OF False g refl refl s refl l] .
      with step [OF g s] show ?thesis by (rule converse_rtranclp_into_rtranclp)
    qed
  qed
next
  assume "(script_step flags chk)\<^sup>*\<^sup>* (pc, st) ([], st')"
  then show "EvalScript_loop flags chk pc st = success st'"
  proof (induction "(pc, st)" arbitrary: pc st rule: converse_rtranclp_induct)
    case base
    then show ?case by (simp add: EvalScript_loop.simps)
  next
    case (step c)
    obtain opcode v pc1 st1 where "GetOp2 pc = Some (opcode, v, pc1)" "c = (pc1, st1)"
      "EvalScript_step flags chk pc1 opcode v st = success st1"
      using step(1) by (auto elim!: script_stepE)
    then show ?case using step(3) by (subst EvalScript_loop.simps) (auto split: list.splits)
  qed
qed

lemma GetOp2_suffix: "GetOp2 pc = Some (opcode, v, pc') \<Longrightarrow> suffix pc' pc"
proof (cases pc)
  case (Cons c r)
  assume "GetOp2 pc = Some (opcode, v, pc')"
  then show ?thesis using Cons
    by (auto simp: GetOp2_size_def suffix_drop intro!: suffix_ConsI split: if_splits option.splits)
qed simp

lemma reachable_inv:
  assumes "(script_step flags chk)\<^sup>*\<^sup>* (pc, st) (pc', st')" "safe_checker chk" "state_inv sc st" "suffix pc sc"
  shows "state_inv sc st' \<and> suffix pc' sc"
  using assms(1)
proof (induction "(pc', st')" arbitrary: pc' st' rule: rtranclp_induct)
  case base
  then show ?case using assms by simp
next
  case (step c)
  obtain pc1 st1 where c: "c = (pc1, st1)" by (rule prod.exhaust)
  have ih: "state_inv sc st1" "suffix pc1 sc" using step(3) [OF c] by simp_all
  obtain opcode v where g: "GetOp2 pc1 = Some (opcode, v, pc')"
    and s: "EvalScript_step flags chk pc' opcode v st1 = success st'"
    using step(2) unfolding c script_step_simps by blast
  have "suffix pc' sc" using GetOp2_suffix [OF g] ih(2) by (rule suffix_order.trans)
  then show ?case using eok_Inr [OF step_ok [OF ih(1) assms(2)] s] by simp
qed

lemma loop_ok:
  assumes "safe_checker chk"
  shows "state_inv sc st \<Longrightarrow> suffix pc sc \<Longrightarrow> eok (state_inv sc) (EvalScript_loop flags chk pc st)"
proof (induction "length pc" arbitrary: pc st rule: less_induct)
  case less
  show ?case
  proof (cases "pc = [] \<or> GetOp2 pc = None")
    case True
    then show ?thesis using less(2) by (subst EvalScript_loop.simps) (auto simp: eok_def)
  next
    case False
    then obtain opcode v pc' where g: "GetOp2 pc = Some (opcode, v, pc')" by auto
    have s: "suffix pc' sc" using GetOp2_suffix [OF g] less(3) by (rule suffix_order.trans)
    have "eok (state_inv sc) (ebind (EvalScript_step flags chk pc' opcode v st) (EvalScript_loop flags chk pc'))"
      using step_ok [OF less(2) assms s] less(1) [OF GetOp2_shorter [OF g] _ s] by (rule eok_ebind)
    then show ?thesis using False g by (subst EvalScript_loop.simps) (simp add: ebind_def)
  qed
qed

text \<open>A stack within the limits, which is what a script starts from and leaves.\<close>

definition stack_ok :: "bytes list \<Rightarrow> bool" where
  "stack_ok stk \<longleftrightarrow> length stk \<le> 1000 \<and> (\<forall>x \<in> set stk. length x \<le> MAX_SCRIPT_ELEMENT_SIZE)"

lemma EvalScript_ok: "safe_checker chk \<Longrightarrow> stack_ok stk \<Longrightarrow> eok stack_ok (EvalScript stk script flags chk)"
proof -
  assume c: "safe_checker chk" and "stack_ok stk"
  then have "state_inv script (init_state stk script)" by (simp add: stack_ok_def state_inv_def op_inv_def init_state_def)
  then have "eok (state_inv script) (EvalScript_loop flags chk script (init_state stk script))" by (rule loop_ok [OF c]) simp
  then show ?thesis unfolding EvalScript_def
    by (intro eok_if eok_ebind [where P = "state_inv script"]) (auto simp: stack_ok_def state_inv_def op_inv_def)
qed

section \<open>What a successful script looks like\<close>

text \<open>\<open>ret_with P m\<close>: a value that the computation returns satisfies \<open>P\<close>.\<close>

definition ret_with :: "('a \<Rightarrow> bool) \<Rightarrow> 'a result \<Rightarrow> bool" where
  "ret_with P m \<longleftrightarrow> (\<forall>x. m = success x \<longrightarrow> P x)"

named_theorems ret

lemma ret_with_simps [simp]: "ret_with P None" "ret_with P (set_error e)" "ret_with P (success x) \<longleftrightarrow> P x"
  by (simp_all add: ret_with_def)

lemma ret_with_ebind: "(\<And>x. ret_with P (f x)) \<Longrightarrow> ret_with P (ebind m f)"
  by (cases m rule: ebind_cases) simp_all

lemma ret_with_bind: "(\<And>x. ret_with P (f x)) \<Longrightarrow> ret_with P (Option.bind m f)"
  by (cases m) simp_all

lemma ret_with_num: "(\<And>n. ret_with P (f n)) \<Longrightarrow> ret_with P (with_num flags vch k f)"
  by (simp add: with_num_def split: sum.split)

lemma ret_with_if: "(c \<Longrightarrow> ret_with P a) \<Longrightarrow> (\<not> c \<Longrightarrow> ret_with P b) \<Longrightarrow> ret_with P (if c then a else b)"
  by simp

lemmas ret_with_intros = ret_with_ebind ret_with_bind ret_with_num

text \<open>Only the conditionals change the nesting, and no operation lowers the operation count or moves it past its limit.\<close>

definition keeps_nesting :: "EvalState \<Rightarrow> EvalState \<Rightarrow> bool" where
  "keeps_nesting st st' \<longleftrightarrow>
     vfExec st' = vfExec st \<and> nOpCount st \<le> nOpCount st' \<and> nOpCount st' \<le> max (nOpCount st) (int MAX_OPS_PER_SCRIPT)"

lemma stack_ops_ret [ret]:
  "ret_with (keeps_nesting st) (op_toaltstack st)" "ret_with (keeps_nesting st) (op_fromaltstack st)"
  "ret_with (keeps_nesting st) (op_2drop st)" "ret_with (keeps_nesting st) (op_2dup st)" "ret_with (keeps_nesting st) (op_3dup st)"
  "ret_with (keeps_nesting st) (op_2over st)" "ret_with (keeps_nesting st) (op_2rot st)" "ret_with (keeps_nesting st) (op_2swap st)"
  "ret_with (keeps_nesting st) (op_ifdup st)" "ret_with (keeps_nesting st) (op_drop st)" "ret_with (keeps_nesting st) (op_dup st)"
  "ret_with (keeps_nesting st) (op_nip st)" "ret_with (keeps_nesting st) (op_over st)" "ret_with (keeps_nesting st) (op_rot st)"
  "ret_with (keeps_nesting st) (op_swap st)" "ret_with (keeps_nesting st) (op_tuck st)" "ret_with (keeps_nesting st) (op_size st)"
  "ret_with (keeps_nesting st) (op_equal opcode st)" "ret_with (keeps_nesting st) (op_verify st)"
  "ret_with (keeps_nesting st) (op_depth st)" "ret_with (keeps_nesting st) (op_small_int opcode st)"
  unfolding op_toaltstack_def op_fromaltstack_def op_2drop_def op_2dup_def op_3dup_def op_2over_def op_2rot_def op_2swap_def
    op_ifdup_def op_drop_def op_dup_def op_nip_def op_over_def op_rot_def op_swap_def op_tuck_def op_size_def op_equal_def
    op_verify_def op_depth_def op_small_int_def
  by (simp_all add: keeps_nesting_def Let_def split: list.split)

lemma num_ops_ret [ret]:
  "ret_with (keeps_nesting st) (op_pick_roll flags opcode st)" "ret_with (keeps_nesting st) (op_unary flags opcode st)"
  "ret_with (keeps_nesting st) (op_binary flags opcode st)" "ret_with (keeps_nesting st) (op_within flags st)"
  "ret_with (keeps_nesting st) (op_hash_op opcode st)" "ret_with (keeps_nesting st) (op_codeseparator pc st)"
  "ret_with (keeps_nesting st) (op_checksig flags chk opcode st)" "ret_with (keeps_nesting st) (op_push_value flags opcode v st)"
  "ret_with (keeps_nesting st) (op_checklocktimeverify flags chk st)" "ret_with (keeps_nesting st) (op_nop_n flags st)"
  "ret_with (keeps_nesting st) (op_checksequenceverify flags chk st)" "ret_with (keeps_nesting st) (op_return st)"
  unfolding op_pick_roll_def op_unary_def op_binary_def op_within_def op_hash_op_def op_codeseparator_def op_checksig_def
    op_push_value_def op_checklocktimeverify_def op_nop_n_def op_checksequenceverify_def op_return_def
  by (auto simp: keeps_nesting_def Let_def split: list.split intro!: ret_with_intros)

lemma multisig_ret [ret]: "ret_with (keeps_nesting st) (op_checkmultisig flags chk opcode st)"
  unfolding op_checkmultisig_def multisig_finish_def
  by (auto simp: keeps_nesting_def Let_def split: list.split intro!: ret_with_intros)

text \<open>The change of the nesting depth by an opcode.\<close>

definition nesting :: "byte \<Rightarrow> int" where
  "nesting opcode = (if opcode = OP_IF \<or> opcode = OP_NOTIF then 1 else if opcode = OP_ENDIF then - 1 else 0)"

definition nests :: "byte \<Rightarrow> EvalState \<Rightarrow> EvalState \<Rightarrow> bool" where
  "nests opcode st st' \<longleftrightarrow> int (length (vfExec st')) = int (length (vfExec st)) + nesting opcode \<and>
     nOpCount st \<le> nOpCount st' \<and> nOpCount st' \<le> max (nOpCount st) (int MAX_OPS_PER_SCRIPT)"

lemma nests_keeps: "ret_with (keeps_nesting st) m \<Longrightarrow> nesting opcode = 0 \<Longrightarrow> ret_with (nests opcode st) m"
  by (auto simp: ret_with_def nests_def keeps_nesting_def)

lemma conditionals_ret:
  "nesting opcode = 1 \<Longrightarrow> ret_with (nests opcode st) (op_if opcode fExec st)"
  "nesting opcode = 0 \<Longrightarrow> ret_with (nests opcode st) (op_else st)"
  "nesting opcode = - 1 \<Longrightarrow> ret_with (nests opcode st) (op_endif st)"
  "nesting opcode = 0 \<Longrightarrow> ret_with (nests opcode st) (success st)"
  unfolding op_if_def op_else_def op_endif_def
  by (auto simp: nests_def Let_def split: list.split)

lemma exec_op_nests: "ret_with (nests opcode st) (exec_op flags chk pc fExec opcode st)"
  unfolding exec_op_def
  by (rule ret_with_if | (rule nests_keeps, rule ret, (auto simp: nesting_def; fail)) |
      (rule conditionals_ret, (simp add: nesting_def; fail)) | (simp; fail))+


text \<open>The instructions of a script, or \<open>None\<close> where \<^verbatim>\<open>GetOp\<close> fails.\<close>

function instructions :: "bytes \<Rightarrow> (byte \<times> bytes) list option" where
  "instructions pc =
     (if pc = [] then Some []
      else case GetOp2 pc of None \<Rightarrow> None | Some (opcode, v, pc') \<Rightarrow> map_option ((#) (opcode, v)) (instructions pc'))"
  by pat_completeness auto
termination
  by (relation "measure length") (auto simp: GetOp2_shorter)

declare instructions.simps [simp del]

definition counted_ops :: "(byte \<times> bytes) list \<Rightarrow> nat" where
  "counted_ops ops = length (filter (\<lambda>(opcode, v). opcode > OP_16) ops)"

definition op_admitted :: "byte \<times> bytes \<Rightarrow> bool" where
  "op_admitted op = (fst op \<notin> set disabled_opcodes \<and> fst op \<noteq> OP_VERIF \<and> fst op \<noteq> OP_VERNOTIF \<and>
     length (snd op) \<le> MAX_SCRIPT_ELEMENT_SIZE)"

lemma guard_success: "(if c then set_error e else m) = success x \<longleftrightarrow> \<not> c \<and> m = success x"
  by simp

lemma ebind_success: "ebind m k = success y \<longleftrightarrow> (\<exists>x. m = success x \<and> k x = success y)"
  by (cases m rule: ebind_cases) simp_all

lemma step_admitted:
  assumes "EvalScript_step flags chk pc opcode v st = success st'" "nOpCount st \<le> int MAX_OPS_PER_SCRIPT"
  shows "op_admitted (opcode, v)" "int (length (vfExec st')) = int (length (vfExec st)) + nesting opcode"
    "nOpCount st + of_bool (opcode > OP_16) \<le> nOpCount st'" "nOpCount st' \<le> int MAX_OPS_PER_SCRIPT"
proof -
  let ?fExec = "False \<notin> set (vfExec st)"
  define st1 where "st1 = (if opcode > OP_16 then st\<lparr>nOpCount := nOpCount st + 1\<rparr> else st)"
  let ?m = "if ?fExec \<and> opcode \<le> OP_PUSHDATA4 then op_push_value flags opcode v st1
           else if ?fExec \<or> OP_IF \<le> opcode \<and> opcode \<le> OP_ENDIF then exec_op flags chk pc ?fExec opcode st1
           else success st1"
  have "length v \<le> MAX_SCRIPT_ELEMENT_SIZE \<and> \<not> (opcode > OP_16 \<and> nOpCount st1 > int MAX_OPS_PER_SCRIPT) \<and>
      opcode \<notin> set disabled_opcodes \<and> ?m = success st'"
    using assms(1) unfolding EvalScript_step_def Let_def st1_def [symmetric] guard_success ebind_success not_less by blast
  then have m: "?m = success st'" and c: "length v \<le> MAX_SCRIPT_ELEMENT_SIZE" "opcode \<notin> set disabled_opcodes"
    and n: "nOpCount st1 \<le> int MAX_OPS_PER_SCRIPT"
    using assms(2) by (auto simp: st1_def)
  have "\<not> (opcode = OP_VERIF \<or> opcode = OP_VERNOTIF)" using m by (auto simp: exec_op_def)
  then show "op_admitted (opcode, v)" using c by (simp add: op_admitted_def)
  have "ret_with (nests opcode st1) ?m"
    by (intro ret_with_if exec_op_nests nests_keeps [OF num_ops_ret(8)] conditionals_ret) (auto simp: nesting_def)
  then have "nests opcode st1 st'" using m by (simp add: ret_with_def)
  then show "int (length (vfExec st')) = int (length (vfExec st)) + nesting opcode"
    "nOpCount st + of_bool (opcode > OP_16) \<le> nOpCount st'" "nOpCount st' \<le> int MAX_OPS_PER_SCRIPT"
    using n by (auto simp: nests_def st1_def split: if_splits)
qed

lemma loop_admitted:
  "EvalScript_loop flags chk pc st = success st' \<Longrightarrow> nOpCount st \<le> int MAX_OPS_PER_SCRIPT \<Longrightarrow>
   \<exists>ops. instructions pc = Some ops \<and> (\<forall>x \<in> set ops. op_admitted x) \<and>
     int (length (vfExec st')) = int (length (vfExec st)) + (\<Sum>x \<leftarrow> ops. nesting (fst x)) \<and>
     nOpCount st + int (counted_ops ops) \<le> nOpCount st' \<and> nOpCount st' \<le> int MAX_OPS_PER_SCRIPT"
proof (induction "length pc" arbitrary: pc st rule: less_induct)
  case less
  show ?case
  proof (cases "pc = []")
    case True
    then show ?thesis using less(2,3) by (simp add: EvalScript_loop.simps instructions.simps counted_ops_def)
  next
    case False
    then obtain opcode v pc' st1 where g: "GetOp2 pc = Some (opcode, v, pc')"
      and s: "EvalScript_step flags chk pc' opcode v st = success st1" and l: "EvalScript_loop flags chk pc' st1 = success st'"
      using less(2) by (subst (asm) EvalScript_loop.simps) (auto split: option.splits sum.splits)
    note a = step_admitted [OF s less(3)]
    obtain ops where ops: "instructions pc' = Some ops" "\<forall>x \<in> set ops. op_admitted x"
      "int (length (vfExec st')) = int (length (vfExec st1)) + (\<Sum>x \<leftarrow> ops. nesting (fst x))"
      "nOpCount st1 + int (counted_ops ops) \<le> nOpCount st'" "nOpCount st' \<le> int MAX_OPS_PER_SCRIPT"
      using less(1) [OF GetOp2_shorter [OF g] l a(4)] by blast
    have "instructions pc = Some ((opcode, v) # ops)" using False g ops(1) by (simp add: instructions.simps [of pc])
    moreover have "int (counted_ops ((opcode, v) # ops)) = of_bool (opcode > OP_16) + int (counted_ops ops)"
      by (simp add: counted_ops_def)
    ultimately show ?thesis using ops(2-5) a by auto
  qed
qed

text \<open>A checker for which a signature is good for the key with the same bytes.\<close>

definition demo_checker :: SignatureChecker where
  "demo_checker = (BaseSignatureChecker (\<lambda>vch. Some True))\<lparr>CheckSig := (\<lambda>sig key code. Some (sig = key))\<rparr>"

definition demo_script :: bytes where
  "demo_script = [OP_1, OP_IF, OP_5, OP_DUP, OP_ELSE, OP_RETURN, OP_ENDIF]"

lemma demo_safe: "safe_checker demo_checker"
  by (simp add: safe_checker_def demo_checker_def BaseSignatureChecker_def)

lemma demo_eval: "EvalScript [] demo_script 0 demo_checker = success [[5], [5]]"
  by code_simp

lemma demo_step: "script_step 0 demo_checker ([OP_5, OP_DUP], init_state [] [OP_5, OP_DUP]) ([OP_DUP], init_state [[5]] [OP_5, OP_DUP])"
  by (rule step [where opcode = OP_5 and v = "[]"]) code_simp+




text \<open>C7. Script evaluation never faults (no stack access is out of range, no number operation overflows and no
  hash buffer is overrun), for every script, every set of flags, every initial stack within the limits and every
  signature checker that does not fault; and the stack of a successful run has at most 1000 elements of at
  most 520 bytes.\<close>

theorem EvalScript_safe:
  assumes "safe_checker chk" "length stk \<le> 1000" "\<forall>x \<in> set stk. length x \<le> MAX_SCRIPT_ELEMENT_SIZE"
  shows "eok (\<lambda>out. length out \<le> 1000 \<and> (\<forall>x \<in> set out. length x \<le> MAX_SCRIPT_ELEMENT_SIZE))
    (EvalScript stk script flags chk)"
  using EvalScript_ok [OF assms(1), of stk, unfolded stack_ok_def [abs_def]] assms(2,3) by simp

theorem EvalScript_safe_witness:
  "EvalScript [] demo_script 0 demo_checker = success [[5], [5]] \<and>
   eok (\<lambda>out. length out \<le> 1000 \<and> (\<forall>x \<in> set out. length x \<le> MAX_SCRIPT_ELEMENT_SIZE)) (EvalScript [] demo_script 0 demo_checker)"
  using demo_eval EvalScript_safe [OF demo_safe, of "[]" demo_script 0] by simp

text \<open>C13. In every state that a script reaches, the two stacks together have at most 1000 elements of at
  most 520 bytes, at most 201 operations have been counted, the rest of the script and the code that signatures
  sign are final parts of the script.\<close>

theorem reachable_limits:
  assumes "safe_checker chk" "length stk \<le> 1000" "\<forall>x \<in> set stk. length x \<le> MAX_SCRIPT_ELEMENT_SIZE"
    and "(script_step flags chk)\<^sup>*\<^sup>* (script, init_state stk script) (pc, st)"
  shows "length (stack st) + length (altstack st) \<le> 1000 \<and>
    (\<forall>x \<in> set (stack st) \<union> set (altstack st). length x \<le> MAX_SCRIPT_ELEMENT_SIZE) \<and>
    0 \<le> nOpCount st \<and> nOpCount st \<le> 201 \<and> suffix (pbegincodehash st) script \<and> suffix pc script"
proof -
  have "state_inv script (init_state stk script)" using assms(2,3) by (simp add: state_inv_def op_inv_def init_state_def)
  from reachable_inv [OF assms(4,1) this suffix_order.refl] show ?thesis
    by (simp add: state_inv_def op_inv_def MAX_OPS_PER_SCRIPT_def)
qed

theorem reachable_limits_witness:
  "length (stack (init_state [[5]] [OP_5, OP_DUP])) + length (altstack (init_state [[5]] [OP_5, OP_DUP])) \<le> 1000 \<and>
   suffix [OP_DUP] [OP_5, OP_DUP]"
  using reachable_limits [OF demo_safe _ _ r_into_rtranclp, OF _ _ demo_step] by simp

text \<open>C8. A script that evaluates successfully parses to the end, has no disabled or reserved conditional opcode even
  in branches that are not executed, pushes at most 520 bytes at a time, has at most 201 operations and
  as many \<^verbatim>\<open>OP_IF\<close> and \<^verbatim>\<open>OP_NOTIF\<close> as \<^verbatim>\<open>OP_ENDIF\<close>.\<close>

theorem EvalScript_admitted:
  assumes "EvalScript stk script flags chk = success out"
  shows "\<exists>ops. instructions script = Some ops \<and> (\<forall>x \<in> set ops. op_admitted x) \<and> counted_ops ops \<le> 201 \<and>
    (\<Sum>x \<leftarrow> ops. nesting (fst x)) = 0"
proof -
  obtain st where l: "EvalScript_loop flags chk script (init_state stk script) = success st" and v: "vfExec st = []"
    using assms unfolding EvalScript_def guard_success ebind_success by blast
  have "nOpCount (init_state stk script) \<le> int MAX_OPS_PER_SCRIPT" by (simp add: init_state_def)
  from loop_admitted [OF l this] v show ?thesis by (auto simp: init_state_def MAX_OPS_PER_SCRIPT_def)
qed

theorem EvalScript_admitted_witness:
  "\<exists>ops. instructions demo_script = Some ops \<and> (\<forall>x \<in> set ops. op_admitted x) \<and> counted_ops ops \<le> 201 \<and>
    (\<Sum>x \<leftarrow> ops. nesting (fst x)) = 0"
  using EvalScript_admitted [OF demo_eval] .

section \<open>Multiple signatures\<close>

lemma list_emb_greedy:
  "list_emb P (x # xs) (y # ys) \<longleftrightarrow> (if P x y then list_emb P xs ys else list_emb P (x # xs) ys)"
proof -
  have "list_emb P xs ys" if "list_emb P (x # xs) ys"
    using list_emb_ConsD [OF that] by (auto intro: list_emb_append2)
  then show ?thesis by (auto elim: list_emb.cases)
qed

lemma multisig_loop_emb:
  assumes "\<And>sig key. sig \<in> set sigs \<Longrightarrow> key \<in> set keys \<Longrightarrow> check_encodings flags chk sig key = success ()"
    and "\<And>sig key. CheckSig chk sig key scriptCode = Some (good sig key)"
  shows "multisig_loop flags chk scriptCode sigs keys = success (list_emb good sigs keys)"
  using assms(1)
proof (induction keys arbitrary: sigs)
  case Nil
  then show ?case by (cases sigs) simp_all
next
  case (Cons key keys)
  show ?case
  proof (cases sigs)
    case (Cons sig sigs')
    let ?s = "if good sig key then sigs' else sig # sigs'"
    have e: "check_encodings flags chk sig key = success ()" using Cons Cons.prems by simp
    have ih: "multisig_loop flags chk scriptCode ?s keys = success (list_emb good ?s keys)"
      by (rule Cons.IH) (use Cons Cons.prems in \<open>auto split: if_splits\<close>)
    have "length ?s > length keys \<Longrightarrow> \<not> list_emb good ?s keys" using list_emb_length by (metis leD)
    then show ?thesis unfolding Cons list_emb_greedy using e ih by (simp add: assms(2) Let_def split: if_splits)
  qed simp
qed

lemma with_num_serialize: "\<bar>n\<bar> < 2 ^ 31 \<Longrightarrow> with_num flags (serialize n) nDefaultMaxNumSize k = k n"
  using CScriptNum_serialize [of n 4] by (simp add: with_num_def nDefaultMaxNumSize_def)

text \<open>C9. \<^verbatim>\<open>OP_CHECKMULTISIG\<close> implements ordered matching: on a stack with the key count, the keys, the signature count, the
  signatures and an empty dummy element, all with accepted encodings, it leaves true exactly where the signatures
  can be assigned in order to different keys that they are good for, it removes all its arguments and the dummy
  element, and counts one operation for each key.\<close>

theorem checkmultisig_matches:
  assumes "stack st = serialize (int (length keys)) # keys @ serialize (int (length sigs)) # sigs @ [] # s"
    and "length keys \<le> 20" "length sigs \<le> length keys" "nOpCount st + int (length keys) \<le> 201"
    and "\<And>sig key. sig \<in> set sigs \<Longrightarrow> key \<in> set keys \<Longrightarrow> check_encodings flags chk sig key = success ()"
    and "\<And>sig key. CheckSig chk sig key
      (fold (\<lambda>vchSig code. snd (FindAndDelete code (push_data [] vchSig))) sigs (pbegincodehash st)) = Some (good sig key)"
  shows "op_checkmultisig flags chk OP_CHECKMULTISIG st =
    success (st\<lparr>nOpCount := nOpCount st + int (length keys), stack := bool_vch (list_emb good sigs keys) # s\<rparr>)"
proof -
  have n: "\<bar>int (length keys)\<bar> < 2 ^ 31" "\<bar>int (length sigs)\<bar> < 2 ^ 31" using assms(2,3) by simp_all
  have g: "getint (int (length keys)) = int (length keys)" "getint (int (length sigs)) = int (length sigs)"
    using assms(2,3) by (simp_all add: getint_def)
  note m = multisig_loop_emb [OF assms(5,6)]
  show ?thesis unfolding op_checkmultisig_def Let_def
    using assms(2,3,4) n
    by (simp add: assms(1) with_num_serialize g nth_append m multisig_finish_def MAX_PUBKEYS_PER_MULTISIG_def MAX_OPS_PER_SCRIPT_def)
qed

definition demo_multisig :: EvalState where
  "demo_multisig = init_state [[3], [1], [2], [3], [2], [1], [3], []] []"

theorem checkmultisig_matches_witness:
  "op_checkmultisig 0 demo_checker OP_CHECKMULTISIG demo_multisig = success (demo_multisig\<lparr>nOpCount := 3, stack := [[1]]\<rparr>)"
proof -
  have s: "stack demo_multisig = serialize (int (length [[1], [2], [3 :: byte]])) # [[1], [2], [3]] @
      serialize (int (length [[1], [3 :: byte]])) # [[1], [3]] @ [] # []"
    by code_simp
  have e: "check_encodings 0 demo_checker sig key = success ()" for sig key
    by (simp add: check_encodings_def CheckSignatureEncoding_def CheckPubKeyEncoding_def)
  have "list_emb (=) [[1], [3 :: byte]] [[1], [2], [3]]" by (simp add: list_emb_greedy)
  then show ?thesis
    using checkmultisig_matches [OF s _ _ _ e, where good = "(=)"]
    by (simp add: demo_multisig_def init_state_def demo_checker_def BaseSignatureChecker_def bool_vch_def vchTrue_def)
qed

end
