(* ===== verification/Str_Encodings.thy ===== *)
theory Str_Encodings
  imports Wallet_Prelude
begin

text \<open>
  Text encodings: \<^verbatim>\<open>utilstrencodings.cpp\<close> and \<^verbatim>\<open>utilstrencodings.h\<close> (hexadecimal, base64, base32, decimal numbers)
  and the hexadecimal form and salted hash of the blobs of \<^verbatim>\<open>uint256.cpp\<close>.

  A \<^verbatim>\<open>std::string\<close> is a \<open>string\<close>. A \<^verbatim>\<open>const char*\<close> is the list of characters before its terminator, so that the
  character at the end of the list is NUL; \<open>c_str\<close> takes a string there. \<^verbatim>\<open>isspace\<close> is that of the C locale.
\<close>

definition c_str :: "string \<Rightarrow> string" where
  "c_str s = takeWhile (\<lambda>c. c \<noteq> CHR 0x00) s"

definition char_at :: "string \<Rightarrow> nat \<Rightarrow> char" where
  "char_at p i = (if i < length p then p ! i else CHR 0x00)"

definition isspace :: "char \<Rightarrow> bool" where
  "isspace c \<longleftrightarrow> c \<in> {CHR 0x20, CHR 0x09, CHR 0x0A, CHR 0x0B, CHR 0x0C, CHR 0x0D}"

definition isdigit :: "char \<Rightarrow> bool" where
  "isdigit c \<longleftrightarrow> of_char c \<ge> (48 :: nat) \<and> of_char c \<le> (57 :: nat)"

definition digit_value :: "char \<Rightarrow> int" where
  "digit_value c = of_char c - 48"

section \<open>Hexadecimal\<close>

definition CHARS_ALPHA_NUM :: string where
  "CHARS_ALPHA_NUM = ''abcdefghijklmnopqrstuvwxyzABCDEFGHIJKLMNOPQRSTUVWXYZ0123456789''"

definition SAFE_CHARS :: "string list" where
  "SAFE_CHARS = [CHARS_ALPHA_NUM @ '' .,;-_/:?@()'', CHARS_ALPHA_NUM @ '' .,;-_?@'']"

definition SanitizeString :: "string \<Rightarrow> nat \<Rightarrow> string option" where
  "SanitizeString str rule =
     (if rule < length SAFE_CHARS then Some (filter (\<lambda>c. c \<in> set (SAFE_CHARS ! rule)) str) else None)"

definition p_util_hexdigit :: "int list" where
  "p_util_hexdigit =
     replicate 48 (-1) @ [0, 1, 2, 3, 4, 5, 6, 7, 8, 9] @ replicate 7 (-1) @ [0xa, 0xb, 0xc, 0xd, 0xe, 0xf]
     @ replicate 26 (-1) @ [0xa, 0xb, 0xc, 0xd, 0xe, 0xf] @ replicate 153 (-1)"

definition HexDigit :: "char \<Rightarrow> int" where
  "HexDigit c = p_util_hexdigit ! of_char c"

lemma HexDigit_NUL [simp]: "HexDigit (CHR 0x00) = -1"
  by code_simp

definition IsHex :: "string \<Rightarrow> bool" where
  "IsHex str \<longleftrightarrow> (\<forall>c \<in> set str. \<not> HexDigit c < 0) \<and> length str > 0 \<and> length str mod 2 = 0"

text \<open>At the end of the input \<^verbatim>\<open>HexDigit\<close> reads the terminator and fails.\<close>

function ParseHex_loop :: "string \<Rightarrow> bytes" where
  "ParseHex_loop psz =
     (let psz = dropWhile isspace psz; c = HexDigit (char_at psz 0) in
      if c = -1 then []
      else let n = word_of_int (push_bit 4 c) :: byte; c = HexDigit (char_at psz 1) in
        if c = -1 then []
        else (n OR word_of_int c) # ParseHex_loop (drop 2 psz))"
  by pat_completeness auto
termination
proof (relation "measure length", goal_cases)
  case (2 psz q c)
  have "length q \<le> length psz" using 2(1) by (simp add: length_dropWhile_le)
  moreover have "0 < length q" using 2(2,3) by (auto simp: char_at_def)
  ultimately show ?case unfolding in_measure length_drop by arith
qed simp

declare ParseHex_loop.simps [simp del]

definition ParseHex :: "string \<Rightarrow> bytes" where
  "ParseHex str = ParseHex_loop (c_str str)"

definition hexmap :: string where
  "hexmap = ''0123456789abcdef''"

fun HexStr_loop :: "bool \<Rightarrow> bool \<Rightarrow> bytes \<Rightarrow> string" where
  "HexStr_loop fSpaces first [] = []"
| "HexStr_loop fSpaces first (val # it) =
     (if fSpaces \<and> \<not> first then '' '' else [])
     @ [hexmap ! unat (drop_bit 4 val), hexmap ! unat (val AND 15)] @ HexStr_loop fSpaces False it"

definition HexStr :: "bytes \<Rightarrow> bool \<Rightarrow> string" where
  "HexStr vch fSpaces = HexStr_loop fSpaces True vch"

text \<open>\<^verbatim>\<open>base_blob\<close>: the bytes of the blob, of which the last comes first in the text.\<close>

definition GetHex :: "bytes \<Rightarrow> string" where
  "GetHex data = concat (map (\<lambda>b. [hexmap ! (unat b div 16), hexmap ! (unat b mod 16)]) (rev data))"

fun SetHex_loop :: "nat \<Rightarrow> string \<Rightarrow> bytes" where
  "SetHex_loop 0 ds = []"
| "SetHex_loop (Suc n) [] = 0 # SetHex_loop n []"
| "SetHex_loop (Suc n) [d] = word_of_int (HexDigit d) # SetHex_loop n []"
| "SetHex_loop (Suc n) (d # e # ds) =
     (word_of_int (HexDigit d) OR push_bit 4 (word_of_int (HexDigit e))) # SetHex_loop n ds"

definition tolower :: "char \<Rightarrow> nat" where
  "tolower c = (let n = of_char c in if 65 \<le> n \<and> n \<le> 90 then n + 32 else n)"

definition SetHex :: "nat \<Rightarrow> string \<Rightarrow> bytes" where
  "SetHex WIDTH psz =
     (let psz = dropWhile isspace psz;
          psz = (if char_at psz 0 = CHR ''0'' \<and> tolower (char_at psz 1) = of_char (CHR ''x'') then drop 2 psz else psz)
      in SetHex_loop WIDTH (rev (takeWhile (\<lambda>c. HexDigit c \<noteq> -1) psz)))"

definition uint256S :: "string \<Rightarrow> bytes" where
  "uint256S str = SetHex 32 (c_str str)"

definition base_blob_of :: "nat \<Rightarrow> bytes \<Rightarrow> bytes option" where
  "base_blob_of WIDTH vch = (if length vch = WIDTH then Some vch else None)"

definition base_blob_IsNull :: "bytes \<Rightarrow> bool" where
  "base_blob_IsNull data \<longleftrightarrow> (\<forall>b \<in> set data. b = 0)"

text \<open>The salted hash of \<^verbatim>\<open>uint256::GetHash\<close>.\<close>

definition rot :: "u32 \<Rightarrow> nat \<Rightarrow> u32" where
  "rot x n = push_bit n x OR drop_bit (32 - n) x"

definition HashMix :: "u32 \<times> u32 \<times> u32 \<Rightarrow> u32 \<times> u32 \<times> u32" where
  "HashMix abc =
     (let (a, b, c) = abc;
          a = a - c; a = a XOR rot c 4; c = c + b;
          b = b - a; b = b XOR rot a 6; a = a + c;
          c = c - b; c = c XOR rot b 8; b = b + a;
          a = a - c; a = a XOR rot c 16; c = c + b;
          b = b - a; b = b XOR rot a 19; a = a + c;
          c = c - b; c = c XOR rot b 4; b = b + a
      in (a, b, c))"

definition HashFinal :: "u32 \<times> u32 \<times> u32 \<Rightarrow> u32 \<times> u32 \<times> u32" where
  "HashFinal abc =
     (let (a, b, c) = abc;
          c = c XOR b; c = c - rot b 14;
          a = a XOR c; a = a - rot c 11;
          b = b XOR a; b = b - rot a 25;
          c = c XOR b; c = c - rot b 16;
          a = a XOR c; a = a - rot c 4;
          b = b XOR a; b = b - rot a 14;
          c = c XOR b; c = c - rot b 24
      in (a, b, c))"

definition uint256_GetHash :: "bytes \<Rightarrow> bytes \<Rightarrow> u64" where
  "uint256_GetHash data salt =
     (let pn = (\<lambda>i. ReadLE32 (drop (4 * i) data)); salt_pn = (\<lambda>i. ReadLE32 (drop (4 * i) salt));
          x = (\<lambda>i. pn i XOR salt_pn i);
          z = 0xdeadbeef + 32;
          (a, b, c) = HashMix (z + x 0, z + x 1, z + x 2);
          (a, b, c) = HashMix (a + x 3, b + x 4, c + x 5);
          (a, b, c) = HashFinal (a + x 6, b + x 7, c)
      in push_bit 32 (ucast b) OR ucast c)"

section \<open>Base64 and base32\<close>

definition pbase64 :: string where
  "pbase64 = ''ABCDEFGHIJKLMNOPQRSTUVWXYZabcdefghijklmnopqrstuvwxyz0123456789+/''"

fun EncodeBase64_loop :: "nat \<Rightarrow> int \<Rightarrow> bytes \<Rightarrow> string" where
  "EncodeBase64_loop mode left [] =
     (if mode \<noteq> 0 then [pbase64 ! nat left] @ ''='' @ (if mode = 1 then ''='' else []) else [])"
| "EncodeBase64_loop mode left (ch # pch) =
     (let enc = uint ch in
      if mode = 0
      then [pbase64 ! nat (drop_bit 2 enc)] @ EncodeBase64_loop 1 (push_bit 4 (enc AND 3)) pch
      else if mode = 1
      then [pbase64 ! nat (left OR drop_bit 4 enc)] @ EncodeBase64_loop 2 (push_bit 2 (enc AND 15)) pch
      else [pbase64 ! nat (left OR drop_bit 6 enc), pbase64 ! nat (enc AND 63)] @ EncodeBase64_loop 0 left pch)"

definition EncodeBase64 :: "bytes \<Rightarrow> string" where
  "EncodeBase64 pch = EncodeBase64_loop 0 0 pch"

definition decode64_table :: "int list" where
  "decode64_table =
     replicate 43 (-1) @ [62, -1, -1, -1, 63] @ map int [52..<62] @ replicate 7 (-1) @ map int [0..<26]
     @ replicate 6 (-1) @ map int [26..<52] @ replicate 133 (-1)"

definition decode64 :: "char \<Rightarrow> int" where
  "decode64 c = decode64_table ! of_char c"

text \<open>The bytes, the final mode and \<^verbatim>\<open>left\<close>, and the rest of the input.\<close>

fun DecodeBase64_loop :: "nat \<Rightarrow> int \<Rightarrow> string \<Rightarrow> bytes \<times> nat \<times> int \<times> string" where
  "DecodeBase64_loop mode left [] = ([], mode, left, [])"
| "DecodeBase64_loop mode left (c # p) =
     (let dec = decode64 c in
      if dec = -1 then ([], mode, left, c # p)
      else if mode = 0 then DecodeBase64_loop 1 dec p
      else if mode = 1 then apfst ((#) (word_of_int (push_bit 2 left OR drop_bit 4 dec))) (DecodeBase64_loop 2 (dec AND 15) p)
      else if mode = 2 then apfst ((#) (word_of_int (push_bit 4 left OR drop_bit 2 dec))) (DecodeBase64_loop 3 (dec AND 3) p)
      else apfst ((#) (word_of_int (push_bit 6 left OR dec))) (DecodeBase64_loop 0 left p))"

text \<open>\<open>n\<close> padding characters and then the end of the digits.\<close>

definition padded :: "(char \<Rightarrow> int) \<Rightarrow> nat \<Rightarrow> string \<Rightarrow> bool" where
  "padded table n p \<longleftrightarrow> (\<forall>i < n. char_at p i = CHR ''='') \<and> table (char_at p n) = -1"

definition DecodeBase64 :: "string \<Rightarrow> bytes \<times> bool" where
  "DecodeBase64 p =
     (let (vchRet, mode, left, p) = DecodeBase64_loop 0 0 p;
          pfInvalid = (if mode = 0 then False else if mode = 1 then True
            else if mode = 2 then left \<noteq> 0 \<or> \<not> padded decode64 2 p
            else left \<noteq> 0 \<or> \<not> padded decode64 1 p)
      in (vchRet, pfInvalid))"

definition pbase32 :: string where
  "pbase32 = ''abcdefghijklmnopqrstuvwxyz234567''"

definition nPadding :: "nat list" where
  "nPadding = [0, 6, 4, 3, 1]"

fun EncodeBase32_loop :: "nat \<Rightarrow> int \<Rightarrow> bytes \<Rightarrow> string" where
  "EncodeBase32_loop mode left [] =
     (if mode \<noteq> 0 then [pbase32 ! nat left] @ replicate (nPadding ! mode) (CHR ''='') else [])"
| "EncodeBase32_loop mode left (ch # pch) =
     (let enc = uint ch in
      if mode = 0
      then [pbase32 ! nat (drop_bit 3 enc)] @ EncodeBase32_loop 1 (push_bit 2 (enc AND 7)) pch
      else if mode = 1
      then [pbase32 ! nat (left OR drop_bit 6 enc), pbase32 ! nat (drop_bit 1 enc AND 31)]
           @ EncodeBase32_loop 2 (push_bit 4 (enc AND 1)) pch
      else if mode = 2
      then [pbase32 ! nat (left OR drop_bit 4 enc)] @ EncodeBase32_loop 3 (push_bit 1 (enc AND 15)) pch
      else if mode = 3
      then [pbase32 ! nat (left OR drop_bit 7 enc), pbase32 ! nat (drop_bit 2 enc AND 31)]
           @ EncodeBase32_loop 4 (push_bit 3 (enc AND 3)) pch
      else [pbase32 ! nat (left OR drop_bit 5 enc), pbase32 ! nat (enc AND 31)] @ EncodeBase32_loop 0 left pch)"

definition EncodeBase32 :: "bytes \<Rightarrow> string" where
  "EncodeBase32 pch = EncodeBase32_loop 0 0 pch"

definition decode32_table :: "int list" where
  "decode32_table =
     replicate 50 (-1) @ map int [26..<32] @ replicate 9 (-1) @ map int [0..<26]
     @ replicate 6 (-1) @ map int [0..<26] @ replicate 133 (-1)"

definition decode32 :: "char \<Rightarrow> int" where
  "decode32 c = decode32_table ! of_char c"

fun DecodeBase32_loop :: "nat \<Rightarrow> int \<Rightarrow> string \<Rightarrow> bytes \<times> nat \<times> int \<times> string" where
  "DecodeBase32_loop mode left [] = ([], mode, left, [])"
| "DecodeBase32_loop mode left (c # p) =
     (let dec = decode32 c in
      if dec = -1 then ([], mode, left, c # p)
      else if mode = 0 then DecodeBase32_loop 1 dec p
      else if mode = 1 then apfst ((#) (word_of_int (push_bit 3 left OR drop_bit 2 dec))) (DecodeBase32_loop 2 (dec AND 3) p)
      else if mode = 2 then DecodeBase32_loop 3 (push_bit 5 left OR dec) p
      else if mode = 3 then apfst ((#) (word_of_int (push_bit 1 left OR drop_bit 4 dec))) (DecodeBase32_loop 4 (dec AND 15) p)
      else if mode = 4 then apfst ((#) (word_of_int (push_bit 4 left OR drop_bit 1 dec))) (DecodeBase32_loop 5 (dec AND 1) p)
      else if mode = 5 then DecodeBase32_loop 6 (push_bit 5 left OR dec) p
      else if mode = 6 then apfst ((#) (word_of_int (push_bit 2 left OR drop_bit 3 dec))) (DecodeBase32_loop 7 (dec AND 7) p)
      else apfst ((#) (word_of_int (push_bit 5 left OR dec))) (DecodeBase32_loop 0 left p))"

definition DecodeBase32 :: "string \<Rightarrow> bytes \<times> bool" where
  "DecodeBase32 p =
     (let (vchRet, mode, left, p) = DecodeBase32_loop 0 0 p;
          pfInvalid = (if mode = 0 then False
            else if mode = 1 \<or> mode = 3 \<or> mode = 6 then True
            else if mode = 2 then left \<noteq> 0 \<or> \<not> padded decode32 6 p
            else if mode = 4 then left \<noteq> 0 \<or> \<not> padded decode32 4 p
            else if mode = 5 then left \<noteq> 0 \<or> \<not> padded decode32 3 p
            else left \<noteq> 0 \<or> \<not> padded decode32 1 p)
      in (vchRet, pfInvalid))"

section \<open>Digits\<close>

text \<open>
  What the decoders rely on: the table gives each character of the alphabet its index, and neither
  the terminator nor the padding character is a digit.
\<close>

locale digit_codec =
  fixes alphabet :: string and digit :: "char \<Rightarrow> int"
  assumes digit_nth: "i < length alphabet \<Longrightarrow> digit (alphabet ! i) = int i"
    and digit_pad: "digit (CHR ''='') = -1"
    and digit_NUL: "digit (CHR 0x00) = -1"
begin

lemma digit_enc: "0 \<le> v \<Longrightarrow> nat v < length alphabet \<Longrightarrow> digit (alphabet ! nat v) = v"
  by (simp add: digit_nth)

lemma digit_not_pad: "i < length alphabet \<Longrightarrow> alphabet ! i \<noteq> CHR ''='' \<and> alphabet ! i \<noteq> CHR 0x00"
  using digit_nth [of i] digit_pad digit_NUL by (metis of_nat_neq_0 of_nat_0_le_iff neg_0_le_iff_le not_one_le_zero)

lemma padded_replicate: "padded digit n (replicate n (CHR ''=''))"
  using digit_NUL by (simp add: padded_def char_at_def)

end


lemma digit_table:
  assumes "map digit alphabet = map int [0..<length alphabet]" "i < length alphabet"
  shows "digit (alphabet ! i) = int i"
proof -
  have "map digit alphabet ! i = map int [0..<length alphabet] ! i" by (simp only: assms(1))
  then show ?thesis using assms(2) by simp
qed

lemma upt_Suc_map: "map int [a..<b] = (if a < b then int a # map int [Suc a..<b] else [])"
  by (simp add: upt_conv_Cons)

lemma nth_table: "(replicate n x @ xs) ! i = (if i < n then x else xs ! (i - n))"
  "(map int [a..<b] @ xs) ! i = (if i < b - a then int (a + i) else xs ! (i - (b - a)))"
  by (auto simp: nth_append not_less)

interpretation hexc: digit_codec hexmap HexDigit
proof
  show "i < length hexmap \<Longrightarrow> HexDigit (hexmap ! i) = int i" for i
    by (rule digit_table) (simp_all add: hexmap_def HexDigit_def p_util_hexdigit_def nth_table upt_Suc_map)
qed code_simp+

interpretation b64: digit_codec pbase64 decode64
proof
  show "i < length pbase64 \<Longrightarrow> decode64 (pbase64 ! i) = int i" for i
    by (rule digit_table) (simp_all add: pbase64_def decode64_def decode64_table_def nth_table upt_Suc_map)
qed code_simp+

interpretation b32: digit_codec pbase32 decode32
proof
  show "i < length pbase32 \<Longrightarrow> decode32 (pbase32 ! i) = int i" for i
    by (rule digit_table) (simp_all add: pbase32_def decode32_def decode32_table_def nth_table upt_Suc_map)
qed code_simp+

lemma or_shift: "0 \<le> y \<Longrightarrow> y < 2 ^ n \<Longrightarrow> push_bit n x OR y = x * 2 ^ n + (y :: int)"
proof -
  assume y: "0 \<le> y" "y < 2 ^ n"
  then have t: "take_bit n y = y" by (simp add: take_bit_int_eq_self)
  have "push_bit n x + y = push_bit n x OR y"
    by (rule disjunctive_add) (metis bit_push_bit_iff_int bit_take_bit_iff t not_less)
  then show ?thesis by (simp add: push_bit_eq_mult)
qed

lemma mask_mod: "x AND 1 = x mod (2 :: int)" "x AND 3 = x mod (4 :: int)" "x AND 7 = x mod (8 :: int)" "x AND 15 = x mod (16 :: int)"
  "x AND 31 = x mod (32 :: int)" "x AND 63 = x mod (64 :: int)"
  using take_bit_eq_mask [of 1 x] take_bit_eq_mask [of 2 x] take_bit_eq_mask [of 3 x] take_bit_eq_mask [of 4 x]
    take_bit_eq_mask [of 5 x] take_bit_eq_mask [of 6 x]
  by (simp_all add: take_bit_eq_mod mask_eq_exp_minus_1)

lemma uint_byte: "0 \<le> uint (b :: byte)" "uint (b :: byte) < 256"
  using uint_lt2p [of b] by simp_all

lemma byte_of_uint: "v = uint b \<Longrightarrow> word_of_int v = (b :: byte)"
  by simp

lemma or_shifts:
  "0 \<le> y \<Longrightarrow> y < 2 \<Longrightarrow> push_bit 1 x OR y = x * 2 + (y :: int)"
  "0 \<le> y \<Longrightarrow> y < 4 \<Longrightarrow> push_bit 2 x OR y = x * 4 + (y :: int)"
  "0 \<le> y \<Longrightarrow> y < 8 \<Longrightarrow> push_bit 3 x OR y = x * 8 + (y :: int)"
  "0 \<le> y \<Longrightarrow> y < 16 \<Longrightarrow> push_bit 4 x OR y = x * 16 + (y :: int)"
  "0 \<le> y \<Longrightarrow> y < 32 \<Longrightarrow> push_bit 5 x OR y = x * 32 + (y :: int)"
  "0 \<le> y \<Longrightarrow> y < 64 \<Longrightarrow> push_bit 6 x OR y = x * 64 + (y :: int)"
  using or_shift [of y 1 x] or_shift [of y 2 x] or_shift [of y 3 x] or_shift [of y 4 x] or_shift [of y 5 x] or_shift [of y 6 x]
  by simp_all

lemma list_induct_3 [case_names Nil One Two Three]:
  assumes "P []" "\<And>a. P [a]" "\<And>a b. P [a, b]" "\<And>a b c v. P v \<Longrightarrow> P (a # b # c # v)"
  shows "P v"
proof (induction v rule: length_induct)
  case (1 v)
  show ?case
  proof (cases "length v < 3")
    case True
    then show ?thesis using assms(1-3) by (cases v rule: list.exhaust; cases "tl v" rule: list.exhaust; cases "tl (tl v)"; auto)
  next
    case False
    then obtain a b c w where "v = a # b # c # w" by (metis Suc_le_length_iff numeral_3_eq_3 not_less)
    then show ?thesis using 1 assms(4) by simp
  qed
qed

lemma byte_parts:
  "uint (b :: byte) div 2 < 128" "uint b div 4 < 64" "uint b div 8 < 32" "uint b div 16 < 16" "uint b div 32 < 8" "uint b div 64 < 4" "uint b div 128 < 2"
  using uint_byte [of b] by (simp_all add: div_less_iff_less_mult)

lemma length_alphabets [simp]: "length pbase64 = 64" "length pbase32 = 32" "length hexmap = 16"
  by (simp_all add: pbase64_def pbase32_def hexmap_def)

lemma dec64: "0 \<le> v \<Longrightarrow> v < 64 \<Longrightarrow> decode64 (pbase64 ! nat v) = v"
  by (rule b64.digit_enc) simp_all

lemma dec32: "0 \<le> v \<Longrightarrow> v < 32 \<Longrightarrow> decode32 (pbase32 ! nat v) = v"
  by (rule b32.digit_enc) simp_all

lemmas shift_simps = drop_bit_eq_div mask_mod or_shifts byte_parts uint_byte

lemmas or_packs = or_shifts [unfolded push_bit_eq_mult, simplified]

lemma pack_div: "0 \<le> r \<Longrightarrow> r < m \<Longrightarrow> (q * m + r) div m = (q :: int)"
  by (simp add: div_add1_eq div_pos_pos_trivial)

lemma pack_mod: "0 \<le> r \<Longrightarrow> r < m \<Longrightarrow> (q * m + r) mod m = (r :: int)"
  by simp

lemma pack_bounds:
  assumes "0 \<le> q" "q < n" "0 \<le> r" "r < (m :: int)"
  shows "0 \<le> q * m + r" "q * m + r < n * m"
proof -
  show "0 \<le> q * m + r" using assms by simp
  have "q * m + r < (q + 1) * m" using assms by (simp add: algebra_simps)
  also have "\<dots> \<le> n * m" using assms by (intro mult_right_mono) simp_all
  finally show "q * m + r < n * m" .
qed

lemma byte_parts_nonneg:
  "0 \<le> uint (b :: byte) div 2" "0 \<le> uint b div 4" "0 \<le> uint b div 8" "0 \<le> uint b div 16" "0 \<le> uint b div 32" "0 \<le> uint b div 64" "0 \<le> uint b div 128"
  by (simp_all add: pos_imp_zdiv_nonneg_iff)

lemma mod_parts: "0 \<le> x mod (2 :: int)" "x mod (2 :: int) < 2" "0 \<le> x mod (4 :: int)" "x mod (4 :: int) < 4" "0 \<le> x mod (8 :: int)" "x mod (8 :: int) < 8"
  "0 \<le> x mod (16 :: int)" "x mod (16 :: int) < 16" "0 \<le> x mod (32 :: int)" "x mod (32 :: int) < 32" "0 \<le> x mod (64 :: int)" "x mod (64 :: int) < 64"
  by simp_all

lemmas parts = byte_parts byte_parts_nonneg mod_parts

lemma div_range:
  assumes "0 \<le> v" "v < n * m" "0 < (m::int)"
  shows "0 \<le> v div m \<and> v div m < (n :: int)"
proof
  show "0 \<le> v div m" using assms by (simp add: pos_imp_zdiv_nonneg_iff)
  have "v div m * m \<le> v" using assms(3) by (simp add: mult.commute minus_mod_eq_mult_div [symmetric])
  then have "v div m * m < n * m" using assms(2) by simp
  then show "v div m < n" using assms(3) by simp
qed

lemma decode64_digit:
  assumes "0 \<le> v" "v < 64"
  shows "DecodeBase64_loop 0 l (pbase64 ! nat v # p) = DecodeBase64_loop 1 v p"
    "DecodeBase64_loop 1 l (pbase64 ! nat v # p) = apfst ((#) (word_of_int (l * 4 + v div 16))) (DecodeBase64_loop 2 (v mod 16) p)"
    "DecodeBase64_loop 2 l (pbase64 ! nat v # p) = apfst ((#) (word_of_int (l * 16 + v div 4))) (DecodeBase64_loop 3 (v mod 4) p)"
    "DecodeBase64_loop 3 l (pbase64 ! nat v # p) = apfst ((#) (word_of_int (l * 64 + v))) (DecodeBase64_loop 0 l p)"
  using assms dec64 [OF assms] div_range [of v 4 16] div_range [of v 16 4]
  by (simp_all add: Let_def drop_bit_eq_div mask_mod push_bit_eq_mult or_packs)

lemma base64_three:
  "DecodeBase64_loop 0 l (EncodeBase64_loop 0 k (a # b # c # v)) =
     apfst (\<lambda>w. a # b # c # w) (DecodeBase64_loop 0 (uint c div 64) (EncodeBase64_loop 0 (uint b mod 16 * 4) v))"
proof -
  note p = pack_bounds [OF mod_parts(3,4) byte_parts_nonneg(4) byte_parts(4), of "uint a" b, simplified]
    and q = pack_bounds [OF mod_parts(7,8) byte_parts_nonneg(6) byte_parts(6), of "uint b" c, simplified]
  have "EncodeBase64_loop 0 k (a # b # c # v) = pbase64 ! nat (uint a div 4) # pbase64 ! nat (uint a mod 4 * 16 + uint b div 16) #
     pbase64 ! nat (uint b mod 16 * 4 + uint c div 64) # pbase64 ! nat (uint c mod 64) # EncodeBase64_loop 0 (uint b mod 16 * 4) v"
    by (simp add: Let_def drop_bit_eq_div mask_mod or_packs parts push_bit_eq_mult)
  then show ?thesis
    by (simp only: decode64_digit p q parts pack_div pack_mod apfst_compose) (simp add: apfst_compose o_def)
qed

lemma decode64_pad: "DecodeBase64_loop m l (CHR ''='' # p) = ([], m, l, CHR ''='' # p)"
  by (simp add: b64.digit_pad)

lemma base64_tails:
  "DecodeBase64_loop 0 l (EncodeBase64_loop 0 k [a]) = ([a], 2, 0, ''=='')"
  "DecodeBase64_loop 0 l (EncodeBase64_loop 0 k [a, b]) = ([a, b], 3, 0, ''='')"
proof -
  have m: "0 \<le> x * 4 \<and> x * 4 < 64" if "0 \<le> x" "x < 16" for x :: int using that by simp
  have n: "0 \<le> x * 16 \<and> x * 16 < 64" if "0 \<le> x" "x < 4" for x :: int using that by simp
  note p = pack_bounds [OF mod_parts(3,4) byte_parts_nonneg(4) byte_parts(4), of "uint a" b, simplified]
  have "EncodeBase64_loop 0 k [a] = pbase64 ! nat (uint a div 4) # pbase64 ! nat (uint a mod 4 * 16) # ''==''"
    by (simp add: Let_def drop_bit_eq_div mask_mod push_bit_eq_mult)
  then show "DecodeBase64_loop 0 l (EncodeBase64_loop 0 k [a]) = ([a], 2, 0, ''=='')"
    by (simp only: decode64_digit parts n decode64_pad) simp
  have "EncodeBase64_loop 0 k [a, b] = pbase64 ! nat (uint a div 4) # pbase64 ! nat (uint a mod 4 * 16 + uint b div 16) #
      pbase64 ! nat (uint b mod 16 * 4) # ''=''"
    by (simp add: Let_def drop_bit_eq_div mask_mod or_packs parts push_bit_eq_mult)
  then show "DecodeBase64_loop 0 l (EncodeBase64_loop 0 k [a, b]) = ([a, b], 3, 0, ''='')"
    by (simp only: decode64_digit parts m p pack_div pack_mod decode64_pad) simp
qed

definition base64_end :: "nat \<Rightarrow> int \<Rightarrow> string \<Rightarrow> bool" where
  "base64_end m r p \<longleftrightarrow> m = 0 \<or> r = 0 \<and> (m = 2 \<and> p = ''=='' \<or> m = 3 \<and> p = ''='')"

lemma base64_loop_roundtrip:
  "\<exists>m r p. DecodeBase64_loop 0 l (EncodeBase64_loop 0 k v) = (v, m, r, p) \<and> base64_end m r p"
proof (induction v arbitrary: k l rule: list_induct_3)
  case Nil
  show ?case by (simp add: base64_end_def)
next
  case (One a)
  show ?case unfolding base64_tails by (simp add: base64_end_def)
next
  case (Two a b)
  show ?case unfolding base64_tails by (simp add: base64_end_def)
next
  case (Three a b c v)
  obtain m r p where "DecodeBase64_loop 0 (uint c div 64) (EncodeBase64_loop 0 (uint b mod 16 * 4) v) = (v, m, r, p)" "base64_end m r p"
    using Three [of "uint c div 64" "uint b mod 16 * 4"] by blast
  then show ?case unfolding base64_three by simp
qed

lemma base64_roundtrip: "DecodeBase64 (EncodeBase64 v) = (v, False)"
proof -
  obtain m r p where e: "DecodeBase64_loop 0 0 (EncodeBase64_loop 0 0 v) = (v, m, r, p)" and "base64_end m r p"
    using base64_loop_roundtrip by blast
  moreover have "padded decode64 1 ''=''" "padded decode64 2 ''==''"
    using b64.padded_replicate [of 1] b64.padded_replicate [of 2] by (simp_all add: numeral_2_eq_2)
  ultimately show ?thesis
    unfolding DecodeBase64_def EncodeBase64_def e by (auto simp: base64_end_def)
qed

lemma list_induct_5 [case_names Nil One Two Three Four Five]:
  assumes "P []" "\<And>a. P [a]" "\<And>a b. P [a, b]" "\<And>a b c. P [a, b, c]" "\<And>a b c d. P [a, b, c, d]"
    and "\<And>a b c d e v. P v \<Longrightarrow> P (a # b # c # d # e # v)"
  shows "P v"
proof (induction v rule: length_induct)
  case (1 v)
  consider "v = []" | a where "v = [a]" | a b where "v = [a, b]" | a b c where "v = [a, b, c]" | a b c d where "v = [a, b, c, d]"
    | a b c d e w where "v = a # b # c # d # e # w"
    by (metis list.exhaust)
  then show ?case by cases (use assms 1 in simp_all)
qed

lemma decode32_digit:
  assumes "0 \<le> v" "v < 32"
  shows "DecodeBase32_loop 0 l (pbase32 ! nat v # p) = DecodeBase32_loop 1 v p"
    "DecodeBase32_loop 1 l (pbase32 ! nat v # p) = apfst ((#) (word_of_int (l * 8 + v div 4))) (DecodeBase32_loop 2 (v mod 4) p)"
    "DecodeBase32_loop 2 l (pbase32 ! nat v # p) = DecodeBase32_loop 3 (l * 32 + v) p"
    "DecodeBase32_loop 3 l (pbase32 ! nat v # p) = apfst ((#) (word_of_int (l * 2 + v div 16))) (DecodeBase32_loop 4 (v mod 16) p)"
    "DecodeBase32_loop 4 l (pbase32 ! nat v # p) = apfst ((#) (word_of_int (l * 16 + v div 2))) (DecodeBase32_loop 5 (v mod 2) p)"
    "DecodeBase32_loop 5 l (pbase32 ! nat v # p) = DecodeBase32_loop 6 (l * 32 + v) p"
    "DecodeBase32_loop 6 l (pbase32 ! nat v # p) = apfst ((#) (word_of_int (l * 4 + v div 8))) (DecodeBase32_loop 7 (v mod 8) p)"
    "DecodeBase32_loop 7 l (pbase32 ! nat v # p) = apfst ((#) (word_of_int (l * 32 + v))) (DecodeBase32_loop 0 l p)"
  using assms dec32 [OF assms] div_range [of v 8 4] div_range [of v 2 16] div_range [of v 16 2] div_range [of v 4 8]
  by (simp_all add: Let_def drop_bit_eq_div mask_mod push_bit_eq_mult or_packs)

lemma decode32_pad: "DecodeBase32_loop m l (CHR ''='' # p) = ([], m, l, CHR ''='' # p)"
  by (simp add: b32.digit_pad)

lemma middle: "x div 64 * 32 + x div 2 mod 32 = (x div 2 :: int)" "x div 128 * 32 + x div 4 mod 32 = (x div 4 :: int)"
proof -
  have "x div 64 = x div 2 div 32" "x div 128 = x div 4 div 32" by (simp_all add: zdiv_zmult2_eq [symmetric])
  then show "x div 64 * 32 + x div 2 mod 32 = x div 2" "x div 128 * 32 + x div 4 mod 32 = x div 4" by simp_all
qed

lemma last_digits:
  "0 \<le> x mod 8 * 4" "x mod 8 * 4 < (32 :: int)" "0 \<le> x mod 2 * 16" "x mod 2 * 16 < (32 :: int)"
  "0 \<le> x mod 16 * 2" "x mod 16 * 2 < (32 :: int)" "0 \<le> x mod 4 * 8" "x mod 4 * 8 < (32 :: int)"
  using mod_parts [of x] by simp_all

lemmas base32_packs =
  pack_bounds [OF mod_parts(5,6) byte_parts_nonneg(6) byte_parts(6), simplified]
  pack_bounds [OF mod_parts(1,2) byte_parts_nonneg(4) byte_parts(4), simplified]
  pack_bounds [OF mod_parts(7,8) byte_parts_nonneg(7) byte_parts(7), simplified]
  pack_bounds [OF mod_parts(3,4) byte_parts_nonneg(5) byte_parts(5), simplified]

lemma encode32_digits:
  "EncodeBase32_loop 0 k (a # pch) = pbase32 ! nat (uint a div 8) # EncodeBase32_loop 1 (uint a mod 8 * 4) pch"
  "EncodeBase32_loop 1 (x * 4) (b # pch) =
     pbase32 ! nat (x * 4 + uint b div 64) # pbase32 ! nat (uint b div 2 mod 32) # EncodeBase32_loop 2 (uint b mod 2 * 16) pch"
  "EncodeBase32_loop 2 (x * 16) (c # pch) = pbase32 ! nat (x * 16 + uint c div 16) # EncodeBase32_loop 3 (uint c mod 16 * 2) pch"
  "EncodeBase32_loop 3 (x * 2) (d # pch) =
     pbase32 ! nat (x * 2 + uint d div 128) # pbase32 ! nat (uint d div 4 mod 32) # EncodeBase32_loop 4 (uint d mod 4 * 8) pch"
  "EncodeBase32_loop 4 (x * 8) (e # pch) =
     pbase32 ! nat (x * 8 + uint e div 32) # pbase32 ! nat (uint e mod 32) # EncodeBase32_loop 0 (x * 8) pch"
  by (simp_all add: Let_def drop_bit_eq_div mask_mod or_packs parts push_bit_eq_mult)

lemma encode32_ends:
  "EncodeBase32_loop 0 l [] = []" "EncodeBase32_loop 1 l [] = pbase32 ! nat l # ''======''" "EncodeBase32_loop 2 l [] = pbase32 ! nat l # ''====''"
  "EncodeBase32_loop 3 l [] = pbase32 ! nat l # ''===''" "EncodeBase32_loop 4 l [] = pbase32 ! nat l # ''=''"
  by (simp_all add: nPadding_def numeral_eq_Suc)

lemmas base32_simps = encode32_digits encode32_ends decode32_digit decode32_pad base32_packs parts last_digits pack_div pack_mod middle
  apfst_compose apfst_conv

lemma base32_five:
  "DecodeBase32_loop 0 l (EncodeBase32_loop 0 k (a # b # c # d # e # v)) =
     apfst (\<lambda>w. a # b # c # d # e # w) (DecodeBase32_loop 0 (uint e div 32) (EncodeBase32_loop 0 (uint d mod 4 * 8) v))"
  by (simp only: base32_simps) (simp add: apfst_compose o_def)

lemma base32_tails:
  "DecodeBase32_loop 0 l (EncodeBase32_loop 0 k [a]) = ([a], 2, 0, ''======'')"
  "DecodeBase32_loop 0 l (EncodeBase32_loop 0 k [a, b]) = ([a, b], 4, 0, ''===='')"
  "DecodeBase32_loop 0 l (EncodeBase32_loop 0 k [a, b, c]) = ([a, b, c], 5, 0, ''==='')"
  "DecodeBase32_loop 0 l (EncodeBase32_loop 0 k [a, b, c, d]) = ([a, b, c, d], 7, 0, ''='')"
  by (simp only: base32_simps; simp)+

definition base32_end :: "nat \<Rightarrow> int \<Rightarrow> string \<Rightarrow> bool" where
  "base32_end m r p \<longleftrightarrow> m = 0 \<or> r = 0 \<and>
     (m = 2 \<and> p = ''======'' \<or> m = 4 \<and> p = ''===='' \<or> m = 5 \<and> p = ''==='' \<or> m = 7 \<and> p = ''='')"

lemma base32_loop_roundtrip:
  "\<exists>m r p. DecodeBase32_loop 0 l (EncodeBase32_loop 0 k v) = (v, m, r, p) \<and> base32_end m r p"
proof (induction v arbitrary: k l rule: list_induct_5)
  case Nil
  show ?case by (simp add: base32_end_def)
next
  case (Five a b c d e v)
  obtain m r p where "DecodeBase32_loop 0 (uint e div 32) (EncodeBase32_loop 0 (uint d mod 4 * 8) v) = (v, m, r, p)" "base32_end m r p"
    using Five [of "uint e div 32" "uint d mod 4 * 8"] by blast
  then show ?case unfolding base32_five by simp
qed (unfold base32_tails, simp_all add: base32_end_def)

lemma base32_roundtrip: "DecodeBase32 (EncodeBase32 v) = (v, False)"
proof -
  obtain m r p where e: "DecodeBase32_loop 0 0 (EncodeBase32_loop 0 0 v) = (v, m, r, p)" and "base32_end m r p"
    using base32_loop_roundtrip by blast
  moreover have "padded decode32 1 ''=''" "padded decode32 3 ''===''" "padded decode32 4 ''====''" "padded decode32 6 ''======''"
    using b32.padded_replicate [of 1] b32.padded_replicate [of 3] b32.padded_replicate [of 4] b32.padded_replicate [of 6]
    by (simp_all add: numeral_eq_Suc)
  ultimately show ?thesis
    unfolding DecodeBase32_def EncodeBase32_def e by (auto simp: base32_end_def)
qed

section \<open>Hexadecimal round trips\<close>

lemma hexdigit_nibble: "n < 16 \<Longrightarrow> HexDigit (hexmap ! n) = int n"
  by (simp add: hexc.digit_nth)

lemma hexdigit_not_space:
  assumes "n < 16"
  shows "\<not> isspace (hexmap ! n)" "tolower (hexmap ! n) \<noteq> of_char (CHR ''x'')"
proof -
  have "\<forall>c \<in> set hexmap. \<not> isspace c \<and> tolower c \<noteq> of_char (CHR ''x'')"
    by (simp add: hexmap_def isspace_def tolower_def)
  then show "\<not> isspace (hexmap ! n)" "tolower (hexmap ! n) \<noteq> of_char (CHR ''x'')"
    using assms nth_mem [of n hexmap] by simp_all
qed

lemma nibbles: "unat (b :: byte) div 16 < 16" "unat b mod 16 < 16" "unat (drop_bit 4 b) = unat b div 16" "unat (b AND 15) = unat b mod 16"
proof -
  show "unat b div 16 < 16" using unat_lt2p [of b] by (simp add: less_mult_imp_div_less)
  show "unat b mod 16 < 16" by simp
  show "unat (drop_bit 4 b) = unat b div 16" by (simp add: unat_shr)
  have "b AND 15 = take_bit 4 b" by (simp add: take_bit_eq_mask mask_eq_exp_minus_1)
  then show "unat (b AND 15) = unat b mod 16" by (simp add: unat_take_bit)
qed

lemma join_nibbles:
  "(word_of_int (int (unat b mod 16)) OR push_bit 4 (word_of_int (int (unat b div 16))) :: byte) = b"
  "(word_of_int (push_bit 4 (int (unat b div 16))) OR word_of_int (int (unat b mod 16)) :: byte) = b"
proof -
  have "unat b div 16 * 16 + unat b mod 16 = unat b" by simp
  then have "int (unat b div 16) * 16 + int (unat b mod 16) = int (unat b)" by (metis of_nat_add of_nat_mult of_nat_numeral)
  then have "push_bit 4 (int (unat b div 16)) OR int (unat b mod 16) = int (unat b)" by (subst or_shift) simp_all
  then have "word_of_int (push_bit 4 (int (unat b div 16)) OR int (unat b mod 16)) = b" by (metis word_of_int_uint uint_nat)
  then show "(word_of_int (push_bit 4 (int (unat b div 16))) OR word_of_int (int (unat b mod 16)) :: byte) = b"
    by (simp only: of_int_or_eq)
  then show "(word_of_int (int (unat b mod 16)) OR push_bit 4 (word_of_int (int (unat b div 16))) :: byte) = b"
    by (subst or.commute) (simp only: push_bit_of_int)
qed

lemma GetHex_digits: "c \<in> set (GetHex d) \<Longrightarrow> c \<in> set hexmap"
  using nibbles(1) by (auto simp: GetHex_def intro!: nth_mem)

lemma hexmap_digit: "c \<in> set hexmap \<Longrightarrow> HexDigit c \<noteq> -1 \<and> \<not> isspace c \<and> tolower c \<noteq> of_char (CHR ''x'') \<and> c \<noteq> CHR 0x00"
  using hexdigit_nibble hexdigit_not_space hexc.digit_not_pad by (auto simp: in_set_conv_nth)

lemma rev_GetHex: "rev (GetHex d) = concat (map (\<lambda>b. [hexmap ! (unat b mod 16), hexmap ! (unat b div 16)]) d)"
  unfolding GetHex_def rev_concat by (simp add: rev_map o_def)

lemma SetHex_loop_GetHex: "SetHex_loop (length d) (rev (GetHex d)) = d"
  unfolding rev_GetHex
proof (induction d)
  case (Cons b d)
  then show ?case using nibbles(1,2) [of b] join_nibbles(1) [of b] by (simp add: hexdigit_nibble)
qed simp

lemma SetHex_GetHex: "SetHex (length d) (pre @ GetHex d) = d" if "pre = [] \<or> pre = ''0x''"
proof -
  let ?h = "GetHex d"
  have hx: "\<And>c. c \<in> set ?h \<Longrightarrow> HexDigit c \<noteq> -1 \<and> \<not> isspace c \<and> tolower c \<noteq> of_char (CHR ''x'') \<and> c \<noteq> CHR 0x00"
    using GetHex_digits hexmap_digit by blast
  have t: "takeWhile (\<lambda>c. HexDigit c \<noteq> -1) ?h = ?h" using hx by (simp add: takeWhile_eq_all_conv)
  have d: "dropWhile isspace ?h = ?h" using hx by (cases ?h) simp_all
  have x: "tolower (char_at ?h 1) \<noteq> of_char (CHR ''x'')"
    using hx [of "?h ! 1"] by (auto simp: char_at_def) (simp add: tolower_def)
  from that show ?thesis
  proof
    assume "pre = []"
    then show ?thesis using x by (simp add: SetHex_def d t SetHex_loop_GetHex)
  next
    assume "pre = ''0x''"
    then have "dropWhile isspace (pre @ ?h) = CHR ''0'' # CHR ''x'' # ?h" by (simp add: isspace_def)
    then show ?thesis by (simp add: SetHex_def char_at_def tolower_def t SetHex_loop_GetHex)
  qed
qed

lemma HexStr_digits: "c \<in> set (HexStr_loop sp first v) \<Longrightarrow> c \<in> set hexmap \<or> sp \<and> c = CHR '' ''"
proof (induction v arbitrary: first)
  case (Cons b v)
  have "hexmap ! unat (drop_bit 4 b) \<in> set hexmap" "hexmap ! unat (b AND 15) \<in> set hexmap"
    using nibbles [of b] by (simp_all add: nth_mem del: One_nat_def)
  then show ?case using Cons.prems Cons.IH [of False] by (auto split: if_splits)
qed simp

lemma HexStr_no_NUL: "c_str (HexStr_loop sp first v) = HexStr_loop sp first v"
proof -
  have "CHR 0x00 \<notin> set (HexStr_loop sp first v)"
    using HexStr_digits [of "CHR 0x00" sp first v] hexmap_digit [of "CHR 0x00"] by auto
  then show ?thesis unfolding c_str_def by (subst takeWhile_eq_all_conv) auto
qed

lemma ParseHex_loop_HexStr: "ParseHex_loop (HexStr_loop sp first v) = v"
proof (induction sp first v rule: HexStr_loop.induct)
  case (1 sp first)
  show ?case by (simp add: ParseHex_loop.simps char_at_def)
next
  case (2 sp first b v)
  have s: "dropWhile isspace (HexStr_loop sp first (b # v)) =
      hexmap ! (unat b div 16) # hexmap ! (unat b mod 16) # HexStr_loop sp False v"
    using nibbles [of b] hexdigit_not_space(1) [of "unat b div 16"] by (simp add: isspace_def)
  show ?case using 2 nibbles(1,2) [of b] join_nibbles(2) [of b]
    unfolding ParseHex_loop.simps [of "HexStr_loop sp first (b # v)"] s Let_def
    by (simp add: char_at_def hexdigit_nibble)
qed

lemma IsHex_HexStr: "IsHex (HexStr v False) \<longleftrightarrow> v \<noteq> []"
proof -
  have "\<not> HexDigit c < 0" if "c \<in> set (HexStr v False)" for c
  proof -
    have "c \<in> set hexmap" using that HexStr_digits [of c False True v] by (simp add: HexStr_def)
    then obtain i where "i < 16" "hexmap ! i = c" unfolding in_set_conv_nth length_alphabets by blast
    then show ?thesis using hexdigit_nibble [of i] by simp
  qed
  moreover have "length (HexStr_loop False f v) = 2 * length v" for f by (induction v arbitrary: f) simp_all
  ultimately show ?thesis by (simp add: IsHex_def HexStr_def)
qed

section \<open>Comparison\<close>

definition TimingResistantEqual :: "bytes \<Rightarrow> bytes \<Rightarrow> bool" where
  "TimingResistantEqual a b =
     (if length b = 0 then length a = 0
      else foldl (\<lambda>accumulator i. accumulator OR ucast (a ! i XOR b ! (i mod length b)))
             (word_of_nat (length a) XOR word_of_nat (length b) :: u64) [0..<length a] = 0)"

lemma xor_eq_0: "a XOR b = 0 \<longleftrightarrow> a = (b :: 'a::len word)"
  by (auto simp: bit_eq_iff bit_xor_iff)

lemma foldl_or_eq_0: "foldl (\<lambda>acc i. acc OR f i) (w :: u64) xs = 0 \<longleftrightarrow> w = 0 \<and> (\<forall>i \<in> set xs. f i = 0)"
  by (induction xs arbitrary: w) (auto simp: or_eq_0_iff)

lemma ucast_byte_eq_0: "(ucast (x :: byte) :: u64) = 0 \<longleftrightarrow> x = 0"
proof
  assume "(ucast x :: u64) = 0"
  moreover have "unat x < 2 ^ 64" using unat_lt2p [of x] by simp
  then have "unat (ucast x :: u64) = unat x" by (simp add: unsigned_ucast_eq take_bit_nat_eq_self)
  ultimately show "x = 0" by (simp add: unsigned_eq_0_iff)
qed simp

lemma TimingResistantEqual_eq:
  assumes "length a < 2 ^ 64" "length b < 2 ^ 64"
  shows "TimingResistantEqual a b \<longleftrightarrow> a = b"
proof (cases "b = []")
  case False
  have len: "(word_of_nat (length a) XOR word_of_nat (length b) :: u64) = 0 \<longleftrightarrow> length a = length b"
  proof -
    have "unat (word_of_nat n :: u64) = n" if "n < 2 ^ 64" for n using that by (simp add: unsigned_of_nat take_bit_nat_eq_self)
    then show ?thesis using assms by (metis xor_eq_0)
  qed
  have all: "(\<forall>i \<in> set [0..<length a]. (ucast (a ! i XOR b ! (i mod length b)) :: u64) = 0) \<longleftrightarrow> (\<forall>i < length a. a ! i = b ! (i mod length b))"
    by (simp add: ucast_byte_eq_0 xor_eq_0 Ball_def)
  have "length a = length b \<and> (\<forall>i < length a. a ! i = b ! (i mod length b)) \<longleftrightarrow> a = b"
    unfolding list_eq_iff_nth_eq by (metis mod_less)
  then show ?thesis unfolding TimingResistantEqual_def foldl_or_eq_0 len all using False by simp
qed (simp add: TimingResistantEqual_def)

text \<open>
  C22. Decoding inverts encoding: for every byte string, base64 and base32 text is valid and decodes to the
  bytes, the hexadecimal dump (with or without spaces) parses to the bytes and is recognised as hexadecimal when
  it is not empty, and a blob is restored from its hexadecimal form, with or without the prefix 0x.
\<close>

theorem text_codecs_roundtrip:
  "DecodeBase64 (EncodeBase64 v) = (v, False) \<and> DecodeBase32 (EncodeBase32 v) = (v, False) \<and>
   ParseHex (HexStr v sp) = v \<and> (IsHex (HexStr v False) \<longleftrightarrow> v \<noteq> []) \<and>
   SetHex (length v) (GetHex v) = v \<and> SetHex (length v) (''0x'' @ GetHex v) = v"
  using base64_roundtrip base32_roundtrip ParseHex_loop_HexStr [of sp True v] IsHex_HexStr SetHex_GetHex [of "[]" v] SetHex_GetHex [of "''0x''" v]
  by (simp add: ParseHex_def HexStr_def HexStr_no_NUL)

end
