(* ===== verification/Parse_Numbers.thy ===== *)
theory Parse_Numbers
  imports Transaction Str_Encodings
begin

text \<open>
  Decimal numbers in text: the integer and fixed point parsers of \<^verbatim>\<open>utilstrencodings.cpp\<close>, its \<^verbatim>\<open>itostr\<close> and
  \<^verbatim>\<open>i64tostr\<close>, and the amounts of \<^verbatim>\<open>utilmoneystr.cpp\<close>. \<open>dec_str\<close> and \<open>strtol\<close> are the decimal formats and the
  \<^verbatim>\<open>strtol\<close> family of the C library: blanks, an optional sign, digits; a value out of range is clamped and reported.
\<close>

fun dec_str :: "nat \<Rightarrow> string" where
  "dec_str n = (if n < 10 then [char_of (48 + n)] else dec_str (n div 10) @ [char_of (48 + n mod 10)])"

declare dec_str.simps [simp del]

definition dec_int :: "int \<Rightarrow> string" where
  "dec_int n = (if n < 0 then ''-'' @ dec_str (nat (- n)) else dec_str (nat n))"

definition dec_pad :: "nat \<Rightarrow> nat \<Rightarrow> string" where
  "dec_pad w n = replicate (w - length (dec_str n)) (CHR ''0'') @ dec_str n"

definition digits_value :: "string \<Rightarrow> int" where
  "digits_value ds = foldl (\<lambda>v c. 10 * v + digit_value c) 0 ds"

definition strtol :: "int \<Rightarrow> int \<Rightarrow> string \<Rightarrow> int \<times> bool \<times> string" where
  "strtol lo hi str =
     (let p = dropWhile isspace str; neg = (char_at p 0 = CHR ''-'');
          p = (if neg \<or> char_at p 0 = CHR ''+'' then drop 1 p else p);
          ds = takeWhile isdigit p; endp = dropWhile isdigit p;
          v = (if neg then - digits_value ds else digits_value ds)
      in if ds = [] then (0, False, str)
         else if v < lo then (lo, True, endp)
         else if v > hi then (hi, True, endp)
         else (v, False, endp))"

definition strtoul :: "int \<Rightarrow> string \<Rightarrow> int \<times> bool \<times> string" where
  "strtoul hi str =
     (let p = dropWhile isspace str; neg = (char_at p 0 = CHR ''-'');
          p = (if neg \<or> char_at p 0 = CHR ''+'' then drop 1 p else p);
          ds = takeWhile isdigit p; endp = dropWhile isdigit p;
          v = digits_value ds
      in if ds = [] then (0, False, str)
         else if v > hi then (hi, True, endp)
         else (if neg then (- v) mod (hi + 1) else v, False, endp))"

section \<open>Integers\<close>

definition itostr :: "int \<Rightarrow> string" where
  "itostr n = dec_int n"

definition i64tostr :: "int \<Rightarrow> string" where
  "i64tostr n = dec_int n"

definition atoi64 :: "string \<Rightarrow> int" where
  "atoi64 str = fst (strtol int64_min int64_max (c_str str))"

definition ParsePrechecks :: "string \<Rightarrow> bool" where
  "ParsePrechecks str =
     (if str = [] then False
      else if length str \<ge> 1 \<and> (isspace (str ! 0) \<or> isspace (str ! (length str - 1))) then False
      else if length str \<noteq> length (c_str str) then False
      else True)"

text \<open>
  The return value and what is stored through \<^verbatim>\<open>out\<close>, which is stored before the range is known.
  \<^verbatim>\<open>long\<close> has 64 bits.
\<close>

definition ParseInt32 :: "string \<Rightarrow> bool \<times> int option" where
  "ParseInt32 str =
     (if \<not> ParsePrechecks str then (False, None)
      else let (n, errno, endp) = strtol int64_min int64_max (c_str str)
           in (endp = [] \<and> \<not> errno \<and> n \<ge> - (2 ^ 31) \<and> n \<le> 2 ^ 31 - 1, Some (signed_take_bit 31 n)))"

definition ParseInt64 :: "string \<Rightarrow> bool \<times> int option" where
  "ParseInt64 str =
     (if \<not> ParsePrechecks str then (False, None)
      else let (n, errno, endp) = strtol int64_min int64_max (c_str str)
           in (endp = [] \<and> \<not> errno \<and> n \<ge> int64_min \<and> n \<le> int64_max, Some n))"

definition ParseUInt32 :: "string \<Rightarrow> bool \<times> int option" where
  "ParseUInt32 str =
     (if \<not> ParsePrechecks str then (False, None)
      else if length str \<ge> 1 \<and> str ! 0 = CHR ''-'' then (False, None)
      else let (n, errno, endp) = strtoul (2 ^ 64 - 1) (c_str str)
           in (endp = [] \<and> \<not> errno \<and> n \<le> 2 ^ 32 - 1, Some (n mod 2 ^ 32)))"

definition ParseUInt64 :: "string \<Rightarrow> bool \<times> int option" where
  "ParseUInt64 str =
     (if \<not> ParsePrechecks str then (False, None)
      else if length str \<ge> 1 \<and> str ! 0 = CHR ''-'' then (False, None)
      else let (n, errno, endp) = strtoul (2 ^ 64 - 1) (c_str str)
           in (endp = [] \<and> \<not> errno \<and> n \<le> 2 ^ 64 - 1, Some n))"

section \<open>Amounts\<close>

text \<open>
  \<^verbatim>\<open>FormatMoney\<close> negates the amount, which faults at the least value, and cuts off zeros while the character
  two places to the left is a digit.
\<close>

fun trim_zeros :: "string \<Rightarrow> nat \<Rightarrow> nat option" where
  "trim_zeros str i =
     (if str ! i = CHR ''0''
      then if i < 2 then None
           else if isdigit (str ! (i - 2)) then map_option Suc (trim_zeros str (i - 1)) else Some 0
      else Some 0)"

declare trim_zeros.simps [simp del]

definition FormatMoney :: "CAmount \<Rightarrow> string option" where
  "FormatMoney n = do {
     n_abs \<leftarrow> (if sint n > 0 then Some (sint n) else int64 (- sint n));
     let quotient = n_abs div COIN;
     let remainder = n_abs mod COIN;
     let str = dec_int quotient @ ''.'' @ dec_pad 8 (nat remainder);
     nTrim \<leftarrow> trim_zeros str (length str - 1);
     let str = take (length str - nTrim) str;
     Some (if sint n < 0 then ''-'' @ str else str)
   }"

fun money_units :: "int \<Rightarrow> int \<Rightarrow> string \<Rightarrow> int \<times> string" where
  "money_units nMult nUnits [] = (nUnits, [])"
| "money_units nMult nUnits (c # p) =
     (if isdigit c \<and> nMult > 0 then money_units (nMult div 10) (nUnits + nMult * digit_value c) p else (nUnits, c # p))"

fun money_whole :: "string \<Rightarrow> string \<Rightarrow> (string \<times> int \<times> string) option" where
  "money_whole strWhole [] = Some (strWhole, 0, [])"
| "money_whole strWhole (c # p) =
     (if c = CHR ''.'' then let (nUnits, p) = money_units (CENT * 10) 0 p in Some (strWhole, nUnits, p)
      else if isspace c then Some (strWhole, 0, c # p)
      else if \<not> isdigit c then None
      else money_whole (strWhole @ [c]) p)"

definition ParseMoney :: "string \<Rightarrow> int option" where
  "ParseMoney str = do {
     (strWhole, nUnits, p) \<leftarrow> money_whole [] (dropWhile isspace (c_str str));
     if \<exists>c \<in> set p. \<not> isspace c then None
     else if length strWhole > 10 then None
     else if nUnits < 0 \<or> nUnits > COIN then None
     else Some (atoi64 strWhole * COIN + nUnits)
   }"

section \<open>Digits\<close>

lemma digit_char:
  assumes "d < 10"
  shows "isdigit (char_of (48 + d :: nat))" "digit_value (char_of (48 + d :: nat)) = int d"
proof -
  have n: "of_char (char_of (48 + d :: nat)) = 48 + d" using assms by simp
  have i: "of_char (char_of (48 + d :: nat)) = (48 + int d)" using n by (metis of_nat_of_char of_nat_add of_nat_numeral)
  show "isdigit (char_of (48 + d :: nat))" unfolding isdigit_def n using assms by simp
  show "digit_value (char_of (48 + d :: nat)) = int d" unfolding digit_value_def i by simp
qed

lemma isdigit_plain: "isdigit c \<Longrightarrow> \<not> isspace c \<and> c \<noteq> CHR ''-'' \<and> c \<noteq> CHR ''+'' \<and> c \<noteq> CHR ''.'' \<and> c \<noteq> CHR 0x00"
  by (auto simp: isdigit_def isspace_def)

lemma dec_str_digits: "c \<in> set (dec_str n) \<Longrightarrow> isdigit c"
proof (induction n rule: dec_str.induct)
  case (1 n)
  then show ?case using digit_char(1) [of n] digit_char(1) [of "n mod 10"]
    by (subst (asm) dec_str.simps) (auto split: if_splits)
qed

lemma dec_str_not_Nil [simp]: "dec_str n \<noteq> []"
  by (subst dec_str.simps) simp

lemma digits_value_Nil [simp]: "digits_value [] = 0"
  by (simp add: digits_value_def)

lemma digits_value_append: "digits_value (xs @ ys) = digits_value xs * 10 ^ length ys + digits_value ys"
proof (induction ys rule: rev_induct)
  case (snoc y ys)
  have s: "digits_value (zs @ [c]) = 10 * digits_value zs + digit_value c" for zs c by (simp add: digits_value_def)
  show ?case using snoc s [of "xs @ ys" y] s [of ys y] by (simp add: algebra_simps)
qed simp

lemma digits_value_single [simp]: "digits_value [c] = digit_value c"
  by (simp add: digits_value_def)

lemma digits_value_dec_str: "digits_value (dec_str n) = int n"
proof (induction n rule: dec_str.induct)
  case (1 n)
  show ?case
  proof (cases "n < 10")
    case True
    then show ?thesis by (subst dec_str.simps) (simp add: digit_char)
  next
    case False
    then have "digits_value (dec_str n) = int (n div 10) * 10 + int (n mod 10)"
      using 1 digit_char(2) [of "n mod 10"] by (subst dec_str.simps) (simp add: digits_value_append)
    then show ?thesis by (metis div_mult_mod_eq of_nat_add of_nat_mult of_nat_numeral)
  qed
qed

lemma length_dec_str: "n < 10 ^ k \<Longrightarrow> 0 < k \<Longrightarrow> length (dec_str n) \<le> k"
proof (induction n arbitrary: k rule: dec_str.induct)
  case (1 n)
  show ?case
  proof (cases "n < 10")
    case True
    then show ?thesis using 1(3) by (subst dec_str.simps) simp
  next
    case False
    then obtain j where k: "k = Suc j" "0 < j" using 1(2,3) by (cases k; cases "k - 1") auto
    then have "length (dec_str (n div 10)) \<le> j" using 1(1) [OF False, of j] 1(2) by (simp add: less_mult_imp_div_less mult.commute)
    then show ?thesis using False k by (subst dec_str.simps) simp
  qed
qed

lemma digits_value_zeros [simp]: "digits_value (replicate k (CHR ''0'') @ ds) = digits_value ds"
proof -
  have "digits_value (replicate k (CHR ''0'')) = 0"
    by (induction k) (simp_all add: digits_value_append [of "[CHR ''0'']", simplified] digit_value_def)
  then show ?thesis by (simp add: digits_value_append)
qed

lemma dec_int_chars: "c \<in> set (dec_int n) \<Longrightarrow> isdigit c \<or> c = CHR ''-''"
  by (auto simp: dec_int_def dest: dec_str_digits split: if_splits)

lemma c_str_plain: "(\<And>c. c \<in> set s \<Longrightarrow> c \<noteq> CHR 0x00) \<Longrightarrow> c_str s = s"
  unfolding c_str_def by (subst takeWhile_eq_all_conv) auto

lemma c_str_dec_int [simp]: "c_str (dec_int n) = dec_int n"
  using dec_int_chars isdigit_plain by (intro c_str_plain) fastforce

lemma dec_int_not_Nil [simp]: "dec_int n \<noteq> []"
  by (simp add: dec_int_def)

lemma dec_int_not_space: "c \<in> set (dec_int n) \<Longrightarrow> \<not> isspace c"
  using dec_int_chars [of c n] isdigit_plain [of c] by (auto simp: isspace_def)

lemma ParsePrechecks_dec_int: "ParsePrechecks (dec_int n)"
  using dec_int_not_space [OF nth_mem, of 0 n] dec_int_not_space [OF nth_mem, of "length (dec_int n) - 1" n]
  by (simp add: ParsePrechecks_def)

lemma takeWhile_digits: "(\<And>c. c \<in> set s \<Longrightarrow> isdigit c) \<Longrightarrow> takeWhile isdigit s = s \<and> dropWhile isdigit s = []"
  by (simp add: takeWhile_eq_all_conv dropWhile_eq_Nil_conv)

lemma dec_str_split [simp]: "takeWhile isdigit (dec_str n) = dec_str n" "dropWhile isdigit (dec_str n) = []"
  using takeWhile_digits [of "dec_str n"] dec_str_digits by blast+

lemma char_at_0: "s \<noteq> [] \<Longrightarrow> char_at s 0 = hd s"
  by (simp add: char_at_def hd_conv_nth)

lemma hd_dec_str: "isdigit (hd (dec_str n))"
  by (rule dec_str_digits [of _ n]) simp

lemma strtol_dec_int:
  assumes "lo \<le> n" "n \<le> hi"
  shows "strtol lo hi (dec_int n) = (n, False, [])"
proof (cases "n < 0")
  case True
  let ?m = "nat (- n)"
  have "dropWhile isspace (dec_int n) = CHR ''-'' # dec_str ?m" using True by (simp add: dec_int_def isspace_def)
  then show ?thesis
    using assms True    by (simp add: strtol_def char_at_def digits_value_dec_str Let_def)
next
  case False
  let ?m = "nat n"
  have "dropWhile isspace (dec_str ?m) = dec_str ?m" using hd_dec_str [of ?m] isdigit_plain by (cases "dec_str ?m") auto
  then show ?thesis
    using assms False isdigit_plain [OF hd_dec_str, of ?m]
    by (simp add: strtol_def dec_int_def char_at_0 digits_value_dec_str Let_def)
qed

lemma strtoul_dec_int:
  assumes "0 \<le> n" "n \<le> hi"
  shows "strtoul hi (dec_int n) = (n, False, [])"
proof -
  let ?m = "nat n"
  have "dropWhile isspace (dec_str ?m) = dec_str ?m" using hd_dec_str [of ?m] isdigit_plain by (cases "dec_str ?m") auto
  then show ?thesis
    using assms isdigit_plain [OF hd_dec_str, of ?m]
    by (simp add: strtoul_def dec_int_def char_at_0 digits_value_dec_str Let_def)
qed

lemma dec_int_nonneg_first: "0 \<le> n \<Longrightarrow> dec_int n ! 0 \<noteq> CHR ''-''"
  using isdigit_plain [OF hd_dec_str, of "nat n"] by (simp add: dec_int_def hd_conv_nth)

section \<open>Amounts are restored\<close>

lemma dec_pad_digits: "c \<in> set (dec_pad w n) \<Longrightarrow> isdigit c"
  by (auto simp: dec_pad_def isdigit_def [of "CHR ''0''"] dest: dec_str_digits)

lemma length_dec_pad: "n < 10 ^ w \<Longrightarrow> 0 < w \<Longrightarrow> length (dec_pad w n) = w"
  using length_dec_str [of n w] by (simp add: dec_pad_def)

lemma digits_value_dec_pad: "digits_value (dec_pad w n) = int n"
  by (simp add: dec_pad_def digits_value_dec_str)

lemma trim_zeros_decimals:
  assumes "\<And>c. c \<in> set p \<Longrightarrow> isdigit c" "2 \<le> k" "k \<le> length p"
  shows "\<exists>t. trim_zeros (q @ ''.'' @ p) (length q + k) = Some t \<and> t \<le> k - 2 \<and> (\<forall>j. k - t \<le> j \<and> j < k \<longrightarrow> p ! j = CHR ''0'')"
  using assms(2,3)
proof (induction k rule: nat_induct_at_least)
  case base
  have "(q @ ''.'' @ p) ! (length q + 2) = p ! 1" "(q @ ''.'' @ p) ! length q = CHR ''.''" by (simp_all add: nth_append)
  moreover have "\<not> isdigit (CHR ''.'')" by (simp add: isdigit_def)
  ultimately show ?case by (subst trim_zeros.simps) auto
next
  case (Suc k)
  have n: "(q @ ''.'' @ p) ! (length q + Suc k) = p ! k" "(q @ ''.'' @ p) ! (length q + Suc k - 2) = p ! (k - 2)"
  proof -
    obtain m where "k = Suc (Suc m)" using Suc(1) by (metis add_2_eq_Suc le_Suc_ex)
    then show "(q @ ''.'' @ p) ! (length q + Suc k) = p ! k" "(q @ ''.'' @ p) ! (length q + Suc k - 2) = p ! (k - 2)"
      by (simp_all add: nth_append)
  qed
  have d: "isdigit (p ! (k - 2))" using assms(1) Suc(1,3) by simp
  obtain t where t: "trim_zeros (q @ ''.'' @ p) (length q + k) = Some t" "t \<le> k - 2" "\<forall>j. k - t \<le> j \<and> j < k \<longrightarrow> p ! j = CHR ''0''"
    using Suc by force
  show ?case
  proof (cases "p ! k = CHR ''0''")
    case True
    have "trim_zeros (q @ ''.'' @ p) (length q + Suc k) = Some (Suc t)"
      using True n d t(1) Suc(1) by (subst trim_zeros.simps) simp
    moreover have "\<forall>j. Suc k - Suc t \<le> j \<and> j < Suc k \<longrightarrow> p ! j = CHR ''0''" using t(3) True by (auto simp: less_Suc_eq)
    ultimately show ?thesis using t(2) Suc(1) by (intro exI [of _ "Suc t"]) (simp add: le_diff_conv2)
  next
    case False
    then have "trim_zeros (q @ ''.'' @ p) (length q + Suc k) = Some 0" using n by (subst trim_zeros.simps) simp
    then show ?thesis by auto
  qed
qed

lemma money_units_digits:
  "(\<And>c. c \<in> set f \<Longrightarrow> isdigit c) \<Longrightarrow> length f \<le> Suc k \<Longrightarrow>
   money_units (10 ^ k) u f = (u + digits_value f * 10 ^ (Suc k - length f), [])"
proof (induction f arbitrary: u k)
  case (Cons c f)
  have v: "digits_value (c # f) = digit_value c * 10 ^ length f + digits_value f" using digits_value_append [of "[c]" f] by simp
  show ?case
  proof (cases k)
    case 0
    then have "f = []" using Cons.prems(2) by simp
    then show ?thesis using 0 Cons.prems(1) by simp
  next
    case (Suc j)
    then have "10 ^ k div 10 = (10 :: int) ^ j" by simp
    then have e: "money_units (10 ^ k) u (c # f) = (u + 10 ^ k * digit_value c + digits_value f * 10 ^ (Suc j - length f), [])"
      using Cons Suc by simp
    have p: "(10 :: int) ^ k = 10 ^ length f * 10 ^ (Suc j - length f)" using Cons.prems(2) Suc by (simp flip: power_add)
    have "Suc k - length (c # f) = Suc j - length f" using Suc by simp
    then show ?thesis unfolding e unfolding v p by (simp add: algebra_simps)
  qed
qed simp

lemma money_whole_digits:
  "(\<And>c. c \<in> set w \<Longrightarrow> isdigit c) \<Longrightarrow>
   money_whole v (w @ CHR ''.'' # f) = (let (u, p) = money_units (CENT * 10) 0 f in Some (v @ w, u, p))"
proof (induction w arbitrary: v)
  case (Cons c w)
  then show ?case using isdigit_plain [of c] by simp
qed simp

lemma digits_value_bound: "(\<And>c. c \<in> set ds \<Longrightarrow> isdigit c) \<Longrightarrow> 0 \<le> digits_value ds \<and> digits_value ds < 10 ^ length ds"
proof (induction ds rule: rev_induct)
  case (snoc c ds)
  have "0 \<le> digit_value c" "digit_value c < 10"
    using snoc.prems [of c] of_nat_of_char [where 'a = int and c = c] by (auto simp: isdigit_def digit_value_def)
  moreover have "0 \<le> digits_value ds" "digits_value ds < 10 ^ length ds" using snoc by simp_all
  ultimately show ?case by (simp add: digits_value_append)
qed simp

lemma length_dec_str_ge: "length (dec_str n) \<le> k \<Longrightarrow> n < 10 ^ k"
proof -
  assume l: "length (dec_str n) \<le> k"
  have "int n < 10 ^ length (dec_str n)"
    using digits_value_bound [of "dec_str n"] dec_str_digits by (simp add: digits_value_dec_str)
  also have "\<dots> \<le> 10 ^ k" using l by (intro power_increasing) simp_all
  finally show "n < 10 ^ k" by (metis of_nat_less_iff of_nat_numeral of_nat_power)
qed

text \<open>The text of an amount: digits, a point, and the hundred-millionths without some of their last zeros.\<close>

lemma FormatMoney_text:
  assumes "sint n \<noteq> int64_min"
  defines "a \<equiv> \<bar>sint n\<bar>"
  obtains f where "FormatMoney n = Some ((if sint n < 0 then ''-'' else []) @ dec_int (a div COIN) @ CHR ''.'' # f)"
    "\<And>c. c \<in> set f \<Longrightarrow> isdigit c" "length f \<le> 8" "digits_value f * 10 ^ (8 - length f) = a mod COIN"
proof -
  let ?p = "dec_pad 8 (nat (a mod COIN))" and ?q = "dec_int (a div COIN)"
  let ?s = "?q @ ''.'' @ ?p"
  have r: "0 \<le> a mod COIN" "a mod COIN < 10 ^ 8" by (simp_all add: COIN_def)
  then have l: "length ?p = 8" by (intro length_dec_pad) (simp_all add: nat_less_iff)
  obtain t where t: "trim_zeros ?s (length ?q + 8) = Some t" "t \<le> 6" "\<forall>j. 8 - t \<le> j \<and> j < 8 \<longrightarrow> ?p ! j = CHR ''0''"
    using trim_zeros_decimals [of ?p 8 ?q] dec_pad_digits l by auto
  let ?f = "take (8 - t) ?p"
  have "drop (8 - t) ?p = replicate t (CHR ''0'')" using t(2,3) l
    by (intro nth_equalityI) (auto intro!: t(3) [rule_format])
  then have "?p = ?f @ replicate t (CHR ''0'')" by (metis append_take_drop_id)
  then have "digits_value ?p = digits_value ?f * 10 ^ t"
    using digits_value_append [of ?f "replicate t (CHR ''0'')"] digits_value_zeros [of t "[]"] by simp
  then have v: "digits_value ?f * 10 ^ (8 - length ?f) = a mod COIN"
    using r t(2) l by (simp add: digits_value_dec_pad)
  have ab: "(if sint n > 0 then Some (sint n) else int64 (- sint n)) = Some a"
    using assms(1) sint_ge [of n] sint_lt [of n] by (auto simp: a_def int64_def int64_min_def int64_max_def)
  have "take (length ?s - t) ?s = ?q @ CHR ''.'' # ?f" using t(2) l by (simp add: take_Cons')
  then have "FormatMoney n = Some ((if sint n < 0 then ''-'' else []) @ ?q @ CHR ''.'' # ?f)"
    unfolding FormatMoney_def ab using t(1) l by (simp add: Let_def)
  then show thesis using that [of ?f] dec_pad_digits [OF in_set_takeD] v l by simp
qed

lemma ParseMoney_text:
  assumes "0 \<le> q" "\<And>c. c \<in> set f \<Longrightarrow> isdigit c" "length f \<le> 8" "q \<le> int64_max"
  shows "ParseMoney (dec_int q @ CHR ''.'' # f) =
    (if q < 10 ^ 10 then Some (q * COIN + digits_value f * 10 ^ (8 - length f)) else None)"
proof -
  let ?w = "dec_str (nat q)" and ?u = "digits_value f * 10 ^ (8 - length f)"
  have q: "dec_int q = ?w" using assms(1) by (simp add: dec_int_def)
  have c: "c_str (?w @ CHR ''.'' # f) = ?w @ CHR ''.'' # f"
    using dec_str_digits assms(2) isdigit_plain by (intro c_str_plain) fastforce
  have d: "dropWhile isspace (?w @ CHR ''.'' # f) = ?w @ CHR ''.'' # f"
    using isdigit_plain [OF hd_dec_str, of "nat q"] by (cases "?w") auto
  have w: "money_whole [] (?w @ CHR ''.'' # f) = Some (?w, ?u, [])"
    using money_whole_digits [of ?w "[]" f] dec_str_digits money_units_digits [of f 7 0] assms(2,3) by (simp add: CENT_def)
  have "digits_value f < 10 ^ length f" "0 \<le> digits_value f" using digits_value_bound [OF assms(2)] by auto
  then have "?u < 10 ^ length f * 10 ^ (8 - length f)" "0 \<le> ?u" by simp_all
  then have u: "0 \<le> ?u" "?u < COIN" using assms(3) by (simp_all add: COIN_def flip: power_add)
  have a: "atoi64 ?w = q"
    using strtol_dec_int [of int64_min q int64_max] assms(1,4) c_str_dec_int [of q]
    by (simp add: atoi64_def q int64_min_def)
  have "length ?w \<le> 10 \<longleftrightarrow> q < 10 ^ 10"
    using length_dec_str [of "nat q" 10] length_dec_str_ge [of "nat q" 10] assms(1) by (auto simp: nat_less_iff)
  then have "length ?w > 10 \<longleftrightarrow> \<not> q < 10 ^ 10" by linarith
  then show ?thesis unfolding q ParseMoney_def c d w using u a by simp
qed

text \<open>
  C29. Decimal text is read back. Every 32 or 64 bit integer is restored by the signed and, where it is not
  negative, by the unsigned parser of its width. Every amount but the least can be formatted, and parsing the
  text restores the amount where it is not negative and has at most ten digits before the point, and fails otherwise.
\<close>

theorem decimal_roundtrip:
  assumes "sint n \<noteq> int64_min"
  shows "(- (2 ^ 31) \<le> i \<and> i < 2 ^ 31 \<longrightarrow> ParseInt32 (itostr i) = (True, Some i)) \<and>
    (int64_min \<le> i \<and> i \<le> int64_max \<longrightarrow> ParseInt64 (i64tostr i) = (True, Some i)) \<and>
    (0 \<le> i \<and> i < 2 ^ 31 \<longrightarrow> ParseUInt32 (itostr i) = (True, Some i)) \<and>
    (0 \<le> i \<and> i \<le> int64_max \<longrightarrow> ParseUInt64 (i64tostr i) = (True, Some i)) \<and>
    (\<exists>str. FormatMoney n = Some str \<and>
      ParseMoney str = (if 0 \<le> sint n \<and> sint n < 10 ^ 10 * COIN then Some (sint n) else None))"
proof -
  let ?a = "\<bar>sint n\<bar>"
  obtain f where f: "FormatMoney n = Some ((if sint n < 0 then ''-'' else []) @ dec_int (?a div COIN) @ CHR ''.'' # f)"
    "\<And>c. c \<in> set f \<Longrightarrow> isdigit c" "length f \<le> 8" "digits_value f * 10 ^ (8 - length f) = ?a mod COIN"
    using FormatMoney_text [OF assms] by metis
  have x: "0 \<le> x div COIN \<and> x div COIN \<le> x \<and> (x div COIN < 10 ^ 10 \<longleftrightarrow> x < 10 ^ 10 * COIN)" if "0 \<le> x" for x
  proof -
    define d r where "d = x div COIN" and "r = x mod COIN"
    have "x = d * COIN + r" "0 \<le> r" "r < COIN" by (simp_all add: d_def r_def COIN_def)
    then show ?thesis using that unfolding d_def [symmetric] COIN_def by auto
  qed
  have "?a \<le> int64_max" using assms sint_ge [of n] sint_lt [of n] by (simp add: int64_min_def int64_max_def)
  then have le: "?a div COIN \<le> int64_max" using x [of ?a] by linarith
  have ge: "0 \<le> ?a div COIN" and lt: "?a div COIN < 10 ^ 10 \<longleftrightarrow> ?a < 10 ^ 10 * COIN"
    using x [of ?a] by simp_all
  have "ParseMoney (''-'' @ s) = None" for s by (simp add: ParseMoney_def c_str_def isspace_def isdigit_def)
  then have m: "\<exists>str. FormatMoney n = Some str \<and>
      ParseMoney str = (if 0 \<le> sint n \<and> sint n < 10 ^ 10 * COIN then Some (sint n) else None)"
    using f(1) ParseMoney_text [OF ge f(2,3) le] lt unfolding f(4) by (cases "sint n < 0") simp_all
  have "signed_take_bit 31 i = i" if "- (2 ^ 31) \<le> i" "i < 2 ^ 31" using that by (simp add: signed_take_bit_int_eq_self)
  then show ?thesis
    using m ParsePrechecks_dec_int [of i] dec_int_nonneg_first [of i]
      strtol_dec_int [of int64_min i int64_max] strtoul_dec_int [of i "2 ^ 64 - 1"]
    by (auto simp: ParseInt32_def ParseInt64_def ParseUInt32_def ParseUInt64_def itostr_def i64tostr_def int64_min_def int64_max_def)
qed

theorem decimal_roundtrip_witness:
  "ParseInt32 (itostr (- 7)) = (True, Some (- 7)) \<and>
   (\<exists>str. FormatMoney 150000000 = Some str \<and> ParseMoney str = Some 150000000)"
proof -
  have s: "sint (150000000 :: CAmount) = 150000000" by simp
  then have "sint (150000000 :: CAmount) \<noteq> int64_min" by (simp add: int64_min_def)
  from decimal_roundtrip [OF this, of "- 7", unfolded s] show ?thesis by (simp add: COIN_def)
qed

lemma FormatMoney_min: "FormatMoney (push_bit 63 1) = None"
  by code_simp

end
