(* ===== verification/Verify_Script.thy ===== *)
theory Verify_Script
  imports Interpreter Str_Encodings
begin

text \<open>
  The end of \<^verbatim>\<open>script/interpreter.cpp\<close>: the signature hash, the checker for a transaction and \<^verbatim>\<open>VerifyScript\<close>.

  A serializer is the list of its \<^verbatim>\<open>write\<close> calls, or \<open>None\<close> when it reads past the end of a vector. An iterator
  into a script is the rest of the script from it; \<^verbatim>\<open>unsigned int\<close> is \<open>u32\<close>, so that \<^verbatim>\<open>nIn+1\<close> wraps.
\<close>

section \<open>The transaction as a signature sees it\<close>

record CTransactionSignatureSerializer =
  ss_txTo :: CTransaction
  ss_scriptCode :: bytes
  ss_nIn :: u32
  fAnyoneCanPay :: bool
  fHashSingle :: bool
  fHashNone :: bool

definition CTransactionSignatureSerializer_ctor :: "CTransaction \<Rightarrow> bytes \<Rightarrow> u32 \<Rightarrow> int \<Rightarrow> CTransactionSignatureSerializer" where
  "CTransactionSignatureSerializer_ctor txToIn scriptCodeIn nInIn nHashTypeIn =
     \<lparr>ss_txTo = txToIn, ss_scriptCode = scriptCodeIn, ss_nIn = nInIn,
      fAnyoneCanPay = (nHashTypeIn AND uint SIGHASH_ANYONECANPAY \<noteq> 0),
      fHashSingle = (nHashTypeIn AND 0x1f = uint SIGHASH_SINGLE),
      fHashNone = (nHashTypeIn AND 0x1f = uint SIGHASH_NONE)\<rparr>"

text \<open>Where \<^verbatim>\<open>GetOp2\<close> leaves the iterator when it fails: after the bytes of the instruction that it has read.\<close>

fun GetOp2_stop :: "bytes \<Rightarrow> bytes" where
  "GetOp2_stop [] = []"
| "GetOp2_stop (opcode # pc) =
     (if opcode \<le> OP_PUSHDATA4 then (case GetOp2_size opcode pc of None \<Rightarrow> pc | Some (nSize, pc1) \<Rightarrow> pc1) else pc)"

text \<open>The second loop, with the last write.\<close>

function SerializeScriptCode_loop :: "bytes \<Rightarrow> bytes \<Rightarrow> bytes list" where
  "SerializeScriptCode_loop itBegin it =
     (case GetOp2 it of
        None \<Rightarrow> if itBegin \<noteq> [] then [take (length itBegin - length (GetOp2_stop it)) itBegin] else []
      | Some (opcode, vch, it') \<Rightarrow>
          if opcode = OP_CODESEPARATOR
          then take (length itBegin - length it' - 1) itBegin # SerializeScriptCode_loop it' it'
          else SerializeScriptCode_loop itBegin it')"
  by pat_completeness auto
termination
  by (relation "measure (\<lambda>(itBegin, it). length it)") (auto simp: GetOp2_shorter)

declare SerializeScriptCode_loop.simps [simp del]

definition SerializeScriptCode :: "CTransactionSignatureSerializer \<Rightarrow> bytes list" where
  "SerializeScriptCode s =
     WriteCompactSize (word_of_nat (length (ss_scriptCode s) - Find OP_CODESEPARATOR (ss_scriptCode s)))
     # SerializeScriptCode_loop (ss_scriptCode s) (ss_scriptCode s)"

definition SerializeInput :: "CTransactionSignatureSerializer \<Rightarrow> u32 \<Rightarrow> bytes list option" where
  "SerializeInput s nInput =
     (let nInput = (if fAnyoneCanPay s then ss_nIn s else nInput) in
      if unat nInput < length (vin (ss_txTo s)) then
        (let txin = vin (ss_txTo s) ! unat nInput in
         Some ([Serialize_COutPoint (prevout txin)] @
           (if nInput \<noteq> ss_nIn s then [Serialize_bytes []] else SerializeScriptCode s) @
           [ser_writedata32 (if nInput \<noteq> ss_nIn s \<and> (fHashSingle s \<or> fHashNone s) then 0 else nSequence txin)]))
      else None)"

definition SerializeOutput :: "CTransactionSignatureSerializer \<Rightarrow> u32 \<Rightarrow> bytes list option" where
  "SerializeOutput s nOutput =
     (if fHashSingle s \<and> nOutput \<noteq> ss_nIn s then Some [Serialize_CTxOut CTxOut_SetNull]
      else if unat nOutput < length (vout (ss_txTo s)) then Some [Serialize_CTxOut (vout (ss_txTo s) ! unat nOutput)]
      else None)"

text \<open>The writes of a loop that counts up to \<open>n\<close>.\<close>

fun write_each :: "(u32 \<Rightarrow> bytes list option) \<Rightarrow> nat list \<Rightarrow> bytes list option" where
  "write_each ser [] = Some []"
| "write_each ser (i # is) = do { w \<leftarrow> ser (word_of_nat i); ws \<leftarrow> write_each ser is; Some (w @ ws) }"

definition Serialize_sigtx :: "CTransactionSignatureSerializer \<Rightarrow> bytes list option" where
  "Serialize_sigtx s =
     (let nInputs = (if fAnyoneCanPay s then 1 else word_of_nat (length (vin (ss_txTo s))) :: u32);
          nOutputs = (if fHashNone s then 0 else if fHashSingle s then ss_nIn s + 1 else word_of_nat (length (vout (ss_txTo s))) :: u32)
      in do {
        ins \<leftarrow> write_each (SerializeInput s) [0..<unat nInputs];
        outs \<leftarrow> write_each (SerializeOutput s) [0..<unat nOutputs];
        Some ([ser_writedata32 (tx_nVersion (ss_txTo s)), WriteCompactSize (ucast nInputs)] @ ins @
              [WriteCompactSize (ucast nOutputs)] @ outs @ [ser_writedata32 (nLockTime (ss_txTo s))])
      })"

definition SignatureHash :: "bytes \<Rightarrow> bytes \<Rightarrow> CTransaction \<Rightarrow> u32 \<Rightarrow> int \<Rightarrow> uint256 option" where
  "SignatureHash junk scriptCode txTo nIn nHashType =
     (let one = uint256S ''0000000000000000000000000000000000000000000000000000000000000001'' in
      if unat nIn \<ge> length (vin txTo) then Some one
      else if nHashType AND 0x1f = uint SIGHASH_SINGLE \<and> unat nIn \<ge> length (vout txTo) then Some one
      else let txTmp = CTransactionSignatureSerializer_ctor txTo scriptCode nIn nHashType in do {
        ws \<leftarrow> Serialize_sigtx txTmp;
        SerializeHash junk (\<lambda>_ _. ws @ [ser_writedata32 (word_of_int nHashType)]) SER_GETHASH 0
      })"

section \<open>The checker for an input of a transaction\<close>

definition VerifySignature :: "('k, 's, 'r) secp256k1 \<Rightarrow> bytes \<Rightarrow> CPubKey \<Rightarrow> uint256 \<Rightarrow> bool option" where
  "VerifySignature ctx vchSig pubkey sighash = CPubKey_Verify ctx pubkey sighash vchSig"

definition TransactionSignatureChecker_CheckSig ::
  "('k, 's, 'r) secp256k1 \<Rightarrow> bytes \<Rightarrow> bytes \<Rightarrow> CTransaction \<Rightarrow> u32 \<Rightarrow> bytes \<Rightarrow> bytes \<Rightarrow> bytes \<Rightarrow> bool option" where
  "TransactionSignatureChecker_CheckSig ctx junk junkk txTo nIn vchSigIn vchPubKey scriptCode =
     (let pubkey = CPubKey_of junkk vchPubKey in
      if \<not> CPubKey_IsValid pubkey then Some False
      else if vchSigIn = [] then Some False
      else let nHashType = uint (last vchSigIn); vchSig = butlast vchSigIn in do {
        sighash \<leftarrow> SignatureHash junk scriptCode txTo nIn nHashType;
        ok \<leftarrow> VerifySignature ctx vchSig pubkey sighash;
        if \<not> ok then Some False else Some True
      })"

definition TransactionSignatureChecker_CheckLockTime :: "CTransaction \<Rightarrow> u32 \<Rightarrow> int \<Rightarrow> bool option" where
  "TransactionSignatureChecker_CheckLockTime txTo nIn n =
     (if \<not> ((uint (nLockTime txTo) < LOCKTIME_THRESHOLD \<and> n < LOCKTIME_THRESHOLD) \<or>
            (uint (nLockTime txTo) \<ge> LOCKTIME_THRESHOLD \<and> n \<ge> LOCKTIME_THRESHOLD)) then Some False
      else if n > uint (nLockTime txTo) then Some False
      else if unat nIn < length (vin txTo) then
        (if SEQUENCE_FINAL = nSequence (vin txTo ! unat nIn) then Some False else Some True)
      else None)"

definition TransactionSignatureChecker_CheckSequence :: "CTransaction \<Rightarrow> u32 \<Rightarrow> int \<Rightarrow> bool option" where
  "TransactionSignatureChecker_CheckSequence txTo nIn n =
     (if unat nIn < length (vin txTo) then
        (let txToSequence = uint (nSequence (vin txTo ! unat nIn)) in
         if tx_nVersion txTo < 2 then Some False
         else if txToSequence AND uint SEQUENCE_LOCKTIME_DISABLE_FLAG \<noteq> 0 then Some False
         else let nLockTimeMask = SEQUENCE_LOCKTIME_TYPE_FLAG OR SEQUENCE_LOCKTIME_MASK;
                  txToSequenceMasked = txToSequence AND uint nLockTimeMask;
                  nSequenceMasked = n AND uint nLockTimeMask;
                  flag = uint SEQUENCE_LOCKTIME_TYPE_FLAG in
           if \<not> ((txToSequenceMasked < flag \<and> nSequenceMasked < flag) \<or> (txToSequenceMasked \<ge> flag \<and> nSequenceMasked \<ge> flag))
           then Some False
           else if nSequenceMasked > txToSequenceMasked then Some False
           else Some True)
      else None)"

definition TransactionSignatureChecker ::
  "('k, 's, 'r) secp256k1 \<Rightarrow> bytes \<Rightarrow> bytes \<Rightarrow> CTransaction \<Rightarrow> u32 \<Rightarrow> SignatureChecker" where
  "TransactionSignatureChecker ctx junk junkk txTo nIn =
     \<lparr>CheckSig = TransactionSignatureChecker_CheckSig ctx junk junkk txTo nIn,
      CheckLockTime = TransactionSignatureChecker_CheckLockTime txTo nIn,
      CheckSequence = TransactionSignatureChecker_CheckSequence txTo nIn,
      CheckLowS = CPubKey_CheckLowS ctx\<rparr>"

text \<open>The checker for a transaction under construction, which it first copies.\<close>

definition MutableTransactionSignatureChecker ::
  "('k, 's, 'r) secp256k1 \<Rightarrow> bytes \<Rightarrow> bytes \<Rightarrow> CMutableTransaction \<Rightarrow> u32 \<Rightarrow> SignatureChecker option" where
  "MutableTransactionSignatureChecker ctx junk junkk txToIn nInIn = do {
     txTo \<leftarrow> CTransaction_of junk txToIn;
     Some (TransactionSignatureChecker ctx junk junkk txTo nInIn)
   }"

section \<open>VerifyScript\<close>

text \<open>The checks of the stack that a script leaves.\<close>

definition stack_true :: "bytes list \<Rightarrow> bytes list result" where
  "stack_true stk = (case stk of [] \<Rightarrow> set_error SCRIPT_ERR_EVAL_FALSE
     | x # _ \<Rightarrow> if CastToBool x = False then set_error SCRIPT_ERR_EVAL_FALSE else success stk)"

text \<open>The evaluation of the serialized script on top of the stack that the signature script has left.\<close>

definition VerifyScript_p2sh :: "bytes \<Rightarrow> bytes list \<Rightarrow> u32 \<Rightarrow> SignatureChecker \<Rightarrow> bytes list result" where
  "VerifyScript_p2sh sigScript stackCopy flags checker =
     (if \<not> IsPushOnly sigScript then set_error SCRIPT_ERR_SIG_PUSHONLY
      else case stackCopy of [] \<Rightarrow> None
        | pubKey2 # _ \<Rightarrow> ebind (popstack stackCopy) (\<lambda>stk. ebind (EvalScript stk pubKey2 flags checker) stack_true))"

definition VerifyScript :: "bytes \<Rightarrow> bytes \<Rightarrow> u32 \<Rightarrow> SignatureChecker \<Rightarrow> unit result" where
  "VerifyScript sigScript pubScript flags checker =
     (if flags AND SCRIPT_VERIFY_SIGPUSHONLY \<noteq> 0 \<and> \<not> IsPushOnly sigScript then set_error SCRIPT_ERR_SIG_PUSHONLY
      else
        ebind (EvalScript [] sigScript flags checker) (\<lambda>stk.
        let stackCopy = (if flags AND SCRIPT_VERIFY_P2SH \<noteq> 0 then stk else []) in
        ebind (EvalScript stk pubScript flags checker) (\<lambda>stk.
        ebind (stack_true stk) (\<lambda>stk.
        ebind (if flags AND SCRIPT_VERIFY_P2SH \<noteq> 0 \<and> IsPayToScriptHash pubScript
               then VerifyScript_p2sh sigScript stackCopy flags checker else success stk) (\<lambda>stk.
          if flags AND SCRIPT_VERIFY_CLEANSTACK \<noteq> 0
          then (if flags AND SCRIPT_VERIFY_P2SH \<noteq> 0
                then (if length stk \<noteq> 1 then set_error SCRIPT_ERR_CLEANSTACK else success ())
                else None)
          else success ())))))"

section \<open>No fault\<close>

lemma write_each_safe: "(\<And>i. i \<in> set is \<Longrightarrow> ser (word_of_nat i) \<noteq> None) \<Longrightarrow> write_each ser is \<noteq> None"
proof (induction "is")
  case (Cons i js)
  then have "ser (word_of_nat i) \<noteq> None" "write_each ser js \<noteq> None" by simp_all
  then show ?case by auto
qed simp

lemma Serialize_sigtx_safe:
  assumes "unat (ss_nIn s) < length (vin (ss_txTo s))" "fHashSingle s \<Longrightarrow> unat (ss_nIn s) < length (vout (ss_txTo s))"
  shows "Serialize_sigtx s \<noteq> None"
proof -
  let ?nin = "if fAnyoneCanPay s then 1 else word_of_nat (length (vin (ss_txTo s))) :: u32"
  let ?nout = "if fHashNone s then 0 else if fHashSingle s then ss_nIn s + 1 else word_of_nat (length (vout (ss_txTo s))) :: u32"
  have idx: "unat (word_of_nat i :: u32) < length xs" if "i < unat (word_of_nat (length xs) :: u32)" for i and xs :: "'x list"
    using that by (metis (no_types) le_less_trans unat_of_nat mod_less_eq_dividend order_less_le_trans)
  have "write_each (SerializeInput s) [0..<unat ?nin] \<noteq> None"
    using assms(1) idx by (intro write_each_safe) (auto simp: SerializeInput_def Let_def)
  moreover have "write_each (SerializeOutput s) [0..<unat ?nout] \<noteq> None"
    using assms(2) idx by (intro write_each_safe) (auto simp: SerializeOutput_def split: if_splits)
  ultimately show ?thesis unfolding Serialize_sigtx_def Let_def by auto
qed

lemma SignatureHash_safe: "length junk = 64 \<Longrightarrow> SignatureHash junk scriptCode txTo nIn nHashType \<noteq> None"
proof -
  let ?s = "CTransactionSignatureSerializer_ctor txTo scriptCode nIn nHashType"
  assume j: "length junk = 64"
  have "Serialize_sigtx ?s \<noteq> None"
    if "\<not> unat nIn \<ge> length (vin txTo)" "\<not> (nHashType AND 0x1f = uint SIGHASH_SINGLE \<and> unat nIn \<ge> length (vout txTo))"
    using that by (intro Serialize_sigtx_safe) (auto simp: CTransactionSignatureSerializer_ctor_def)
  then show ?thesis unfolding SignatureHash_def Let_def by (auto simp: SerializeHash_sha256 [OF j])
qed

lemma CPubKey_Verify_safe: "CPubKey_Verify ctx k h vchSig \<noteq> None"
  using eok_not_None [OF parse_der_lax_ok [of ctx vchSig]] by (auto simp: CPubKey_Verify_def split: option.split sum.split)

lemma CPubKey_CheckLowS_safe: "CPubKey_CheckLowS ctx vchSig \<noteq> None"
  using eok_not_None [OF parse_der_lax_ok [of ctx vchSig]] by (auto simp: CPubKey_CheckLowS_def split: option.split sum.split)

lemma TransactionSignatureChecker_safe:
  assumes "length junk = 64" "unat nIn < length (vin txTo)"
  shows "safe_checker (TransactionSignatureChecker ctx junk junkk txTo nIn)"
proof -
  have "TransactionSignatureChecker_CheckSig ctx junk junkk txTo nIn sig key code \<noteq> None" for sig key code
    unfolding TransactionSignatureChecker_CheckSig_def Let_def VerifySignature_def
    by (auto simp del: not_None_eq split: Option.bind_split
        dest: SignatureHash_safe [OF assms(1), THEN notE] CPubKey_Verify_safe [THEN notE])
  moreover have "TransactionSignatureChecker_CheckLockTime txTo nIn n \<noteq> None" for n
    using assms(2) unfolding TransactionSignatureChecker_CheckLockTime_def by (simp del: not_None_eq)
  moreover have "TransactionSignatureChecker_CheckSequence txTo nIn n \<noteq> None" for n
    using assms(2) unfolding TransactionSignatureChecker_CheckSequence_def Let_def by (simp del: not_None_eq)
  ultimately show ?thesis using CPubKey_CheckLowS_safe [of ctx]
    by (simp add: safe_checker_def TransactionSignatureChecker_def del: not_None_eq)
qed

text \<open>The script of a pay-to-script-hash output fails on an empty stack, at its first operation.\<close>

lemma p2sh_empty_stack:
  assumes "IsPayToScriptHash script"
  shows "EvalScript [] script flags chk \<noteq> success out"
proof -
  obtain r where s: "script = OP_HASH160 # r" using assms by (cases script) (auto simp: IsPayToScriptHash_def)
  have "GetOp2 script = Some (OP_HASH160, [], r)" unfolding s by (rule GetOp2_high) simp
  moreover have "EvalScript_step flags chk r OP_HASH160 [] (init_state [] script) = bad_stack"
    unfolding EvalScript_step_def exec_op_def op_hash_op_def
    by (simp add: init_state_def MAX_OPS_PER_SCRIPT_def disabled_opcodes_def)
  ultimately have "EvalScript_loop flags chk script (init_state [] script) = bad_stack"
    unfolding EvalScript_loop.simps [of flags chk script] using s by simp
  then show ?thesis by (simp add: EvalScript_def)
qed

lemma stack_true_ok: "stack_ok stk \<Longrightarrow> eok stack_ok (stack_true stk)"
  by (auto simp: stack_true_def split: list.split)

lemma VerifyScript_p2sh_ok:
  assumes "safe_checker chk" "stack_ok stk" "stk \<noteq> []"
  shows "eok stack_ok (VerifyScript_p2sh sigScript stk flags chk)"
proof -
  obtain x s where stk: "stk = x # s" using assms(3) by (cases stk) auto
  then have "stack_ok s" using assms(2) by (simp add: stack_ok_def)
  then show ?thesis using EvalScript_ok [OF assms(1)]
    by (auto simp: VerifyScript_p2sh_def stk popstack_def intro!: eok_ebind stack_true_ok)
qed

lemma VerifyScript_ok:
  assumes "safe_checker chk" "flags AND SCRIPT_VERIFY_CLEANSTACK \<noteq> 0 \<Longrightarrow> flags AND SCRIPT_VERIFY_P2SH \<noteq> 0"
  shows "VerifyScript sigScript pubScript flags chk \<noteq> None"
proof -
  let ?p = "flags AND SCRIPT_VERIFY_P2SH \<noteq> 0 \<and> IsPayToScriptHash pubScript"
  have ok: "eok stack_ok (EvalScript stk script flags chk)" if "stack_ok stk" for stk script
    using assms(1) that by (rule EvalScript_ok)
  have copy: "eok (\<lambda>out. stack_ok out \<and> (?p \<longrightarrow> stk \<noteq> [])) (EvalScript stk pubScript flags chk)" if "stack_ok stk" for stk
    using ok [OF that, of pubScript] p2sh_empty_stack [of pubScript flags chk]
    by (cases "EvalScript stk pubScript flags chk" rule: ebind_cases) auto
  have "eok (\<lambda>_. True) (VerifyScript sigScript pubScript flags chk)" unfolding VerifyScript_def Let_def
    by (intro eok_if eok_ebind [OF ok] eok_ebind [OF copy] eok_ebind [OF stack_true_ok] eok_ebind [where P = stack_ok])
      (use assms in \<open>auto simp: stack_ok_def [of "[]"] intro!: VerifyScript_p2sh_ok\<close>)
  then show ?thesis by (rule eok_not_None)
qed

section \<open>The signature hash against its reference\<close>

text \<open>
  The transaction that is signed, as a copy that is changed: the scripts of the inputs are blank but for the signed
  one, and the hash type drops the other inputs, all outputs, or the other outputs.
\<close>

definition signed_input :: "bytes \<Rightarrow> nat \<Rightarrow> bool \<Rightarrow> nat \<times> CTxIn \<Rightarrow> CTxIn" where
  "signed_input code nIn free x = (case x of (i, txin) \<Rightarrow>
     if i = nIn then txin\<lparr>scriptSig := code\<rparr>
     else txin\<lparr>scriptSig := [], nSequence := if free then 0 else nSequence txin\<rparr>)"

definition signed_transaction :: "CTransaction \<Rightarrow> bytes \<Rightarrow> nat \<Rightarrow> bool \<Rightarrow> bool \<Rightarrow> bool \<Rightarrow> CMutableTransaction" where
  "signed_transaction tx code nIn anyone single none =
     (let ins = map (signed_input code nIn (single \<or> none)) (enumerate 0 (vin tx)) in
      \<lparr>mtx_nVersion = tx_nVersion tx,
       mtx_vin = (if anyone then [ins ! nIn] else ins),
       mtx_vout = (if none then [] else if single then replicate nIn CTxOut_SetNull @ [vout tx ! nIn] else vout tx),
       mtx_nLockTime = nLockTime tx\<rparr>)"

lemma GetOp2_opcode: "GetOp2 pc = Some (opcode, v, r) \<Longrightarrow> \<exists>pc'. pc = opcode # pc' \<and> (opcode > OP_PUSHDATA4 \<longrightarrow> r = pc')"
  by (cases pc) (auto split: if_splits option.splits)

lemma single_op_high:
  assumes "GetOp2 (c @ r) = Some (opcode, v, r)" "opcode' > OP_PUSHDATA4" "c \<noteq> []"
  shows "opcode = opcode' \<longleftrightarrow> c = [opcode']"
  using GetOp2_opcode [OF assms(1)] assms(2,3) by (cases c) auto

lemma GetOp2_stop_le: "length (GetOp2_stop pc) \<le> length pc"
  by (cases pc) (auto simp: GetOp2_size_def split: option.split)

lemma SerializeScriptCode_loop_ops:
  assumes "\<forall>c \<in> set cs. single_op c" "GetOp2 junk = None"
  shows "concat (SerializeScriptCode_loop (p @ concat cs @ junk) (concat cs @ junk)) =
    p @ concat (filter ((\<noteq>) [OP_CODESEPARATOR]) cs) @ take (length junk - length (GetOp2_stop junk)) junk"
  using assms(1)
proof (induction cs arbitrary: p)
  case Nil
  then show ?case using assms(2) GetOp2_stop_le [of junk] by (subst SerializeScriptCode_loop.simps) auto
next
  case (Cons c cs)
  let ?r = "concat cs @ junk"
  obtain opcode v where g: "GetOp2 (c @ ?r) = Some (opcode, v, ?r)" using Cons.prems by (auto elim: single_opE)
  have c: "c \<noteq> []" using Cons.prems by auto
  have sep: "opcode = OP_CODESEPARATOR \<longleftrightarrow> c = [OP_CODESEPARATOR]" by (rule single_op_high [OF g _ c]) simp
  show ?case
  proof (cases "opcode = OP_CODESEPARATOR")
    case True
    then show ?thesis using g sep Cons.IH [of "[]"] Cons.prems by (subst SerializeScriptCode_loop.simps) simp
  next
    case False
    then show ?thesis using g sep Cons.IH [of "p @ c"] Cons.prems by (subst SerializeScriptCode_loop.simps) auto
  qed
qed

lemma Find_ops:
  assumes "\<forall>c \<in> set cs. single_op c" "GetOp2 junk = None" "opcode' > OP_PUSHDATA4"
  shows "Find opcode' (concat cs @ junk) = count_list cs [opcode']"
  using assms(1)
proof (induction cs)
  case Nil
  then show ?case using assms(2) by (subst Find.simps) simp
next
  case (Cons c cs)
  let ?r = "concat cs @ junk"
  obtain opcode v where g: "GetOp2 (c @ ?r) = Some (opcode, v, ?r)" using Cons.prems by (auto elim: single_opE)
  have "opcode = opcode' \<longleftrightarrow> c = [opcode']" by (rule single_op_high [OF g assms(3)]) (use Cons.prems in auto)
  then show ?case using g Cons by (subst Find.simps) simp
qed

lemma instructions_ops: "instructions pc \<noteq> None \<Longrightarrow> \<exists>cs. pc = concat cs \<and> (\<forall>c \<in> set cs. single_op c)"
proof (induction "length pc" arbitrary: pc rule: less_induct)
  case less
  show ?case
  proof (cases "pc = []")
    case False
    then obtain opcode v r where g: "GetOp2 pc = Some (opcode, v, r)" "instructions r \<noteq> None"
      using less.prems by (subst (asm) instructions.simps) (auto split: option.splits)
    obtain c where c: "pc = c @ r" "single_op c" by (rule GetOp2_split [OF g(1)])
    obtain cs where "r = concat cs" "\<forall>c \<in> set cs. single_op c" using less.hyps [OF GetOp2_shorter [OF g(1)] g(2)] by blast
    then show ?thesis using c by (intro exI [of _ "c # cs"]) simp
  qed (auto intro: exI [of _ "[]"])
qed

lemma length_filter_ops: "length (concat (filter ((\<noteq>) [b]) cs)) = length (concat cs) - count_list cs [b]"
proof -
  have "length (concat (filter ((\<noteq>) [b]) cs)) + count_list cs [b] = length (concat cs)" by (induction cs) auto
  then show ?thesis by simp
qed

lemma SerializeScriptCode_strips:
  assumes "instructions (ss_scriptCode s) \<noteq> None"
  shows "concat (SerializeScriptCode s) = Serialize_bytes (snd (FindAndDelete (ss_scriptCode s) [OP_CODESEPARATOR]))"
proof -
  obtain cs where cs: "ss_scriptCode s = concat cs" "\<forall>c \<in> set cs. single_op c" using instructions_ops [OF assms] by blast
  have "single_op [OP_CODESEPARATOR]" by (simp add: single_op_def)
  from FindAndDelete_ops [OF this _ cs(2), of "[]"] SerializeScriptCode_loop_ops [OF cs(2), of "[]" "[]"] Find_ops [OF cs(2), of "[]" OP_CODESEPARATOR]
  show ?thesis by (simp add: SerializeScriptCode_def Serialize_bytes_def cs(1) length_filter_ops)
qed

text \<open>A script that ends in a truncated push is not written to its end, although its size is.\<close>

lemma SerializeScriptCode_truncated:
  "ss_scriptCode s = [OP_CHECKSIG, 5, 1] \<Longrightarrow> SerializeScriptCode s = [[3], [OP_CHECKSIG, 5]]"
proof -
  have "SerializeScriptCode_loop [OP_CHECKSIG, 5, 1] [OP_CHECKSIG, 5, 1] = [[OP_CHECKSIG, 5]]" by code_simp
  moreover have "WriteCompactSize (word_of_nat (length [OP_CHECKSIG, 5, 1] - Find OP_CODESEPARATOR [OP_CHECKSIG, 5, 1])) = [3]"
    by code_simp
  moreover assume "ss_scriptCode s = [OP_CHECKSIG, 5, 1]"
  ultimately show ?thesis unfolding SerializeScriptCode_def by simp
qed

lemma write_each_concat:
  "(\<And>i. i \<in> set is \<Longrightarrow> \<exists>w. ser (word_of_nat i) = Some w \<and> concat w = f i) \<Longrightarrow>
   \<exists>ws. write_each ser is = Some ws \<and> concat ws = concat (map f is)"
proof (induction "is")
  case (Cons i js)
  then obtain w ws where "ser (word_of_nat i) = Some w" "concat w = f i" "write_each ser js = Some ws" "concat ws = concat (map f js)"
    by (metis list.set_intros(1,2))
  then show ?case by simp
qed simp

lemma SerializeInput_bytes:
  fixes s :: CTransactionSignatureSerializer
  defines "code \<equiv> snd (FindAndDelete (ss_scriptCode s) [OP_CODESEPARATOR])"
  assumes "instructions (ss_scriptCode s) \<noteq> None" "n = (if fAnyoneCanPay s then ss_nIn s else i)" "unat n < length (vin (ss_txTo s))"
  shows "\<exists>w. SerializeInput s i = Some w \<and>
    concat w = Serialize_CTxIn (signed_input code (unat (ss_nIn s)) (fHashSingle s \<or> fHashNone s) (unat n, vin (ss_txTo s) ! unat n))"
  using assms(4) SerializeScriptCode_strips [OF assms(2)] unfolding SerializeInput_def assms(3) [symmetric] Let_def code_def
  by (auto simp: Serialize_CTxIn_def signed_input_def word_unat_eq_iff)

lemma SerializeOutput_bytes:
  assumes "fHashSingle s \<and> n \<noteq> ss_nIn s \<or> unat n < length (vout (ss_txTo s))"
  shows "\<exists>w. SerializeOutput s n = Some w \<and>
    concat w = Serialize_CTxOut (if fHashSingle s \<and> n \<noteq> ss_nIn s then CTxOut_SetNull else vout (ss_txTo s) ! unat n)"
  using assms by (auto simp: SerializeOutput_def)

lemma map_nth_enumerate: "map (\<lambda>i. f (i, xs ! i)) [0..<length xs] = map f (enumerate 0 xs)"
  by (rule nth_equalityI) (simp_all add: nth_enumerate_eq)

lemma unat_u32: "n < 2 ^ 32 \<Longrightarrow> unat (word_of_nat n :: u32) = n"
  by (simp add: unat_of_nat)

lemma write_inputs:
  fixes s :: CTransactionSignatureSerializer
  defines "code \<equiv> snd (FindAndDelete (ss_scriptCode s) [OP_CODESEPARATOR])"
  defines "t \<equiv> signed_transaction (ss_txTo s) code (unat (ss_nIn s)) (fAnyoneCanPay s) (fHashSingle s) (fHashNone s)"
  assumes "instructions (ss_scriptCode s) \<noteq> None" "unat (ss_nIn s) < length (vin (ss_txTo s))" "length (vin (ss_txTo s)) < 2 ^ 32"
  shows "\<exists>ws. write_each (SerializeInput s) [0..<length (mtx_vin t)] = Some ws \<and> concat ws = concat (map Serialize_CTxIn (mtx_vin t))"
proof (cases "fAnyoneCanPay s")
  case True
  then show ?thesis
    using SerializeInput_bytes [OF assms(3) refl, of 0] assms(4)
    by (auto simp: t_def code_def signed_transaction_def Let_def nth_enumerate_eq)
next
  case False
  let ?f = "signed_input code (unat (ss_nIn s)) (fHashSingle s \<or> fHashNone s)"
  have "\<exists>w. SerializeInput s (word_of_nat i) = Some w \<and> concat w = Serialize_CTxIn (?f (i, vin (ss_txTo s) ! i))"
    if "i \<in> set [0..<length (vin (ss_txTo s))]" for i
    using SerializeInput_bytes [OF assms(3) refl, of "word_of_nat i"] False that assms(5) unat_u32 [of i] by (simp add: code_def)
  from write_each_concat [of _ "SerializeInput s" "\<lambda>i. Serialize_CTxIn (?f (i, vin (ss_txTo s) ! i))", OF this] obtain ws where "write_each (SerializeInput s) [0..<length (vin (ss_txTo s))] = Some ws"
    "concat ws = concat (map (\<lambda>i. Serialize_CTxIn (?f (i, vin (ss_txTo s) ! i))) [0..<length (vin (ss_txTo s))])" by blast
  then show ?thesis using False map_nth_enumerate [of "\<lambda>x. Serialize_CTxIn (?f x)" "vin (ss_txTo s)"]
    by (auto simp: t_def signed_transaction_def Let_def comp_def)
qed

lemma write_outputs:
  fixes s :: CTransactionSignatureSerializer and code :: bytes
  defines "t \<equiv> signed_transaction (ss_txTo s) code (unat (ss_nIn s)) (fAnyoneCanPay s) (fHashSingle s) (fHashNone s)"
  assumes "fHashSingle s \<Longrightarrow> unat (ss_nIn s) < length (vout (ss_txTo s))" "length (vout (ss_txTo s)) < 2 ^ 32"
  shows "\<exists>ws. write_each (SerializeOutput s) [0..<length (mtx_vout t)] = Some ws \<and> concat ws = concat (map Serialize_CTxOut (mtx_vout t))"
proof -
  have "\<exists>w. SerializeOutput s (word_of_nat i) = Some w \<and> concat w = Serialize_CTxOut (mtx_vout t ! i)"
    if "i \<in> set [0..<length (mtx_vout t)]" for i
  proof -
    have n: "\<not> fHashNone s" using that by (auto simp: t_def signed_transaction_def Let_def)
    show ?thesis
    proof (cases "fHashSingle s")
      case True
      then have "i \<le> unat (ss_nIn s)" using n that by (auto simp: t_def signed_transaction_def Let_def)
      then have "unat (word_of_nat i :: u32) = i" using assms(2,3) True by (intro unat_u32) simp
      then have "(word_of_nat i = ss_nIn s) = (i = unat (ss_nIn s))" by (auto simp: word_unat_eq_iff)
      then show ?thesis using SerializeOutput_bytes [of s "word_of_nat i"] True n assms(2) \<open>i \<le> _\<close>
        by (auto simp: t_def signed_transaction_def Let_def nth_append)
    next
      case False
      then have "i < length (vout (ss_txTo s))" using n that by (simp add: t_def signed_transaction_def Let_def)
      then show ?thesis using SerializeOutput_bytes [of s "word_of_nat i"] False n assms(3) unat_u32 [of i]
        by (simp add: t_def signed_transaction_def Let_def)
    qed
  qed
  from write_each_concat [of "[0..<length (mtx_vout t)]" "SerializeOutput s" "\<lambda>i. Serialize_CTxOut (mtx_vout t ! i)", OF this]
  show ?thesis using arg_cong [OF map_nth [of "mtx_vout t"], of "map Serialize_CTxOut"] by (simp add: comp_def)
qed

lemma ucast_size: "n < 2 ^ 32 \<Longrightarrow> (ucast (word_of_nat n :: u32) :: u64) = word_of_nat n"
  by (simp add: word_unat_eq_iff unat_ucast_up unat_u32 unat_of_nat)

lemma Serialize_sigtx_bytes:
  fixes s :: CTransactionSignatureSerializer
  defines "code \<equiv> snd (FindAndDelete (ss_scriptCode s) [OP_CODESEPARATOR])"
  defines "t \<equiv> signed_transaction (ss_txTo s) code (unat (ss_nIn s)) (fAnyoneCanPay s) (fHashSingle s) (fHashNone s)"
  assumes "instructions (ss_scriptCode s) \<noteq> None" "unat (ss_nIn s) < length (vin (ss_txTo s))" "length (vin (ss_txTo s)) < 2 ^ 32"
    and "fHashSingle s \<Longrightarrow> unat (ss_nIn s) < length (vout (ss_txTo s))" "length (vout (ss_txTo s)) < 2 ^ 32"
  shows "\<exists>ws. Serialize_sigtx s = Some ws \<and> concat ws = Serialize_CMutableTransaction t"
proof -
  let ?nin = "if fAnyoneCanPay s then 1 else word_of_nat (length (vin (ss_txTo s))) :: u32"
  let ?nout = "if fHashNone s then 0 else if fHashSingle s then ss_nIn s + 1 else word_of_nat (length (vout (ss_txTo s))) :: u32"
  obtain wi where wi: "write_each (SerializeInput s) [0..<length (mtx_vin t)] = Some wi" "concat wi = concat (map Serialize_CTxIn (mtx_vin t))"
    using write_inputs [OF assms(3-5)] unfolding t_def code_def by blast
  obtain wo where wo: "write_each (SerializeOutput s) [0..<length (mtx_vout t)] = Some wo" "concat wo = concat (map Serialize_CTxOut (mtx_vout t))"
    using write_outputs [OF assms(6,7)] unfolding t_def by blast
  have li: "length (mtx_vin t) < 2 ^ 32" "?nin = word_of_nat (length (mtx_vin t))"
    using assms(5) by (auto simp: t_def signed_transaction_def Let_def)
  have "Suc (unat (ss_nIn s)) < 2 ^ 32" if "fHashSingle s" using that assms(6,7) by simp
  moreover have "ss_nIn s + 1 = word_of_nat (Suc (unat (ss_nIn s)))" by simp
  ultimately have lo: "length (mtx_vout t) < 2 ^ 32" "?nout = word_of_nat (length (mtx_vout t))"
    using assms(7) by (auto simp: t_def signed_transaction_def Let_def)
  have "tx_nVersion (ss_txTo s) = mtx_nVersion t" "nLockTime (ss_txTo s) = mtx_nLockTime t"
    by (simp_all add: t_def signed_transaction_def Let_def)
  then show ?thesis
    unfolding Serialize_sigtx_def Let_def li(2) lo(2) unat_u32 [OF li(1)] unat_u32 [OF lo(1)] ucast_size [OF li(1)] ucast_size [OF lo(1)]
    using wi wo by (simp add: Serialize_CMutableTransaction_def Serialize_tx_fields_def Serialize_vector_def)
qed

lemma uint256S_one: "uint256S ''0000000000000000000000000000000000000000000000000000000000000001'' = 1 # replicate 31 0"
  by code_simp

section \<open>Properties\<close>

text \<open>C4. The signature hash implements its reference: for a script code that parses and fewer than \<open>2 ^ 32\<close> inputs and outputs it
  is the double SHA-256 of the serialized copy of the transaction that has the script code without
  \<^verbatim>\<open>OP_CODESEPARATOR\<close> in the signed input and is blanked as the hash type says, followed by the hash type; it is the
  number one when the input does not exist or \<^verbatim>\<open>SIGHASH_SINGLE\<close> has no output to sign.\<close>

theorem SignatureHash_reference:
  assumes "length junk = 64" "instructions scriptCode \<noteq> None" "length (vin txTo) < 2 ^ 32" "length (vout txTo) < 2 ^ 32"
  shows "SignatureHash junk scriptCode txTo nIn nHashType = Some (
    let single = (nHashType AND 0x1f = 3); none = (nHashType AND 0x1f = 2); anyone = (nHashType AND 0x80 \<noteq> 0) in
    if unat nIn \<ge> length (vin txTo) \<or> single \<and> unat nIn \<ge> length (vout txTo) then 1 # replicate 31 0
    else fips_sha256 (fips_sha256 (
      Serialize_CMutableTransaction
        (signed_transaction txTo (snd (FindAndDelete scriptCode [OP_CODESEPARATOR])) (unat nIn) anyone single none) @
      ser_writedata32 (word_of_int nHashType))))"
proof -
  let ?s = "CTransactionSignatureSerializer_ctor txTo scriptCode nIn nHashType"
  have f: "ss_txTo ?s = txTo" "ss_scriptCode ?s = scriptCode" "ss_nIn ?s = nIn" "fAnyoneCanPay ?s = (nHashType AND 0x80 \<noteq> 0)"
    "fHashSingle ?s = (nHashType AND 0x1f = 3)" "fHashNone ?s = (nHashType AND 0x1f = 2)"
    by (simp_all add: CTransactionSignatureSerializer_ctor_def SIGHASH_ANYONECANPAY_def SIGHASH_SINGLE_def SIGHASH_NONE_def)
  have "uint SIGHASH_SINGLE = 3" by (simp add: SIGHASH_SINGLE_def)
  then show ?thesis
    using Serialize_sigtx_bytes [of ?s, unfolded f] assms
    unfolding SignatureHash_def Let_def uint256S_one by (auto simp: SerializeHash_sha256 not_le)
qed

definition demo_tx :: CTransaction where
  "demo_tx = CTransaction_default\<lparr>vin := [CTxIn_default, CTxIn_default], vout := [CTxOut_ctor 5 [OP_1]]\<rparr>"

theorem SignatureHash_reference_witness:
  "SignatureHash (replicate 64 0) [OP_DUP, OP_CODESEPARATOR, OP_CHECKSIG] demo_tx 1 3 = Some (1 # replicate 31 0) \<and>
   SignatureHash (replicate 64 0) [OP_DUP, OP_CODESEPARATOR, OP_CHECKSIG] demo_tx 1 2 = Some (fips_sha256 (fips_sha256 (
     Serialize_CMutableTransaction (signed_transaction demo_tx [OP_DUP, OP_CHECKSIG] 1 False False True) @ [2, 0, 0, 0])))"
proof -
  have i: "instructions [OP_DUP, OP_CODESEPARATOR, OP_CHECKSIG] \<noteq> None" by code_simp
  have d: "snd (FindAndDelete [OP_DUP, OP_CODESEPARATOR, OP_CHECKSIG] [OP_CODESEPARATOR]) = [OP_DUP, OP_CHECKSIG]" by code_simp
  have w: "ser_writedata32 2 = [2, 0, 0, 0]" by code_simp
  have t: "length (vin demo_tx) = 2" "length (vout demo_tx) = 1" by (simp_all add: demo_tx_def)
  show ?thesis
    using SignatureHash_reference [OF _ i, of "replicate 64 0" demo_tx 1 3] SignatureHash_reference [OF _ i, of "replicate 64 0" demo_tx 1 2]
    by (simp add: t d w)
qed



end
