(* ===== verification/Base58.thy ===== *)
theory Base58
  imports Hash Str_Encodings
begin

text \<open>
  Base58 text with and without checksum: the conversion loops of \<^verbatim>\<open>base58.cpp\<close>. The buffers \<^verbatim>\<open>b256\<close> and \<^verbatim>\<open>b58\<close> are
  kept in the order in which the loops traverse them, least significant digit first. An assertion on
  the carry that fails is \<open>None\<close>; \<open>Inl\<close> is the return value false, which leaves the output vector alone.
\<close>

definition pszBase58 :: string where
  "pszBase58 = ''123456789ABCDEFGHJKLMNPQRSTUVWXYZabcdefghijkmnopqrstuvwxyz''"

primrec strchr :: "string \<Rightarrow> char \<Rightarrow> nat option" where
  "strchr [] c = None"
| "strchr (a # s) c = (if a = c then Some 0 else map_option Suc (strchr s c))"

section \<open>Decoding\<close>

fun decode_carry :: "int \<Rightarrow> bytes \<Rightarrow> bytes \<times> int" where
  "decode_carry carry [] = ([], carry)"
| "decode_carry carry (it # b256) =
     (let carry = carry + 58 * uint it; (rest, final) = decode_carry (carry div 256) b256
      in (word_of_int (carry mod 256) # rest, final))"

fun decode_chars :: "bytes \<Rightarrow> string \<Rightarrow> (unit + bytes \<times> string) option" where
  "decode_chars b256 [] = Some (Inr (b256, []))"
| "decode_chars b256 (c # psz) =
     (if isspace c then Some (Inr (b256, c # psz))
      else case strchr pszBase58 c of None \<Rightarrow> Some (Inl ())
        | Some ch \<Rightarrow> (let (b256, carry) = decode_carry (int ch) b256
                      in if carry = 0 then decode_chars b256 psz else None))"

definition DecodeBase58 :: "string \<Rightarrow> (unit + bytes) option" where
  "DecodeBase58 str =
     (let psz = dropWhile isspace (c_str str);
          zeroes = length (takeWhile (\<lambda>c. c = CHR ''1'') psz);
          psz = dropWhile (\<lambda>c. c = CHR ''1'') psz;
          b256 = replicate (length psz * 733 div 1000 + 1) 0
      in ebind (decode_chars b256 psz) (\<lambda>(b256, psz).
           if dropWhile isspace psz \<noteq> [] then Some (Inl ())
           else Some (Inr (replicate zeroes 0 @ dropWhile (\<lambda>b. b = 0) (rev b256)))))"

section \<open>Encoding\<close>

fun encode_carry :: "int \<Rightarrow> nat \<Rightarrow> nat \<Rightarrow> bytes \<Rightarrow> bytes \<times> int \<times> nat" where
  "encode_carry carry i len [] = ([], carry, i)"
| "encode_carry carry i len (it # b58) =
     (if carry \<noteq> 0 \<or> i < len
      then let carry = carry + 256 * uint it; (rest, final, j) = encode_carry (carry div 58) (Suc i) len b58
           in (word_of_int (carry mod 58) # rest, final, j)
      else (it # b58, carry, i))"

fun encode_bytes :: "bytes \<Rightarrow> nat \<Rightarrow> bytes \<Rightarrow> (bytes \<times> nat) option" where
  "encode_bytes b58 len [] = Some (b58, len)"
| "encode_bytes b58 len (b # pbegin) =
     (let (b58, carry, i) = encode_carry (uint b) 0 len b58
      in if carry = 0 then encode_bytes b58 i pbegin else None)"

definition EncodeBase58 :: "bytes \<Rightarrow> string option" where
  "EncodeBase58 vch =
     (let zeroes = length (takeWhile (\<lambda>b. b = 0) vch);
          pbegin = dropWhile (\<lambda>b. b = 0) vch;
          size = length pbegin * 138 div 100 + 1
      in do {
        (b58, len) \<leftarrow> encode_bytes (replicate size 0) 0 pbegin;
        Some (replicate zeroes (CHR ''1'')
          @ map (\<lambda>d. pszBase58 ! unat d) (dropWhile (\<lambda>d. d = 0) (drop (size - len) (rev b58))))
      })"

section \<open>Checksums\<close>

definition EncodeBase58Check :: "bytes \<Rightarrow> bytes \<Rightarrow> string option" where
  "EncodeBase58Check junk vchIn = do {
     h \<leftarrow> Hash1 junk vchIn;
     EncodeBase58 (vchIn @ take 4 h)
   }"

text \<open>The return value and the output vector, which is cleared on failure.\<close>

definition DecodeBase58Check :: "bytes \<Rightarrow> string \<Rightarrow> (bool \<times> bytes) option" where
  "DecodeBase58Check junk psz = do {
     r \<leftarrow> DecodeBase58 psz;
     case r of Inl _ \<Rightarrow> Some (False, [])
     | Inr vchRet \<Rightarrow>
         if length vchRet < 4 then Some (False, [])
         else do {
           h \<leftarrow> Hash1 junk (take (length vchRet - 4) vchRet);
           if take 4 h \<noteq> drop (length vchRet - 4) vchRet then Some (False, [])
           else Some (True, take (length vchRet - 4) vchRet)
         }
   }"

section \<open>Positional values\<close>

primrec pval :: "nat \<Rightarrow> bytes \<Rightarrow> nat" where
  "pval B [] = 0"
| "pval B (d # ds) = unat d + B * pval B ds"

definition digits_below :: "nat \<Rightarrow> bytes \<Rightarrow> bool" where
  "digits_below B ds \<longleftrightarrow> (\<forall>d \<in> set ds. unat d < B)"

lemma digits_below_simps [simp]:
  "digits_below B []" "digits_below B (d # ds) \<longleftrightarrow> unat d < B \<and> digits_below B ds"
  "digits_below B (xs @ ys) \<longleftrightarrow> digits_below B xs \<and> digits_below B ys" "digits_below B (rev ds) \<longleftrightarrow> digits_below B ds"
  by (auto simp: digits_below_def)

lemma digits_below_256: "digits_below 256 ds"
  using unat_lt2p [where 'a = 8] by (simp add: digits_below_def)

lemma pval_replicate_0 [simp]: "pval B (replicate n 0) = 0"
  by (induction n) simp_all

lemma pval_append: "pval B (xs @ ys) = pval B xs + B ^ length xs * pval B ys"
  by (induction xs) (simp_all add: algebra_simps)

lemma pval_lt: "digits_below B ds \<Longrightarrow> 0 < B \<Longrightarrow> pval B ds < B ^ length ds"
proof (induction ds)
  case (Cons d ds)
  then have "pval B ds + 1 \<le> B ^ length ds" by simp
  then have "B * (pval B ds + 1) \<le> B * B ^ length ds" by (rule mult_le_mono2)
  then show ?case using Cons.prems by simp
qed simp

lemma pval_inj: "length xs = length ys \<Longrightarrow> digits_below B xs \<Longrightarrow> digits_below B ys \<Longrightarrow> pval B xs = pval B ys \<Longrightarrow> xs = ys"
proof (induction xs ys rule: list_induct2)
  case (Cons x xs y ys)
  have "(unat x + B * pval B xs) mod B = (unat y + B * pval B ys) mod B" "(unat x + B * pval B xs) div B = (unat y + B * pval B ys) div B"
    using Cons.prems by simp_all
  then have "unat x = unat y" "pval B xs = pval B ys" using Cons.prems by simp_all
  then show ?case using Cons by (simp add: word_unat_eq_iff)
qed simp

text \<open>A number has one representation without leading zeros.\<close>

lemma pval_unique:
  assumes "pval B (rev xs) = pval B (rev ys)" "digits_below B xs" "digits_below B ys" "0 < B"
  shows "dropWhile (\<lambda>d. d = 0) xs = dropWhile (\<lambda>d. d = 0) ys"
proof -
  have main: "dropWhile (\<lambda>d. d = 0) xs = dropWhile (\<lambda>d. d = 0) ys"
    if "length xs \<le> length ys" "pval B (rev xs) = pval B (rev ys)" "digits_below B xs" "digits_below B ys" for xs ys :: bytes
  proof -
    let ?z = "replicate (length ys - length xs) (0 :: byte)"
    have "digits_below B ?z" using assms(4) by (simp add: digits_below_def)
    then have "rev (?z @ xs) = rev ys" using that by (intro pval_inj) (simp_all add: pval_append)
    then have "ys = ?z @ xs" by (metis rev_rev_ident)
    moreover have "dropWhile (\<lambda>d. d = 0) (?z @ xs) = dropWhile (\<lambda>d. d = 0) xs" by (rule dropWhile_append2) simp
    ultimately show ?thesis by simp
  qed
  show ?thesis using main [of xs ys] main [of ys xs] assms by (cases "length xs \<le> length ys") auto
qed

lemma pval_dropWhile: "pval B (rev (dropWhile (\<lambda>d. d = 0) xs)) = pval B (rev xs)"
proof (induction xs)
  case (Cons x xs)
  then show ?case by (simp add: pval_append)
qed simp

section \<open>Carries\<close>

lemma radix_step:
  assumes "0 < B" "0 \<le> (c :: int)"
  shows "c mod int B + int B * (c div int B) = c" "0 \<le> c div int B" "0 \<le> c mod int B" "c mod int B < int B"
  using assms by (simp_all add: pos_imp_zdiv_nonneg_iff)

lemma unat_word_of_int: "0 \<le> v \<Longrightarrow> v < 256 \<Longrightarrow> int (unat (word_of_int v :: byte)) = v"
  by (simp add: unsigned_of_int take_bit_int_eq_self)

lemma decode_carry_value:
  assumes "decode_carry c bs = (bs', f)" "0 \<le> c"
  shows "length bs' = length bs \<and> 0 \<le> f \<and> int (pval 256 bs') + 256 ^ length bs * f = c + 58 * int (pval 256 bs)"
  using assms
proof (induction bs arbitrary: c bs' f)
  case (Cons b bs)
  let ?c = "c + 58 * uint b"
  obtain r g where r: "decode_carry (?c div 256) bs = (r, g)" by (rule prod.exhaust)
  have c: "0 \<le> ?c" using Cons.prems by simp
  note s = radix_step [of 256, OF _ c, simplified]
  have ih: "length r = length bs" "0 \<le> g" "int (pval 256 r) + 256 ^ length bs * g = ?c div 256 + 58 * int (pval 256 bs)"
    using Cons.IH [OF r] s by simp_all
  have bs': "bs' = word_of_int (?c mod 256) # r" "f = g" using Cons.prems r by (simp_all add: Let_def)
  have "int (pval 256 bs') + 256 ^ length (b # bs) * f = ?c mod 256 + 256 * (int (pval 256 r) + 256 ^ length bs * g)"
    using unat_word_of_int [of "?c mod 256"] by (simp add: bs' algebra_simps)
  also have "\<dots> = (?c mod 256 + 256 * (?c div 256)) + 58 * (256 * int (pval 256 bs))" unfolding ih(3) by (simp add: algebra_simps)
  also have "\<dots> = c + 58 * int (pval 256 (b # bs))" unfolding s(1) by (simp add: algebra_simps)
  finally show ?case using bs' ih by simp
qed simp

text \<open>The digits from position \<open>len - i\<close> on are zero, so that the early exit of the loop leaves nothing out.\<close>

lemma encode_carry_value:
  assumes "encode_carry c i len bs = (bs', f, j)" "0 \<le> c" "digits_below 58 bs" "\<forall>d \<in> set (drop (len - i) bs). d = 0"
  shows "length bs' = length bs \<and> 0 \<le> f \<and> digits_below 58 bs' \<and> (\<forall>d \<in> set (drop (j - i) bs'). d = 0) \<and> i \<le> j \<and>
    int (pval 58 bs') + 58 ^ length bs * f = c + 256 * int (pval 58 bs)"
  using assms
proof (induction bs arbitrary: c i bs' f j)
  case (Cons b bs)
  show ?case
  proof (cases "c \<noteq> 0 \<or> i < len")
    case True
    let ?c = "c + 256 * uint b"
    obtain r g k where r: "encode_carry (?c div 58) (Suc i) len bs = (r, g, k)" by (metis prod.exhaust)
    have c: "0 \<le> ?c" using Cons.prems by simp
    note s = radix_step [of 58, OF _ c, simplified]
    have l: "len - Suc i = len - i - 1" by simp
    have "\<forall>d \<in> set (drop (len - Suc i) bs). d = 0"
      unfolding l using Cons.prems(4)
      by (cases "len - i") (auto simp: drop_Cons' dest: in_set_dropD split: if_splits)
    then have ih: "length r = length bs" "0 \<le> g" "digits_below 58 r" "\<forall>d \<in> set (drop (k - Suc i) r). d = 0" "Suc i \<le> k"
      "int (pval 58 r) + 58 ^ length bs * g = ?c div 58 + 256 * int (pval 58 bs)"
      using Cons.IH [OF r] Cons.prems(3) s by simp_all
    have bs': "bs' = word_of_int (?c mod 58) # r" "f = g" "j = k" using Cons.prems(1) r True by (simp_all add: Let_def)
    have u: "int (unat (word_of_int (?c mod 58) :: byte)) = ?c mod 58" using s by (intro unat_word_of_int) simp_all
    have "int (pval 58 bs') + 58 ^ length (b # bs) * f = ?c mod 58 + 58 * (int (pval 58 r) + 58 ^ length bs * g)"
      using u by (simp add: bs' algebra_simps)
    also have "\<dots> = (?c mod 58 + 58 * (?c div 58)) + 256 * (58 * int (pval 58 bs))" unfolding ih(6) by (simp add: algebra_simps)
    also have "\<dots> = c + 256 * int (pval 58 (b # bs))" unfolding s(1) by (simp add: algebra_simps)
    finally have v: "int (pval 58 bs') + 58 ^ length (b # bs) * f = c + 256 * int (pval 58 (b # bs))" .
    have "unat (word_of_int (?c mod 58) :: byte) < 58" using u s(4) by linarith
    moreover have "k - i = Suc (k - Suc i)" using ih(5) by simp
    ultimately show ?thesis using v ih bs' by simp
  next
    case False
    have "pval 58 (b # bs) = 0"
    proof -
      have "b # bs = replicate (length (b # bs)) 0" using Cons.prems(4) False by (intro replicate_eqI) auto
      then show ?thesis by (metis pval_replicate_0)
    qed
    then show ?thesis using Cons.prems False by auto
  qed
qed simp

section \<open>The buffers are long enough\<close>

lemma root_bound:
  assumes "(a :: nat) ^ p \<le> b ^ q" "q * r \<le> s * p" "0 < b" "0 < p" "0 < r"
  shows "a ^ n \<le> b ^ (n * s div r + 1)"
proof -
  let ?m = "n * s div r + 1"
  have "n * s \<le> r * ?m" using assms(5) by (metis Suc_eq_plus1 dividend_less_times_div less_imp_le mult_Suc_right add.commute)
  then have m: "n * s * p \<le> r * ?m * p" by (rule mult_le_mono1)
  have "r * (n * q) = n * (q * r)" by (simp only: ac_simps)
  also have "\<dots> \<le> n * (s * p)" using assms(2) by (rule mult_le_mono2)
  also have "\<dots> = n * s * p" by (simp only: ac_simps)
  also note m
  also have "r * ?m * p = r * (p * ?m)" by (simp only: ac_simps)
  finally have le: "n * q \<le> p * ?m" using assms(5) by (simp only: nat_mult_le_cancel1)
  have "(a ^ n) ^ p = (a ^ p) ^ n" by (simp add: power_mult [symmetric] mult.commute)
  also have "\<dots> \<le> (b ^ q) ^ n" using assms(1) by (intro power_mono) simp_all
  also have "\<dots> = b ^ (n * q)" by (simp add: power_mult [symmetric] mult.commute)
  also have "\<dots> \<le> b ^ (p * ?m)" using assms(3) le by (intro power_increasing) simp_all
  also have "\<dots> = (b ^ ?m) ^ p" by (metis mult.commute power_mult)
  finally show ?thesis using assms(4) by (simp add: power_mono_iff)
qed

lemma decode_size: "58 ^ n \<le> (256 :: nat) ^ (n * 733 div 1000 + 1)"
  by (rule root_bound [where p = 86 and q = 63]) simp_all

lemma encode_size: "256 ^ n \<le> (58 :: nat) ^ (n * 138 div 100 + 1)"
  by (rule root_bound [where p = 8 and q = 11]) simp_all

section \<open>The loops compute the value\<close>

lemma strchr_Some: "strchr s c = Some d \<Longrightarrow> d < length s \<and> s ! d = c"
  by (induction s arbitrary: d) (auto split: if_splits)

lemma strchr_nth: "distinct s \<Longrightarrow> d < length s \<Longrightarrow> strchr s (s ! d) = Some d"
proof (induction s arbitrary: d)
  case (Cons a s)
  then show ?case by (cases d) auto
qed simp

lemma pszBase58_props: "distinct pszBase58" "length pszBase58 = 58" "\<forall>c \<in> set pszBase58. \<not> isspace c \<and> c \<noteq> CHR 0x00" "pszBase58 ! 0 = CHR ''1''"
  by (simp_all add: pszBase58_def isspace_def)

definition base58_text :: "bytes \<Rightarrow> string" where
  "base58_text ds = map (\<lambda>d. pszBase58 ! unat d) ds"

lemma base58_char:
  assumes "unat d < 58"
  shows "strchr pszBase58 (pszBase58 ! unat d) = Some (unat d)" "\<not> isspace (pszBase58 ! unat d)" "pszBase58 ! unat d \<noteq> CHR 0x00"
    "pszBase58 ! unat d = CHR ''1'' \<longleftrightarrow> d = 0"
proof -
  have m: "pszBase58 ! unat d \<in> set pszBase58" using assms pszBase58_props(2) by simp
  then show "\<not> isspace (pszBase58 ! unat d)" "pszBase58 ! unat d \<noteq> CHR 0x00" using pszBase58_props(3) by auto
  show "strchr pszBase58 (pszBase58 ! unat d) = Some (unat d)" using assms pszBase58_props(1,2) by (intro strchr_nth) simp_all
  show "pszBase58 ! unat d = CHR ''1'' \<longleftrightarrow> d = 0"
    using assms pszBase58_props(1,2,4) nth_eq_iff_index_eq [of pszBase58 "unat d" 0] by (simp add: unsigned_eq_0_iff)
qed

lemma no_carry:
  assumes "int p + int M * c = int v" "0 \<le> c" "v < M"
  shows "c = 0 \<and> p = v"
proof -
  have "c = 0"
  proof (rule ccontr)
    assume "c \<noteq> 0"
    then have "int M * 1 \<le> int M * c" using assms(2) by (intro mult_left_mono) simp_all
    then have "int M \<le> int v" using assms(1) by linarith
    then show False using assms(3) by simp
  qed
  then show ?thesis using assms(1) by simp
qed

lemma decode_chars_digits:
  assumes "digits_below 58 ds" "(pval 256 b + 1) * 58 ^ length ds \<le> 256 ^ length b"
  shows "\<exists>b'. decode_chars b (base58_text ds @ rest) = decode_chars b' rest \<and> length b' = length b \<and>
    pval 256 b' = pval 256 b * 58 ^ length ds + pval 58 (rev ds)"
  using assms
proof (induction ds arbitrary: b)
  case (Cons d ds)
  have d: "unat d < 58" using Cons.prems(1) by simp
  obtain b1 c where b1: "decode_carry (int (unat d)) b = (b1, c)" by (rule prod.exhaust)
  note v = decode_carry_value [OF b1, simplified]
  let ?n = "pval 256 b"
  have "58 * (?n + 1) * 1 \<le> 58 * (?n + 1) * 58 ^ length ds" by (rule mult_le_mono2) simp
  also have "\<dots> = (?n + 1) * 58 ^ length (d # ds)" by (simp add: algebra_simps)
  finally have "58 * (?n + 1) \<le> (?n + 1) * 58 ^ length (d # ds)" by simp
  then have "58 * (?n + 1) \<le> 256 ^ length b" using Cons.prems(2) by (rule le_trans)
  then have lt: "unat d + 58 * ?n < 256 ^ length b" using d by simp
  have "int (pval 256 b1) + int (256 ^ length b) * c = int (unat d + 58 * ?n)" using v by simp
  from no_carry [OF this _ lt] v have c: "c = 0" and p: "pval 256 b1 = unat d + 58 * ?n" by simp_all
  have "(pval 256 b1 + 1) * 58 ^ length ds \<le> (58 * (?n + 1)) * 58 ^ length ds" using p d by (intro mult_le_mono1) simp
  also have "\<dots> = (?n + 1) * 58 ^ length (d # ds)" by (simp add: algebra_simps)
  finally have "(pval 256 b1 + 1) * 58 ^ length ds \<le> (?n + 1) * 58 ^ length (d # ds)" .
  then have "(pval 256 b1 + 1) * 58 ^ length ds \<le> 256 ^ length b1" using Cons.prems(2) v by simp
  then obtain b' where b': "decode_chars b1 (base58_text ds @ rest) = decode_chars b' rest" "length b' = length b1"
    "pval 256 b' = pval 256 b1 * 58 ^ length ds + pval 58 (rev ds)"
    using Cons.IH [of b1] Cons.prems(1) by auto
  have "decode_chars b (base58_text (d # ds) @ rest) = decode_chars b1 (base58_text ds @ rest)"
    using base58_char [OF d] b1 c by (simp add: base58_text_def)
  then show ?case using b' v p by (intro exI [of _ b']) (simp add: pval_append algebra_simps)
qed (auto simp: base58_text_def)

lemma encode_bytes_value:
  assumes "digits_below 58 b" "\<forall>d \<in> set (drop len b). d = 0" "(pval 58 b + 1) * 256 ^ length p \<le> 58 ^ length b"
  shows "\<exists>b' len'. encode_bytes b len p = Some (b', len') \<and> length b' = length b \<and> digits_below 58 b' \<and>
    (\<forall>d \<in> set (drop len' b'). d = 0) \<and> pval 58 b' = pval 58 b * 256 ^ length p + pval 256 (rev p)"
  using assms
proof (induction p arbitrary: b len)
  case (Cons d p)
  obtain b1 c i where b1: "encode_carry (uint d) 0 len b = (b1, c, i)" by (metis prod.exhaust)
  note v = encode_carry_value [OF b1, simplified, OF Cons.prems(1,2)]
  let ?n = "pval 58 b"
  have d: "unat d < 256" using unat_lt2p [of d] by simp
  have "256 * (?n + 1) * 1 \<le> 256 * (?n + 1) * 256 ^ length p" by (rule mult_le_mono2) simp
  also have "\<dots> = (?n + 1) * 256 ^ length (d # p)" by (simp add: algebra_simps)
  finally have "256 * (?n + 1) \<le> 58 ^ length b" using Cons.prems(3) by simp
  then have lt: "unat d + 256 * ?n < 58 ^ length b" using d by simp
  have "int (pval 58 b1) + int (58 ^ length b) * c = int (unat d + 256 * ?n)" using v by simp
  from no_carry [OF this _ lt] v have c: "c = 0" and n: "pval 58 b1 = unat d + 256 * ?n" by simp_all
  have "(pval 58 b1 + 1) * 256 ^ length p \<le> (256 * (?n + 1)) * 256 ^ length p" using n d by (intro mult_le_mono1) simp
  also have "\<dots> = (?n + 1) * 256 ^ length (d # p)" by (simp add: algebra_simps)
  finally have "(pval 58 b1 + 1) * 256 ^ length p \<le> 58 ^ length b1" using Cons.prems(3) v by simp
  then obtain b' len' where b': "encode_bytes b1 i p = Some (b', len')" "length b' = length b1" "digits_below 58 b'"
    "\<forall>d \<in> set (drop len' b'). d = 0" "pval 58 b' = pval 58 b1 * 256 ^ length p + pval 256 (rev p)"
    using Cons.IH [of b1 i] v by auto
  have "encode_bytes b len (d # p) = encode_bytes b1 i p" using b1 c by simp
  then show ?case using b' v n by (intro exI [of _ b'] exI [of _ len']) (simp add: pval_append algebra_simps)
qed auto

text \<open>Encoding never fails; it writes one 1 for each leading zero byte and the digits of the number that the rest denotes.\<close>

lemma EncodeBase58_text:
  obtains ds where
    "EncodeBase58 v = Some (replicate (length (takeWhile (\<lambda>b. b = 0) v)) (CHR ''1'') @ base58_text (dropWhile (\<lambda>d. d = 0) ds))"
    "digits_below 58 ds" "pval 58 (rev ds) = pval 256 (rev v)"
proof -
  let ?p = "dropWhile (\<lambda>b. b = 0) v"
  define n where "n = length ?p * 138 div 100 + 1"
  have "256 ^ length ?p \<le> (58 :: nat) ^ n" unfolding n_def by (rule encode_size)
  then have "(pval 58 (replicate n 0) + 1) * 256 ^ length ?p \<le> 58 ^ length (replicate n (0 :: byte))" by simp
  from encode_bytes_value [OF _ _ this, of 0]
  obtain b len where b: "encode_bytes (replicate n 0) 0 ?p = Some (b, len)" "length b = n" "digits_below 58 b"
    "\<forall>d \<in> set (drop len b). d = 0" "pval 58 b = pval 256 (rev ?p)"
    by (auto simp: digits_below_def)
  let ?ds = "drop (n - len) (rev b)"
  have ds: "?ds = rev (take len b)" using b(2) by (cases "len \<le> n") (simp_all add: drop_rev)
  have "drop len b = replicate (length (drop len b)) 0" using b(4) by (intro replicate_eqI) auto
  then have "pval 58 (drop len b) = 0" by (metis pval_replicate_0)
  then have "pval 58 (take len b) = pval 58 b" using pval_append [of 58 "take len b" "drop len b"] by simp
  then have v: "pval 58 (rev ?ds) = pval 256 (rev v)" unfolding ds using b(5) by (simp add: pval_dropWhile)
  have "digits_below 58 ?ds" unfolding ds using b(3) by (auto simp: digits_below_def dest: in_set_takeD)
  then show thesis using that [of ?ds] v b(1) unfolding EncodeBase58_def Let_def base58_text_def n_def [symmetric] by simp
qed

lemma base58_text_of:
  "\<exists>ds. takeWhile (\<lambda>c. strchr pszBase58 c \<noteq> None) p = base58_text ds \<and> digits_below 58 ds"
proof (induction p)
  case (Cons c p)
  then obtain ds where ds: "takeWhile (\<lambda>c. strchr pszBase58 c \<noteq> None) p = base58_text ds" "digits_below 58 ds" by blast
  show ?case
  proof (cases "strchr pszBase58 c")
    case (Some d)
    then have "d < 58" "pszBase58 ! d = c" using strchr_Some [OF Some] pszBase58_props(2) by auto
    moreover have "unat (word_of_nat d :: byte) = d" using \<open>d < 58\<close> by (simp add: unsigned_of_nat take_bit_nat_eq_self)
    ultimately show ?thesis using Some ds by (intro exI [of _ "word_of_nat d # ds"]) (simp add: base58_text_def)
  qed (auto simp: base58_text_def intro: exI [of _ "[]"])
qed (auto simp: base58_text_def intro: exI [of _ "[]"])

lemma space_not_base58: "isspace c \<Longrightarrow> strchr pszBase58 c = None"
  using pszBase58_props(3) strchr_Some [of pszBase58 c] by (cases "strchr pszBase58 c") (auto dest: nth_mem)

lemma decode_chars_rest:
  assumes "\<And>c r. rest = c # r \<Longrightarrow> strchr pszBase58 c = None"
  shows "ebind (decode_chars b rest) (\<lambda>(b, psz). if dropWhile isspace psz \<noteq> [] then Some (Inl ()) else Some (Inr (f b))) =
    (if dropWhile isspace rest = [] then Some (Inr (f b)) else Some (Inl ()))"
proof (cases rest)
  case (Cons c r)
  then show ?thesis using assms [OF Cons] by simp
qed simp

text \<open>Decoding never fails on the carry assertion. What it reads after the leading spaces are ones, digits and a rest that must be blank.\<close>

lemma DecodeBase58_text:
  obtains z ds bs rest where
    "dropWhile isspace (c_str str) = replicate z (CHR ''1'') @ base58_text ds @ rest" "digits_below 58 ds" "ds = [] \<or> hd ds \<noteq> 0"
    "\<And>c r. rest = c # r \<Longrightarrow> strchr pszBase58 c = None" "pval 256 (rev bs) = pval 58 (rev ds)"
    "DecodeBase58 str = (if dropWhile isspace rest = [] then Some (Inr (replicate z 0 @ dropWhile (\<lambda>b. b = 0) bs)) else Some (Inl ()))"
proof -
  let ?s = "dropWhile isspace (c_str str)"
  let ?o = "takeWhile (\<lambda>c. c = CHR ''1'') ?s" and ?p = "dropWhile (\<lambda>c. c = CHR ''1'') ?s"
  let ?w = "takeWhile (\<lambda>c. strchr pszBase58 c \<noteq> None) ?p" and ?r = "dropWhile (\<lambda>c. strchr pszBase58 c \<noteq> None) ?p"
  obtain ds where ds: "?w = base58_text ds" "digits_below 58 ds" using base58_text_of by blast
  have p: "?p = base58_text ds @ ?r" using ds(1) by (metis takeWhile_dropWhile_id)
  have z: "?o = replicate (length ?o) (CHR ''1'')" by (rule replicate_eqI) (auto dest: set_takeWhileD)
  have s: "?s = replicate (length ?o) (CHR ''1'') @ base58_text ds @ ?r" using p z by (metis takeWhile_dropWhile_id)
  have h: "ds = [] \<or> hd ds \<noteq> 0"
  proof (cases ds)
    case (Cons d ds')
    then have "?p = pszBase58 ! unat d # (base58_text ds' @ ?r)" using p by (metis append_Cons base58_text_def list.simps(9))
    then have "hd ?p = pszBase58 ! unat d" "?p \<noteq> []" by (metis list.sel(1), metis list.distinct(1))
    then have "pszBase58 ! unat d \<noteq> CHR ''1''" using hd_dropWhile [of "\<lambda>c. c = CHR ''1''" ?s] by metis
    then show ?thesis using Cons ds(2) base58_char(4) [of d] by simp
  qed simp
  have r: "strchr pszBase58 c = None" if "?r = c # r" for c r
    using hd_dropWhile [of "\<lambda>c. strchr pszBase58 c \<noteq> None" ?p] that by (metis list.distinct(1) list.sel(1))
  define n where "n = length ?p * 733 div 1000 + 1"
  have "length ds \<le> length ?p" using p by (metis base58_text_def length_append length_map le_add1)
  then have "58 ^ length ds \<le> (58 :: nat) ^ length ?p" by (intro power_increasing) simp_all
  also have "\<dots> \<le> 256 ^ n" unfolding n_def by (rule decode_size)
  finally have "(pval 256 (replicate n 0) + 1) * 58 ^ length ds \<le> 256 ^ length (replicate n (0 :: byte))" by simp
  from decode_chars_digits [OF ds(2) this, of ?r]
  obtain b where b: "decode_chars (replicate n 0) ?p = decode_chars b ?r" "pval 256 b = pval 58 (rev ds)" using p by auto
  have "DecodeBase58 str = ebind (decode_chars (replicate n 0) ?p) (\<lambda>(b, psz). if dropWhile isspace psz \<noteq> [] then Some (Inl ())
      else Some (Inr (replicate (length ?o) 0 @ dropWhile (\<lambda>b. b = 0) (rev b))))"
    unfolding DecodeBase58_def Let_def n_def ..
  also have "\<dots> = (if dropWhile isspace ?r = [] then Some (Inr (replicate (length ?o) 0 @ dropWhile (\<lambda>b. b = 0) (rev b))) else Some (Inl ()))"
    unfolding b(1) by (rule decode_chars_rest) (rule r)
  finally show thesis using that [where bs = "rev b", OF s ds(2) h r] b(2) by simp
qed

section \<open>Round trips\<close>

lemma base58_text_inj: "digits_below 58 xs \<Longrightarrow> digits_below 58 ys \<Longrightarrow> base58_text xs = base58_text ys \<Longrightarrow> xs = ys"
proof (induction xs arbitrary: ys)
  case (Cons x xs)
  then obtain y ys' where ys: "ys = y # ys'" "pszBase58 ! unat x = pszBase58 ! unat y" "base58_text xs = base58_text ys'"
    by (cases ys) (auto simp: base58_text_def)
  have "unat x < 58" "unat y < 58" using Cons.prems(1,2) ys(1) by simp_all
  then have "Some (unat x) = Some (unat y)" using base58_char(1) [of x] base58_char(1) [of y] ys(2) by metis
  then have "x = y" by (simp add: word_unat_eq_iff)
  then show ?case using Cons ys by simp
qed (simp add: base58_text_def)

lemma base58_text_zeros: "base58_text (replicate z 0 @ ds) = replicate z (CHR ''1'') @ base58_text ds"
  using pszBase58_props(4) by (simp add: base58_text_def)

lemma leading_zeros: "ds = [] \<or> hd ds \<noteq> 0 \<Longrightarrow>
    takeWhile (\<lambda>d. d = 0) (replicate z 0 @ ds) = replicate z 0 \<and> dropWhile (\<lambda>d. d = 0) (replicate z 0 @ ds) = (ds :: bytes)"
  by (induction z; cases ds) auto

lemma digits_below_zeros: "digits_below 58 (replicate z 0)"
  by (auto simp: digits_below_def)

lemma base58_text_unique:
  assumes "replicate z (CHR ''1'') @ base58_text a = replicate z' (CHR ''1'') @ base58_text b"
    and "digits_below 58 a" "digits_below 58 b" "a = [] \<or> hd a \<noteq> 0" "b = [] \<or> hd b \<noteq> 0"
  shows "z = z' \<and> a = b"
proof -
  have "replicate z 0 @ a = replicate z' 0 @ b"
    using assms by (intro base58_text_inj) (simp_all add: base58_text_zeros digits_below_zeros)
  then show ?thesis using leading_zeros [OF assms(4), of z] leading_zeros [OF assms(5), of z'] by (metis length_replicate)
qed

lemma base58_text_chars: "digits_below 58 ds \<Longrightarrow> c \<in> set (base58_text ds) \<Longrightarrow> strchr pszBase58 c \<noteq> None \<and> \<not> isspace c \<and> c \<noteq> CHR 0x00"
  using base58_char by (auto simp: base58_text_def digits_below_def)

lemma hd_dropWhile_zero: "dropWhile (\<lambda>d. d = 0) (ds :: bytes) = [] \<or> hd (dropWhile (\<lambda>d. d = 0) ds) \<noteq> 0"
  using hd_dropWhile [of "\<lambda>d. d = 0" ds] by auto

lemma digits_below_dropWhile: "digits_below B ds \<Longrightarrow> digits_below B (dropWhile P ds)"
  by (auto simp: digits_below_def dest: set_dropWhileD)

lemma DecodeBase58_EncodeBase58: "\<exists>t. EncodeBase58 v = Some t \<and> DecodeBase58 t = Some (Inr v)"
proof -
  let ?z = "length (takeWhile (\<lambda>b. b = 0) v)"
  obtain ds where e: "EncodeBase58 v = Some (replicate ?z (CHR ''1'') @ base58_text (dropWhile (\<lambda>d. d = 0) ds))"
    and d: "digits_below 58 ds" and n: "pval 58 (rev ds) = pval 256 (rev v)"
    by (rule EncodeBase58_text)
  let ?ds = "dropWhile (\<lambda>d. d = 0) ds"
  define t where "t = replicate ?z (CHR ''1'') @ base58_text ?ds"
  have ds: "digits_below 58 ?ds" using d by (rule digits_below_dropWhile)
  have t: "t = base58_text (replicate ?z 0 @ ?ds)" unfolding t_def base58_text_zeros ..
  have ok: "strchr pszBase58 c \<noteq> None \<and> \<not> isspace c \<and> c \<noteq> CHR 0x00" if "c \<in> set t" for c
    using base58_text_chars [of "replicate ?z 0 @ ?ds" c] ds that unfolding t by (simp add: digits_below_zeros)
  have c: "c_str t = t" unfolding c_str_def by (subst takeWhile_eq_all_conv) (use ok in auto)
  have s: "dropWhile isspace t = t" using ok by (cases t) auto
  obtain z' ds' bs rest where r: "dropWhile isspace (c_str t) = replicate z' (CHR ''1'') @ base58_text ds' @ rest"
    and r2: "digits_below 58 ds'" "ds' = [] \<or> hd ds' \<noteq> 0" "\<And>c r. rest = c # r \<Longrightarrow> strchr pszBase58 c = None"
      "pval 256 (rev bs) = pval 58 (rev ds')"
      "DecodeBase58 t = (if dropWhile isspace rest = [] then Some (Inr (replicate z' 0 @ dropWhile (\<lambda>b. b = 0) bs)) else Some (Inl ()))"
    by (rule DecodeBase58_text [of t]) (rule that)
  have rest: "rest = []"
  proof (cases rest)
    case (Cons a x)
    then have "a \<in> set t" using r unfolding c s by simp
    then show ?thesis using ok [of a] r2(3) [OF Cons] by blast
  qed
  have u: "?z = z' \<and> ?ds = ds'"
  proof (rule base58_text_unique)
    show "replicate ?z (CHR ''1'') @ base58_text ?ds = replicate z' (CHR ''1'') @ base58_text ds'"
      using r unfolding c s rest unfolding t_def by simp
  qed (rule ds r2 hd_dropWhile_zero)+
  then have "pval 256 (rev bs) = pval 256 (rev v)" using r2(4) n pval_dropWhile [of 58 ds] by simp
  then have b: "dropWhile (\<lambda>b. b = 0) bs = dropWhile (\<lambda>b. b = 0) v" by (rule pval_unique) (simp_all add: digits_below_256)
  have "takeWhile (\<lambda>b. b = 0) v = replicate ?z 0" by (rule replicate_eqI) (auto dest: set_takeWhileD)
  then have "replicate z' 0 @ dropWhile (\<lambda>b. b = 0) bs = v" using u unfolding b by (metis takeWhile_dropWhile_id)
  then have "DecodeBase58 t = Some (Inr v)" using r2(5) rest by simp
  then show ?thesis using e t_def by blast
qed

text \<open>The other direction: a text that decodes is the encoding of its value between blanks.\<close>

lemma takeWhile_blank_rest:
  assumes "\<And>c. c \<in> set xs \<Longrightarrow> \<not> isspace c" "dropWhile isspace rest = []"
  shows "takeWhile (\<lambda>c. \<not> isspace c) (xs @ rest) = xs"
  using assms by (cases rest) (auto simp: takeWhile_tail split: if_splits)

lemma EncodeBase58_DecodeBase58:
  assumes "DecodeBase58 str = Some (Inr v)"
  shows "EncodeBase58 v = Some (takeWhile (\<lambda>c. \<not> isspace c) (dropWhile isspace (c_str str)))"
proof -
  obtain z ds bs rest where r: "dropWhile isspace (c_str str) = replicate z (CHR ''1'') @ base58_text ds @ rest"
    and r2: "digits_below 58 ds" "ds = [] \<or> hd ds \<noteq> 0" "pval 256 (rev bs) = pval 58 (rev ds)"
      "DecodeBase58 str = (if dropWhile isspace rest = [] then Some (Inr (replicate z 0 @ dropWhile (\<lambda>b. b = 0) bs)) else Some (Inl ()))"
    by (rule DecodeBase58_text [of str]) (rule that)
  have v: "v = replicate z 0 @ dropWhile (\<lambda>b. b = 0) bs" and rest: "dropWhile isspace rest = []"
    using assms r2(4) by (simp_all split: if_splits)
  have z: "takeWhile (\<lambda>b. b = 0) v = replicate z 0"
    unfolding v using leading_zeros [OF hd_dropWhile_zero, of z bs] by blast
  obtain es where e: "EncodeBase58 v = Some (replicate (length (takeWhile (\<lambda>b. b = 0) v)) (CHR ''1'') @ base58_text (dropWhile (\<lambda>d. d = 0) es))"
    "digits_below 58 es" "pval 58 (rev es) = pval 256 (rev v)"
    by (rule EncodeBase58_text)
  have "pval 256 (rev v) = pval 256 (rev bs)" unfolding v by (simp add: pval_append pval_dropWhile)
  then have "pval 58 (rev es) = pval 58 (rev ds)" using e(3) r2(3) by simp
  then have "dropWhile (\<lambda>d. d = 0) es = dropWhile (\<lambda>d. d = 0) ds" using e(2) r2(1) by (rule pval_unique) simp
  also have "\<dots> = ds" using leading_zeros [OF r2(2), of 0] by simp
  finally have e': "EncodeBase58 v = Some (base58_text (replicate z 0 @ ds))" using e(1) unfolding z base58_text_zeros by simp
  have "\<not> isspace c" if "c \<in> set (base58_text (replicate z 0 @ ds))" for c
    using base58_text_chars [OF _ that] r2(1) by (simp add: digits_below_zeros)
  from takeWhile_blank_rest [of "base58_text (replicate z 0 @ ds)", OF this rest] show ?thesis
    unfolding e' r base58_text_zeros by simp
qed

lemma DecodeBase58_returns: "DecodeBase58 str \<noteq> None"
  by (rule DecodeBase58_text [of str]) simp

section \<open>The checksum\<close>

lemma DecodeBase58Check_checksum: "length junk = 64 \<Longrightarrow> DecodeBase58 str = Some (Inr v) \<Longrightarrow>
   DecodeBase58Check junk str =
     (let p = take (length v - 4) v
      in if length v < 4 \<or> take 4 (fips_sha256 (fips_sha256 p)) \<noteq> drop (length v - 4) v then Some (False, []) else Some (True, p))"
  by (simp add: DecodeBase58Check_def Hash1_sha256 Let_def)

lemma DecodeBase58Check_EncodeBase58Check:
  assumes "length junk = 64"
  shows "\<exists>t. EncodeBase58Check junk p = Some t \<and> DecodeBase58Check junk t = Some (True, p)"
proof -
  let ?v = "p @ take 4 (fips_sha256 (fips_sha256 p))"
  obtain t where t: "EncodeBase58 ?v = Some t" "DecodeBase58 t = Some (Inr ?v)" using DecodeBase58_EncodeBase58 by blast
  have "DecodeBase58Check junk t = Some (True, p)"
    using DecodeBase58Check_checksum [OF assms t(2)] by (simp add: length_fips_sha256)
  then show ?thesis using t(1) by (simp add: EncodeBase58Check_def Hash1_sha256 [OF assms])
qed

lemma EncodeBase58Check_DecodeBase58Check:
  assumes "length junk = 64" "DecodeBase58Check junk str = Some (True, q)"
  shows "EncodeBase58Check junk q = Some (takeWhile (\<lambda>c. \<not> isspace c) (dropWhile isspace (c_str str)))"
proof -
  obtain v where v: "DecodeBase58 str = Some (Inr v)"
    using assms(2) by (cases "DecodeBase58 str") (auto simp: DecodeBase58Check_def split: sum.splits)
  then have "4 \<le> length v" "q = take (length v - 4) v" "take 4 (fips_sha256 (fips_sha256 q)) = drop (length v - 4) v"
    using DecodeBase58Check_checksum [OF assms(1) v] assms(2) by (auto simp: Let_def split: if_splits)
  then have "q @ take 4 (fips_sha256 (fips_sha256 q)) = v" by simp
  then show ?thesis using EncodeBase58_DecodeBase58 [OF v] by (simp add: EncodeBase58Check_def Hash1_sha256 [OF assms(1)])
qed

lemma DecodeBase58Check_returns:
  assumes "length junk = 64"
  shows "\<exists>ok q. DecodeBase58Check junk str = Some (ok, q) \<and> (\<not> ok \<longrightarrow> q = [])"
  using DecodeBase58_returns [of str] Hash1_sha256 [OF assms]
  by (auto simp: DecodeBase58Check_def split: sum.split)

text \<open>C19. Base58 text with a checksum is a round trip in both directions. Encoding a payload never trips the carry assertion,
  and the text decodes to the payload. Decoding never trips the assertion either: it refuses a text with an empty payload,
  or the text between the leading and the trailing blanks is the one encoding of the payload it returns.\<close>

theorem base58check_roundtrip:
  assumes "length junk = 64"
  shows "(\<exists>t. EncodeBase58Check junk p = Some t \<and> DecodeBase58Check junk t = Some (True, p)) \<and>
    (\<exists>ok q. DecodeBase58Check junk str = Some (ok, q) \<and>
      (if ok then EncodeBase58Check junk q = Some (takeWhile (\<lambda>c. \<not> isspace c) (dropWhile isspace (c_str str))) else q = []))"
  using DecodeBase58Check_EncodeBase58Check [OF assms] EncodeBase58Check_DecodeBase58Check [OF assms]
    DecodeBase58Check_returns [OF assms, of str] by (metis (full_types))

text \<open>Witness: two zero bytes and a version byte.\<close>

theorem base58check_roundtrip_witness:
  "\<exists>t. EncodeBase58Check (replicate 64 0) [0, 0, 68] = Some t \<and> DecodeBase58Check (replicate 64 0) t = Some (True, [0, 0, 68])"
  using base58check_roundtrip [of "replicate 64 0" "[0, 0, 68]"] by simp

end
