(* ===== verification/Standard.thy ===== *)
theory Standard
  imports Verify_Script
begin

text \<open>
  \<^verbatim>\<open>script/standard.h\<close> and \<^verbatim>\<open>script/standard.cpp\<close>: the templates of standard output scripts, the solver that matches a script
  against them, and the scripts for destinations. \<open>Inl ()\<close> is the return value false that leaves the output arguments alone,
  \<open>None\<close> a failing assertion or an access past the end. \<open>junkk\<close>, \<open>junk\<close> and \<open>junkr\<close> are the uninitialised buffers of a public key
  and of the hash objects.
\<close>

section \<open>Types\<close>

datatype txnouttype = TX_NONSTANDARD | TX_PUBKEY | TX_PUBKEYHASH | TX_SCRIPTHASH | TX_MULTISIG | TX_NULL_DATA

datatype CTxDestination = CNoDestination | CKeyID bytes | CScriptID bytes

definition CScriptID_of :: "bytes \<Rightarrow> bytes \<Rightarrow> bytes \<Rightarrow> CTxDestination option" where
  "CScriptID_of junk junkr script = map_option CScriptID (Hash160 junk junkr script)"

fun GetTxnOutputType :: "txnouttype \<Rightarrow> string" where
  "GetTxnOutputType TX_NONSTANDARD = ''nonstandard''"
| "GetTxnOutputType TX_PUBKEY = ''pubkey''"
| "GetTxnOutputType TX_PUBKEYHASH = ''pubkeyhash''"
| "GetTxnOutputType TX_SCRIPTHASH = ''scripthash''"
| "GetTxnOutputType TX_MULTISIG = ''multisig''"
| "GetTxnOutputType TX_NULL_DATA = ''nulldata''"

section \<open>The solver\<close>

text \<open>The multimap of templates, in the order of its keys.\<close>

definition mTemplates :: "(txnouttype \<times> bytes) list" where
  "mTemplates =
     [(TX_PUBKEY, [OP_PUBKEY, OP_CHECKSIG]),
      (TX_PUBKEYHASH, [OP_DUP, OP_HASH160, OP_PUBKEYHASH, OP_EQUALVERIFY, OP_CHECKSIG]),
      (TX_MULTISIG, [OP_SMALLINTEGER, OP_PUBKEYS, OP_SMALLINTEGER, OP_CHECKMULTISIG])]"

text \<open>The loop for \<^verbatim>\<open>OP_PUBKEYS\<close>; it ends with the first operation that is no key, or with a failing read.\<close>

function pubkeys_loop :: "byte \<Rightarrow> bytes \<Rightarrow> bytes \<Rightarrow> bytes list \<Rightarrow> byte \<times> bytes \<times> bytes \<times> bytes list" where
  "pubkeys_loop opcode1 vch1 pc1 vSolutionsRet =
     (if length vch1 \<ge> 33 \<and> length vch1 \<le> 65 then
        (case GetOp2 pc1 of
           None \<Rightarrow> (OP_INVALIDOPCODE, [], GetOp2_stop pc1, vSolutionsRet @ [vch1])
         | Some (opcode1, vch1', pc1') \<Rightarrow> pubkeys_loop opcode1 vch1' pc1' (vSolutionsRet @ [vch1]))
      else (opcode1, vch1, pc1, vSolutionsRet))"
  by pat_completeness auto
termination
  by (relation "measure (\<lambda>(opcode1, vch1, pc1, vSolutionsRet). length pc1)") (auto simp: GetOp2_shorter)

declare pubkeys_loop.simps [simp del]

text \<open>One operation of the script against one of the template: \<open>Inl ()\<close> where the source leaves the loop, \<open>Inr\<close> the solutions so far.\<close>

definition match_op :: "byte \<Rightarrow> bytes \<Rightarrow> byte \<Rightarrow> bytes \<Rightarrow> bytes list \<Rightarrow> (unit + bytes list) option" where
  "match_op opcode1 vch1 opcode2 vch2 sol =
     (if opcode2 = OP_PUBKEY then
        (if length vch1 < 33 \<or> length vch1 > 65 then Some (Inl ()) else Some (Inr (sol @ [vch1])))
      else if opcode2 = OP_PUBKEYHASH then
        (if length vch1 \<noteq> 20 then Some (Inl ()) else Some (Inr (sol @ [vch1])))
      else if opcode2 = OP_SMALLINTEGER then
        (if opcode1 = OP_0 \<or> (opcode1 \<ge> OP_1 \<and> opcode1 \<le> OP_16)
         then do { n \<leftarrow> DecodeOP_N opcode1; Some (Inr (sol @ [[word_of_int n]])) }
         else Some (Inl ()))
      else if opcode1 \<noteq> opcode2 \<or> vch1 \<noteq> vch2 then Some (Inl ())
      else Some (Inr sol))"

text \<open>The comparison of a script with a template.\<close>

function match_template :: "bytes \<Rightarrow> bytes \<Rightarrow> bytes list \<Rightarrow> (unit + bytes list) option" where
  "match_template pc1 pc2 vSolutionsRet =
     (if pc1 = [] \<and> pc2 = [] then Some (Inr vSolutionsRet)
      else case GetOp2 pc1 of None \<Rightarrow> Some (Inl ()) | Some (opcode1, vch1, pc1a) \<Rightarrow>
        (case GetOp2 pc2 of None \<Rightarrow> Some (Inl ()) | Some (opcode2, vch2, pc2a) \<Rightarrow>
          (case (if opcode2 = OP_PUBKEYS then pubkeys_loop opcode1 vch1 pc1a vSolutionsRet else (opcode1, vch1, pc1a, vSolutionsRet)) of
             (opcode1, vch1, pc1b, sol) \<Rightarrow>
               (case (if opcode2 = OP_PUBKEYS then GetOp2 pc2a else Some (opcode2, vch2, pc2a)) of None \<Rightarrow> Some (Inl ())
                | Some (opcode2, vch2, pc2b) \<Rightarrow>
                    (case match_op opcode1 vch1 opcode2 vch2 sol of
                       None \<Rightarrow> None
                     | Some (Inl _) \<Rightarrow> Some (Inl ())
                     | Some (Inr sol) \<Rightarrow> match_template pc1b pc2b sol)))))"
  by pat_completeness auto
termination
proof (relation "measure (\<lambda>(pc1, pc2, vSolutionsRet). length pc2)", goal_cases)
qed (auto split: if_splits dest!: GetOp2_shorter)

declare match_template.simps [simp del]

fun scan_templates :: "bytes \<Rightarrow> (txnouttype \<times> bytes) list \<Rightarrow> (bool \<times> txnouttype \<times> bytes list) option" where
  "scan_templates script1 [] = Some (False, TX_NONSTANDARD, [])"
| "scan_templates script1 ((typeRet, script2) # templates) =
     (case match_template script1 script2 [] of
        None \<Rightarrow> None
      | Some (Inl _) \<Rightarrow> scan_templates script1 templates
      | Some (Inr vSolutionsRet) \<Rightarrow>
          if typeRet = TX_MULTISIG then
            (if vSolutionsRet = [] \<or> hd vSolutionsRet = [] \<or> last vSolutionsRet = [] then None
             else let m = hd (hd vSolutionsRet); n = hd (last vSolutionsRet) in
               if m < 1 \<or> n < 1 \<or> m > n \<or> int (length vSolutionsRet) - 2 \<noteq> uint n
               then Some (False, typeRet, vSolutionsRet) else Some (True, typeRet, vSolutionsRet))
          else Some (True, typeRet, vSolutionsRet))"

definition Solver :: "bytes \<Rightarrow> (bool \<times> txnouttype \<times> bytes list) option" where
  "Solver script =
     (if IsPayToScriptHash script then Some (True, TX_SCRIPTHASH, [take 20 (drop 2 script)])
      else if length script \<ge> 1 \<and> script ! 0 = OP_RETURN \<and> IsPushOnly (drop 1 script) then Some (True, TX_NULL_DATA, [])
      else scan_templates script mTemplates)"

section \<open>Destinations\<close>

definition ExtractDestination :: "bytes \<Rightarrow> bytes \<Rightarrow> bytes \<Rightarrow> bytes \<Rightarrow> (unit + CTxDestination) option" where
  "ExtractDestination junkk junk junkr script = do {
     (ok, whichType, vSolutions) \<leftarrow> Solver script;
     if \<not> ok then Some (Inl ())
     else if whichType \<in> {TX_PUBKEY, TX_PUBKEYHASH, TX_SCRIPTHASH} \<and> vSolutions = [] then None
     else if whichType = TX_PUBKEY then
       (let pubKey = CPubKey_of junkk (vSolutions ! 0) in
        if \<not> CPubKey_IsValid pubKey then Some (Inl ())
        else do { h \<leftarrow> CPubKey_GetID junk junkr pubKey; Some (Inr (CKeyID h)) })
     else if whichType = TX_PUBKEYHASH then do { id \<leftarrow> base_blob_of 20 (vSolutions ! 0); Some (Inr (CKeyID id)) }
     else if whichType = TX_SCRIPTHASH then do { id \<leftarrow> base_blob_of 20 (vSolutions ! 0); Some (Inr (CScriptID id)) }
     else Some (Inl ())
   }"

text \<open>The keys of a multisignature script that are well formed, as destinations.\<close>

fun multisig_addresses :: "bytes \<Rightarrow> bytes \<Rightarrow> bytes \<Rightarrow> bytes list \<Rightarrow> CTxDestination list option" where
  "multisig_addresses junkk junk junkr [] = Some []"
| "multisig_addresses junkk junk junkr (v # vs) =
     (let pubKey = CPubKey_of junkk v in
      if \<not> CPubKey_IsValid pubKey then multisig_addresses junkk junk junkr vs
      else do {
        address \<leftarrow> CPubKey_GetID junk junkr pubKey;
        rest \<leftarrow> multisig_addresses junkk junk junkr vs;
        Some (CKeyID address # rest)
      })"

text \<open>The return value and the three output arguments; \<open>nRequiredRet\<close> keeps its value on the first returns.\<close>

definition ExtractDestinations ::
  "bytes \<Rightarrow> bytes \<Rightarrow> bytes \<Rightarrow> bytes \<Rightarrow> int \<Rightarrow> (bool \<times> txnouttype \<times> CTxDestination list \<times> int) option" where
  "ExtractDestinations junkk junk junkr script nRequiredRet = do {
     (ok, typeRet, vSolutions) \<leftarrow> Solver script;
     if \<not> ok then Some (False, typeRet, [], nRequiredRet)
     else if typeRet = TX_NULL_DATA then Some (False, typeRet, [], nRequiredRet)
     else if typeRet = TX_MULTISIG then
       (if vSolutions = [] \<or> hd vSolutions = [] then None
        else do {
          addressRet \<leftarrow> multisig_addresses junkk junk junkr (butlast (tl vSolutions));
          Some (addressRet \<noteq> [], typeRet, addressRet, uint (hd (hd vSolutions)))
        })
     else do {
       r \<leftarrow> ExtractDestination junkk junk junkr script;
       Some (case r of Inl _ \<Rightarrow> (False, typeRet, [], 1) | Inr address \<Rightarrow> (True, typeRet, [address], 1))
     }
   }"

fun GetScriptForDestination :: "CTxDestination \<Rightarrow> bytes" where
  "GetScriptForDestination CNoDestination = []"
| "GetScriptForDestination (CKeyID keyID) =
     push_opcode (push_opcode (push_data (push_opcode (push_opcode [] OP_DUP) OP_HASH160) keyID) OP_EQUALVERIFY) OP_CHECKSIG"
| "GetScriptForDestination (CScriptID scriptID) = push_opcode (push_data (push_opcode [] OP_HASH160) scriptID) OP_EQUAL"

definition GetScriptForRawPubKey :: "CPubKey \<Rightarrow> bytes" where
  "GetScriptForRawPubKey pubKey = push_opcode (push_data [] (CPubKey_data pubKey)) OP_CHECKSIG"

definition GetScriptForMultisig :: "int \<Rightarrow> CPubKey list \<Rightarrow> bytes option" where
  "GetScriptForMultisig nRequired keys = do {
     m \<leftarrow> EncodeOP_N nRequired;
     n \<leftarrow> EncodeOP_N (int (length keys));
     Some (push_opcode (push_opcode (foldl (\<lambda>script key. push_data script (CPubKey_data key)) (push_opcode [] m) keys) n) OP_CHECKMULTISIG)
   }"

definition GetScriptForWitness :: "bytes \<Rightarrow> bytes \<Rightarrow> bytes \<Rightarrow> bytes option" where
  "GetScriptForWitness junk junkr redeemscript = do {
     (ok, typ, vSolutions) \<leftarrow> Solver redeemscript;
     if ok \<and> typ = TX_PUBKEY then
       (case vSolutions of [] \<Rightarrow> None
        | key # _ \<Rightarrow> do { h160 \<leftarrow> Hash160 junk junkr key; Some (push_data (push_opcode [] OP_0) h160) })
     else if ok \<and> typ = TX_PUBKEYHASH then
       (case vSolutions of [] \<Rightarrow> None | h # _ \<Rightarrow> Some (push_data (push_opcode [] OP_0) h))
     else do {
       h \<leftarrow> CSHA256_Write (CSHA256 junk) redeemscript;
       (_, hash) \<leftarrow> CSHA256_Finalize h;
       Some (push_data (push_opcode [] OP_0) hash)
     }
   }"

section \<open>What the solver accepts\<close>

text \<open>A sequence of operations that is read from a script and leaves the rest \<open>r\<close>.\<close>

fun reads_ops :: "bytes \<Rightarrow> (byte \<times> bytes) list \<Rightarrow> bytes \<Rightarrow> bool" where
  "reads_ops s [] r \<longleftrightarrow> s = r"
| "reads_ops s ((opcode, v) # ops) r \<longleftrightarrow> (\<exists>s'. GetOp2 s = Some (opcode, v, s') \<and> reads_ops s' ops r)"

lemma reads_ops_append: "reads_ops s (xs @ ys) r \<longleftrightarrow> (\<exists>m. reads_ops s xs m \<and> reads_ops m ys r)"
  by (induction xs arbitrary: s) (auto, blast+)

lemma instructions_reads: "instructions s = Some ops \<longleftrightarrow> reads_ops s ops []"
proof (induction ops arbitrary: s)
  case Nil
  show ?case by (subst instructions.simps) (auto split: option.split)
next
  case (Cons x ops)
  obtain opcode v where x: "x = (opcode, v)" by (cases x)
  show ?case
  proof (cases "s = []")
    case False
    then show ?thesis using Cons.IH unfolding x by (subst instructions.simps) (auto split: option.split)
  qed (simp add: x instructions.simps)
qed

definition key_sized :: "bytes \<Rightarrow> bool" where
  "key_sized v \<longleftrightarrow> 33 \<le> length v \<and> length v \<le> 65"

lemma ex_list_split: "(\<exists>ks. P ks) \<longleftrightarrow> P [] \<or> (\<exists>k ks. P (k # ks))"
  by (metis list.exhaust)

lemma pubkeys_loop_reads:
  assumes "opcode \<noteq> OP_INVALIDOPCODE"
  shows "GetOp2 s = Some (opcode1, vch1, pc1) \<Longrightarrow> pubkeys_loop opcode1 vch1 pc1 sol = (opcode, v, pc, sol') \<longleftrightarrow>
    (\<exists>ks. reads_ops s (ks @ [(opcode, v)]) pc \<and> (\<forall>k \<in> set ks. key_sized (snd k)) \<and> \<not> key_sized v \<and> sol' = sol @ map snd ks)"
proof (induction "length pc1" arbitrary: s opcode1 vch1 pc1 sol rule: less_induct)
  case less
  let ?P = "\<lambda>s sol ks. reads_ops s (ks @ [(opcode, v)]) pc \<and> (\<forall>k \<in> set ks. key_sized (snd k)) \<and> \<not> key_sized v \<and> sol' = sol @ map snd ks"
  have split: "(\<exists>ks. ?P s sol ks) \<longleftrightarrow> (opcode1, vch1, pc1, sol) = (opcode, v, pc, sol') \<and> \<not> key_sized v \<or>
      key_sized vch1 \<and> (\<exists>ks. ?P pc1 (sol @ [vch1]) ks)"
  proof -
    have "(\<exists>ks. ?P s sol ks) \<longleftrightarrow> ?P s sol [] \<or> (\<exists>k ks. ?P s sol (k # ks))" by (rule ex_list_split)
    also have "?P s sol [] \<longleftrightarrow> (opcode1, vch1, pc1, sol) = (opcode, v, pc, sol') \<and> \<not> key_sized v" using less(2) by auto
    also have "(\<exists>k ks. ?P s sol (k # ks)) \<longleftrightarrow> key_sized vch1 \<and> (\<exists>ks. ?P pc1 (sol @ [vch1]) ks)" using less(2) by auto
    finally show ?thesis .
  qed
  show ?case
  proof (cases "key_sized vch1")
    case False
    then have "pubkeys_loop opcode1 vch1 pc1 sol = (opcode1, vch1, pc1, sol)"
      by (subst pubkeys_loop.simps) (auto simp: key_sized_def)
    then show ?thesis using False unfolding split by auto
  next
    case True
    show ?thesis
    proof (cases "GetOp2 pc1")
      case None
      then have "pubkeys_loop opcode1 vch1 pc1 sol = (OP_INVALIDOPCODE, [], GetOp2_stop pc1, sol @ [vch1])"
        using True by (subst pubkeys_loop.simps) (auto simp: key_sized_def)
      moreover have "\<not> reads_ops pc1 (ks @ [(opcode, v)]) pc" for ks
        using None by (cases ks) auto
      ultimately show ?thesis using True assms unfolding split by auto
    next
      case (Some x)
      obtain o' v' pc' where g: "GetOp2 pc1 = Some (o', v', pc')" using Some by (cases x) auto
      then have "pubkeys_loop opcode1 vch1 pc1 sol = pubkeys_loop o' v' pc' (sol @ [vch1])"
        using True by (subst pubkeys_loop.simps) (auto simp: key_sized_def)
      then show ?thesis using less(1) [OF GetOp2_shorter [OF g] g, of "sol @ [vch1]"] True unfolding split by auto
    qed
  qed
qed

lemma DecodeOP_N_iff: "opcode = OP_0 \<or> OP_1 \<le> opcode \<and> opcode \<le> OP_16 \<longleftrightarrow> (\<exists>n. DecodeOP_N opcode = Some n)"
  by (auto simp: DecodeOP_N_def)

lemma EncodeOP_N_iff: "EncodeOP_N n = Some opcode \<longleftrightarrow> DecodeOP_N opcode = Some n"
proof -
  have u: "uint (word_of_int (80 + n) :: byte) = 80 + n" if "1 \<le> n" "n \<le> 16"
    unfolding uint_word_of_int using that by simp
  have zero: "EncodeOP_N 0 = Some opcode \<longleftrightarrow> opcode = OP_0" by (auto simp: EncodeOP_N_def)
  have d: "DecodeOP_N opcode = Some n \<longleftrightarrow> opcode = OP_0 \<and> n = 0 \<or> 81 \<le> uint opcode \<and> uint opcode \<le> 96 \<and> n = uint opcode - 80"
    by (auto simp: DecodeOP_N_def word_le_def)
  show ?thesis
  proof (cases "1 \<le> n \<and> n \<le> 16")
    case True
    then have "EncodeOP_N n = Some opcode \<longleftrightarrow> word_of_int (80 + n) = opcode" by (simp add: EncodeOP_N_def)
    also have "\<dots> \<longleftrightarrow> uint opcode = 80 + n" using u True by (metis word_of_int_uint)
    finally show ?thesis unfolding d using True by auto
  next
    case False
    then show ?thesis unfolding d using zero by (cases "n = 0") (auto simp: EncodeOP_N_def)
  qed
qed

lemma GetOp2_small: "GetOp2 s = Some (opcode, v, r) \<Longrightarrow> DecodeOP_N opcode = Some n \<Longrightarrow> v = []"
proof (cases s)
  case (Cons b pc)
  assume g: "GetOp2 s = Some (opcode, v, r)" and d: "DecodeOP_N opcode = Some n"
  have b: "b = opcode" using GetOp2_opcode [OF g] Cons by auto
  show ?thesis
  proof (cases "opcode = OP_0")
    case False
    then have "OP_PUSHDATA4 < opcode" using d by (auto simp: DecodeOP_N_def word_less_def word_le_def split: if_splits)
    then show ?thesis using g GetOp2_high [of opcode pc] Cons b by simp
  qed (use g Cons b in \<open>auto simp: GetOp2_size_def\<close>)
qed simp

lemma match_op_returns: "match_op opcode1 vch1 opcode2 vch2 sol \<noteq> None"
  using DecodeOP_N_iff [of opcode1] by (auto simp: match_op_def)

lemma match_op_Inr:
  "match_op opcode1 vch1 OP_PUBKEY vch2 sol = Some (Inr r) \<longleftrightarrow> key_sized vch1 \<and> r = sol @ [vch1]"
  "match_op opcode1 vch1 OP_PUBKEYHASH vch2 sol = Some (Inr r) \<longleftrightarrow> length vch1 = 20 \<and> r = sol @ [vch1]"
  "match_op opcode1 vch1 OP_SMALLINTEGER vch2 sol = Some (Inr r) \<longleftrightarrow> (\<exists>n. DecodeOP_N opcode1 = Some n \<and> r = sol @ [[word_of_int n]])"
  "opcode2 \<notin> {OP_PUBKEY, OP_PUBKEYHASH, OP_SMALLINTEGER} \<Longrightarrow>
   match_op opcode1 vch1 opcode2 vch2 sol = Some (Inr r) \<longleftrightarrow> opcode1 = opcode2 \<and> vch1 = vch2 \<and> r = sol"
  using DecodeOP_N_iff [of opcode1] by (auto simp: match_op_def key_sized_def)

lemma match_Nil: "match_template s [] sol = Some (Inr r) \<longleftrightarrow> s = [] \<and> r = sol"
  by (subst match_template.simps) (auto split: option.split)

text \<open>One step on a template that does not start with \<^verbatim>\<open>OP_PUBKEYS\<close>.\<close>

lemma match_step:
  assumes "opcode > OP_PUSHDATA4" "opcode \<noteq> OP_PUBKEYS"
  shows "match_template s (opcode # t) sol = Some (Inr r) \<longleftrightarrow>
    (\<exists>opcode1 v s' sol'. GetOp2 s = Some (opcode1, v, s') \<and> match_op opcode1 v opcode [] sol = Some (Inr sol') \<and>
       match_template s' t sol' = Some (Inr r))"
  using assms by (subst match_template.simps) (auto split: option.split sum.split)

lemma reads_small: "reads_ops s (ks @ [(opcode, v)]) r \<Longrightarrow> DecodeOP_N opcode = Some n \<Longrightarrow> v = []"
  by (auto simp: reads_ops_append dest: GetOp2_small)

lemma match_keys:
  "match_template s (OP_PUBKEYS # OP_SMALLINTEGER # t) sol = Some (Inr r) \<longleftrightarrow>
    (\<exists>ks opcode n s'. reads_ops s (ks @ [(opcode, [])]) s' \<and> (\<forall>k \<in> set ks. key_sized (snd k)) \<and> DecodeOP_N opcode = Some n \<and>
       match_template s' t (sol @ map snd ks @ [[word_of_int n]]) = Some (Inr r))" (is "?l \<longleftrightarrow> ?r")
proof (cases "GetOp2 s")
  case None
  then have "\<not> reads_ops s (ks @ [x]) s'" for ks x s' by (cases ks; cases x) auto
  moreover have "\<not> ?l" using None by (subst match_template.simps) simp
  ultimately show ?thesis by blast
next
  case (Some x)
  obtain opcode1 vch1 pc1 where g: "GetOp2 s = Some (opcode1, vch1, pc1)" using Some by (cases x) auto
  obtain opcode v pc sol' where loop: "pubkeys_loop opcode1 vch1 pc1 sol = (opcode, v, pc, sol')" by (metis prod_cases4)
  have l: "?l \<longleftrightarrow> (\<exists>n. DecodeOP_N opcode = Some n \<and> match_template pc t (sol' @ [[word_of_int n]]) = Some (Inr r))"
  proof -
    have "match_template s (OP_PUBKEYS # OP_SMALLINTEGER # t) sol = (case match_op opcode v OP_SMALLINTEGER [] sol' of
        None \<Rightarrow> None | Some (Inl _) \<Rightarrow> Some (Inl ()) | Some (Inr so) \<Rightarrow> match_template pc t so)"
      using g loop by (subst match_template.simps) simp
    then have "?l \<longleftrightarrow> (\<exists>so. match_op opcode v OP_SMALLINTEGER [] sol' = Some (Inr so) \<and> match_template pc t so = Some (Inr r))"
      by (simp split: option.split sum.split)
    then show ?thesis unfolding match_op_Inr(3) by blast
  qed
  have valid: "opcode \<noteq> OP_INVALIDOPCODE" if "DecodeOP_N opcode = Some n" for opcode n
    using that by (auto simp: DecodeOP_N_def)
  note iff = pubkeys_loop_reads [OF valid g]
  show ?thesis
  proof
    assume ?l
    then obtain n where n: "DecodeOP_N opcode = Some n" "match_template pc t (sol' @ [[word_of_int n]]) = Some (Inr r)"
      using l by blast
    from iff [OF n(1), THEN iffD1, OF loop] obtain ks where ks: "reads_ops s (ks @ [(opcode, v)]) pc" "\<forall>k \<in> set ks. key_sized (snd k)"
      "sol' = sol @ map snd ks" by blast
    then show ?r using reads_small [OF ks(1) n(1)] n by (intro exI [of _ ks] exI [of _ opcode] exI [of _ n] exI [of _ pc]) simp
  next
    assume ?r
    then obtain ks o' n s' where k: "reads_ops s (ks @ [(o', [])]) s'" "\<forall>k \<in> set ks. key_sized (snd k)" "DecodeOP_N o' = Some n"
      "match_template s' t (sol @ map snd ks @ [[word_of_int n]]) = Some (Inr r)" by blast
    have "pubkeys_loop opcode1 vch1 pc1 sol = (o', [], s', sol @ map snd ks)"
      using iff [OF k(3), of sol "[]" s' "sol @ map snd ks"] k(1,2) by (auto simp: key_sized_def)
    then show ?l using l k(3,4) loop by simp
  qed
qed

lemma match_template_returns: "match_template pc1 pc2 sol \<noteq> None"
proof (induction "length pc2" arbitrary: pc1 pc2 sol rule: less_induct)
  case less
  then have ih: "length q < length pc2 \<Longrightarrow> match_template p q so \<noteq> None" for p q so by blast
  show ?case
  proof (cases "GetOp2 pc1 = None \<or> GetOp2 pc2 = None")
    case True
    then show ?thesis
    proof
      assume "GetOp2 pc2 = None"
      then show ?thesis by (subst match_template.simps) (cases "GetOp2 pc1"; simp add: case_prod_beta)
    qed (subst match_template.simps; simp)
  next
    case False
    then obtain o1 v1 p1 o2 v2 p2 where g: "GetOp2 pc1 = Some (o1, v1, p1)" "GetOp2 pc2 = Some (o2, v2, p2)" by auto
    note short = GetOp2_shorter [OF g(2)]
    show ?thesis
    proof (cases "o2 = OP_PUBKEYS")
      case True
      obtain c v p so where loop: "pubkeys_loop o1 v1 p1 sol = (c, v, p, so)" by (metis prod_cases4)
      show ?thesis
      proof (cases "GetOp2 p2")
        case None
        then show ?thesis using g True loop by (subst match_template.simps) simp
      next
        case (Some y)
        obtain o3 v3 p3 where y: "GetOp2 p2 = Some (o3, v3, p3)" using Some by (cases y) auto
        have "length p3 < length pc2" using GetOp2_shorter [OF y] short by simp
        from ih [OF this] show ?thesis using g True loop y match_op_returns [of c v o3 v3 so]
          by (subst match_template.simps) (simp del: not_None_eq split: option.split sum.split)
      qed
    next
      case False
      then show ?thesis using g ih [OF short] match_op_returns [of o1 v1 o2 v2 sol]
        by (subst match_template.simps) (simp del: not_None_eq split: option.split sum.split)
    qed
  qed
qed

text \<open>The scripts that match each template.\<close>

definition pubkey_ops :: "bytes \<Rightarrow> bytes list \<Rightarrow> bool" where
  "pubkey_ops s sol \<longleftrightarrow> (\<exists>opcode k. instructions s = Some [(opcode, k), (OP_CHECKSIG, [])] \<and> key_sized k \<and> sol = [k])"

definition pubkeyhash_ops :: "bytes \<Rightarrow> bytes list \<Rightarrow> bool" where
  "pubkeyhash_ops s sol \<longleftrightarrow> (\<exists>opcode h. instructions s =
     Some [(OP_DUP, []), (OP_HASH160, []), (opcode, h), (OP_EQUALVERIFY, []), (OP_CHECKSIG, [])] \<and> length h = 20 \<and> sol = [h])"

definition multisig_ops :: "bytes \<Rightarrow> int \<Rightarrow> (byte \<times> bytes) list \<Rightarrow> int \<Rightarrow> bool" where
  "multisig_ops s m ks n \<longleftrightarrow> (\<exists>om on. instructions s = Some ([(om, [])] @ ks @ [(on, []), (OP_CHECKMULTISIG, [])]) \<and>
     EncodeOP_N m = Some om \<and> EncodeOP_N n = Some on \<and> (\<forall>k \<in> set ks. key_sized (snd k)))"

lemma match_pubkey: "match_template s [OP_PUBKEY, OP_CHECKSIG] [] = Some (Inr sol) \<longleftrightarrow> pubkey_ops s sol"
  by (auto simp: match_step match_op_Inr match_Nil pubkey_ops_def instructions_reads)

lemma match_pubkeyhash:
  "match_template s [OP_DUP, OP_HASH160, OP_PUBKEYHASH, OP_EQUALVERIFY, OP_CHECKSIG] [] = Some (Inr sol) \<longleftrightarrow> pubkeyhash_ops s sol"
  unfolding pubkeyhash_ops_def instructions_reads by (simp add: match_step match_op_Inr match_Nil) blast

lemma match_multisig:
  "match_template s [OP_SMALLINTEGER, OP_PUBKEYS, OP_SMALLINTEGER, OP_CHECKMULTISIG] [] = Some (Inr sol) \<longleftrightarrow>
   (\<exists>m ks n. multisig_ops s m ks n \<and> sol = [word_of_int m] # map snd ks @ [[word_of_int n]])" (is "?l \<longleftrightarrow> ?r")
proof -
  have rest: "match_template s' [OP_PUBKEYS, OP_SMALLINTEGER, OP_CHECKMULTISIG] so = Some (Inr sol) \<longleftrightarrow>
      (\<exists>ks opcode n. reads_ops s' (ks @ [(opcode, []), (OP_CHECKMULTISIG, [])]) [] \<and> (\<forall>k \<in> set ks. key_sized (snd k)) \<and>
         DecodeOP_N opcode = Some n \<and> sol = so @ map snd ks @ [[word_of_int n]])" for s' so
    unfolding match_keys by (simp add: match_step match_op_Inr match_Nil reads_ops_append) blast
  have "?l \<longleftrightarrow> (\<exists>om v s' m. GetOp2 s = Some (om, v, s') \<and> DecodeOP_N om = Some m \<and>
      match_template s' [OP_PUBKEYS, OP_SMALLINTEGER, OP_CHECKMULTISIG] [[word_of_int m]] = Some (Inr sol))"
    by (subst match_step) (simp_all add: match_op_Inr, blast)
  also have "\<dots> \<longleftrightarrow> ?r"
  proof
    assume "\<exists>om v s' m. GetOp2 s = Some (om, v, s') \<and> DecodeOP_N om = Some m \<and>
      match_template s' [OP_PUBKEYS, OP_SMALLINTEGER, OP_CHECKMULTISIG] [[word_of_int m]] = Some (Inr sol)"
    then obtain om v s' m ks on n where g: "GetOp2 s = Some (om, v, s')" "DecodeOP_N om = Some m"
      and k: "reads_ops s' (ks @ [(on, []), (OP_CHECKMULTISIG, [])]) []" "\<forall>k \<in> set ks. key_sized (snd k)"
        "DecodeOP_N on = Some n" "sol = [[word_of_int m]] @ map snd ks @ [[word_of_int n]]"
      unfolding rest by blast
    have "reads_ops s ([(om, [])] @ ks @ [(on, []), (OP_CHECKMULTISIG, [])]) []" using g GetOp2_small [OF g] k(1) by simp
    then have "multisig_ops s m ks n" unfolding multisig_ops_def instructions_reads EncodeOP_N_iff using g(2) k(2,3) by blast
    then show ?r using k(4) by auto
  next
    assume ?r
    then obtain m ks n om on where k: "reads_ops s ([(om, [])] @ ks @ [(on, []), (OP_CHECKMULTISIG, [])]) []"
      "DecodeOP_N om = Some m" "DecodeOP_N on = Some n" "\<forall>k \<in> set ks. key_sized (snd k)"
      "sol = [word_of_int m] # map snd ks @ [[word_of_int n]]"
      unfolding multisig_ops_def instructions_reads EncodeOP_N_iff by blast
    then obtain s' where s': "GetOp2 s = Some (om, [], s')" "reads_ops s' (ks @ [(on, []), (OP_CHECKMULTISIG, [])]) []" by auto
    have "match_template s' [OP_PUBKEYS, OP_SMALLINTEGER, OP_CHECKMULTISIG] [[word_of_int m]] = Some (Inr sol)"
      unfolding rest using s'(2) k(3-5) by (intro exI [of _ ks] exI [of _ on] exI [of _ n]) simp
    then show "\<exists>om v s' m. GetOp2 s = Some (om, v, s') \<and> DecodeOP_N om = Some m \<and>
      match_template s' [OP_PUBKEYS, OP_SMALLINTEGER, OP_CHECKMULTISIG] [[word_of_int m]] = Some (Inr sol)"
      using s'(1) k(2) by blast
  qed
  finally show ?thesis .
qed

lemma instructions_first: "instructions s = Some ((opcode, v) # ops) \<Longrightarrow> s \<noteq> [] \<and> s ! 0 = opcode \<and> (opcode > OP_PUSHDATA4 \<longrightarrow> v = [])"
proof -
  assume "instructions s = Some ((opcode, v) # ops)"
  then obtain r where g: "GetOp2 s = Some (opcode, v, r)" by (auto simp: instructions_reads)
  then obtain pc where s: "s = opcode # pc" using GetOp2_opcode by blast
  then show ?thesis using g GetOp2_high [of opcode pc] by auto
qed

lemma multisig_last: "multisig_ops s m ks n \<Longrightarrow> instructions s = Some ops \<Longrightarrow> last ops = (OP_CHECKMULTISIG, [])"
  by (auto simp: multisig_ops_def)

lemma ops_exclusive:
  "pubkey_ops s x \<Longrightarrow> \<not> pubkeyhash_ops s y" "pubkey_ops s x \<Longrightarrow> \<not> multisig_ops s m ks n" "pubkeyhash_ops s y \<Longrightarrow> \<not> multisig_ops s m ks n"
  using multisig_last [of s m ks n] by (auto simp: pubkey_ops_def pubkeyhash_ops_def)

lemma ops_first:
  "pubkey_ops s sol \<Longrightarrow> s \<noteq> [] \<and> s ! 0 \<le> OP_PUSHDATA4" "pubkeyhash_ops s sol \<Longrightarrow> s \<noteq> [] \<and> s ! 0 = OP_DUP"
  "multisig_ops s m ks n \<Longrightarrow> s \<noteq> [] \<and> s ! 0 \<le> OP_16"
proof -
  show "s \<noteq> [] \<and> s ! 0 \<le> OP_PUSHDATA4" if p: "pubkey_ops s sol"
  proof -
    obtain opcode k where k: "instructions s = Some [(opcode, k), (OP_CHECKSIG, [])]" "key_sized k" using p by (auto simp: pubkey_ops_def)
    then show ?thesis using instructions_first [OF k(1)] by (auto simp: key_sized_def)
  qed
  show "s \<noteq> [] \<and> s ! 0 = OP_DUP" if "pubkeyhash_ops s sol" using that by (auto simp: pubkeyhash_ops_def dest: instructions_first)
  show "s \<noteq> [] \<and> s ! 0 \<le> OP_16" if p: "multisig_ops s m ks n"
  proof -
    obtain om where k: "s \<noteq> []" "s ! 0 = om" "DecodeOP_N om = Some m"
      using p unfolding multisig_ops_def EncodeOP_N_iff by (auto dest: instructions_first)
    then show ?thesis by (auto simp: DecodeOP_N_def split: if_splits)
  qed
qed

lemma match_template_Inl: "(\<And>sol'. match_template s t sol \<noteq> Some (Inr sol')) \<Longrightarrow> match_template s t sol = Some (Inl ())"
  using match_template_returns [of s t sol] by (cases "match_template s t sol" rule: ebind_cases) auto

lemma match_pubkey_Inl: "(\<And>x. \<not> pubkey_ops s x) \<Longrightarrow> match_template s [OP_PUBKEY, OP_CHECKSIG] [] = Some (Inl ())"
  using match_pubkey by (intro match_template_Inl) blast

lemma match_pubkeyhash_Inl:
  "(\<And>x. \<not> pubkeyhash_ops s x) \<Longrightarrow> match_template s [OP_DUP, OP_HASH160, OP_PUBKEYHASH, OP_EQUALVERIFY, OP_CHECKSIG] [] = Some (Inl ())"
  using match_pubkeyhash by (intro match_template_Inl) blast

lemma scan_pubkey: "pubkey_ops s sol \<Longrightarrow> scan_templates s mTemplates = Some (True, TX_PUBKEY, sol)"
  by (simp add: mTemplates_def match_pubkey [THEN iffD2])

lemma scan_pubkeyhash: "pubkeyhash_ops s sol \<Longrightarrow> scan_templates s mTemplates = Some (True, TX_PUBKEYHASH, sol)"
proof -
  assume p: "pubkeyhash_ops s sol"
  then have "match_template s [OP_PUBKEY, OP_CHECKSIG] [] = Some (Inl ())" using ops_exclusive(1) by (intro match_pubkey_Inl) blast
  then show ?thesis by (simp add: mTemplates_def match_pubkeyhash [THEN iffD2, OF p])
qed

lemma scan_multisig:
  assumes "multisig_ops s m ks n"
  shows "scan_templates s mTemplates =
    Some (1 \<le> m \<and> m \<le> n \<and> n = int (length ks), TX_MULTISIG, [word_of_int m] # map snd ks @ [[word_of_int n]])"
proof -
  have b: "0 \<le> m" "m \<le> 16" "0 \<le> n" "n \<le> 16"
    using assms DecodeOP_N_bounds unfolding multisig_ops_def EncodeOP_N_iff by blast+
  define mb nb where d: "mb = (word_of_int m :: byte)" "nb = (word_of_int n :: byte)"
  have u: "uint mb = m" "uint nb = n" unfolding d uint_word_of_int using b by simp_all
  have c: "mb = 0 \<longleftrightarrow> m = 0" "nb = 0 \<longleftrightarrow> n = 0" "nb < mb \<longleftrightarrow> n < m"
    using u by (auto simp: word_less_def uint_0_iff)
  have "match_template s [OP_SMALLINTEGER, OP_PUBKEYS, OP_SMALLINTEGER, OP_CHECKMULTISIG] [] = Some (Inr ([mb] # map snd ks @ [[nb]]))"
    using assms match_multisig unfolding d by blast
  moreover have "\<not> pubkey_ops s x" "\<not> pubkeyhash_ops s x" for x using assms ops_exclusive(2,3) by blast+
  ultimately show ?thesis
    using b unfolding d [symmetric] by (auto simp: mTemplates_def match_pubkey_Inl match_pubkeyhash_Inl Let_def c u)
qed

lemma scan_none:
  assumes "\<And>x. \<not> pubkey_ops s x" "\<And>x. \<not> pubkeyhash_ops s x" "\<And>m ks n. \<not> multisig_ops s m ks n"
  shows "scan_templates s mTemplates = Some (False, TX_NONSTANDARD, [])"
proof -
  have "match_template s [OP_SMALLINTEGER, OP_PUBKEYS, OP_SMALLINTEGER, OP_CHECKMULTISIG] [] = Some (Inl ())"
    using assms(3) match_multisig by (intro match_template_Inl) blast
  then show ?thesis by (simp add: mTemplates_def match_pubkey_Inl match_pubkeyhash_Inl assms)
qed

lemma p2sh_form: "IsPayToScriptHash s \<longleftrightarrow> (\<exists>h. length h = 20 \<and> s = GetScriptForDestination (CScriptID h))"
proof
  assume p: "IsPayToScriptHash s"
  let ?h = "take 20 (drop 2 s)"
  have "drop 2 s = ?h @ drop 22 s" using append_take_drop_id [of 20 "drop 2 s"] by simp
  then have s: "s = take 2 s @ ?h @ drop 22 s" using append_take_drop_id [of 2 s] by simp
  have "take 2 s = [OP_HASH160, 0x14]" using p
    by (intro nth_equalityI) (auto simp: IsPayToScriptHash_def less_Suc_eq numeral_2_eq_2)
  moreover have "drop 22 s = [OP_EQUAL]" using p by (intro nth_equalityI) (auto simp: IsPayToScriptHash_def)
  ultimately show "\<exists>h. length h = 20 \<and> s = GetScriptForDestination (CScriptID h)"
    using p s by (intro exI [of _ ?h]) (simp add: IsPayToScriptHash_def push_opcode_def push_data_def)
qed (auto simp: IsPayToScriptHash_def push_opcode_def push_data_def nth_append)

lemma p2sh_solution: "length h = 20 \<Longrightarrow> Solver (GetScriptForDestination (CScriptID h)) = Some (True, TX_SCRIPTHASH, [h])"
proof -
  assume h: "length h = 20"
  then have "IsPayToScriptHash (GetScriptForDestination (CScriptID h))" unfolding p2sh_form by blast
  moreover have "take 20 (drop 2 (GetScriptForDestination (CScriptID h))) = h" using h by (simp add: push_opcode_def push_data_def)
  ultimately show ?thesis by (simp only: Solver_def if_True)
qed

lemma Solver_scan:
  assumes "s = [] \<or> s ! 0 \<noteq> OP_HASH160 \<and> s ! 0 \<noteq> OP_RETURN"
  shows "Solver s = scan_templates s mTemplates"
  using assms by (auto simp: Solver_def IsPayToScriptHash_def)

lemma Solver_ops:
  "pubkey_ops s sol \<Longrightarrow> Solver s = Some (True, TX_PUBKEY, sol)"
  "pubkeyhash_ops s sol \<Longrightarrow> Solver s = Some (True, TX_PUBKEYHASH, sol)"
  "multisig_ops s m ks n \<Longrightarrow> Solver s =
     Some (1 \<le> m \<and> m \<le> n \<and> n = int (length ks), TX_MULTISIG, [word_of_int m] # map snd ks @ [[word_of_int n]])"
proof -
  assume p: "pubkey_ops s sol"
  have "Solver s = scan_templates s mTemplates" by (rule Solver_scan) (use ops_first(1) [OF p] in auto)
  then show "Solver s = Some (True, TX_PUBKEY, sol)" using scan_pubkey [OF p] by simp
next
  assume p: "pubkeyhash_ops s sol"
  have "Solver s = scan_templates s mTemplates" by (rule Solver_scan) (use ops_first(2) [OF p] in auto)
  then show "Solver s = Some (True, TX_PUBKEYHASH, sol)" using scan_pubkeyhash [OF p] by simp
next
  assume p: "multisig_ops s m ks n"
  have "Solver s = scan_templates s mTemplates" by (rule Solver_scan) (use ops_first(3) [OF p] in auto)
  then show "Solver s = Some (1 \<le> m \<and> m \<le> n \<and> n = int (length ks), TX_MULTISIG, [word_of_int m] # map snd ks @ [[word_of_int n]])"
    using scan_multisig [OF p] by simp
qed

lemma Solver_cases:
  obtains (pubkey) sol where "pubkey_ops s sol" "Solver s = Some (True, TX_PUBKEY, sol)"
  | (pubkeyhash) sol where "pubkeyhash_ops s sol" "Solver s = Some (True, TX_PUBKEYHASH, sol)"
  | (multisig) m ks n where "multisig_ops s m ks n"
      "Solver s = Some (1 \<le> m \<and> m \<le> n \<and> n = int (length ks), TX_MULTISIG, [word_of_int m] # map snd ks @ [[word_of_int n]])"
  | (scripthash) h where "length h = 20" "s = GetScriptForDestination (CScriptID h)" "Solver s = Some (True, TX_SCRIPTHASH, [h])"
  | (null_data) r where "s = OP_RETURN # r" "IsPushOnly r" "Solver s = Some (True, TX_NULL_DATA, [])"
  | (nonstandard) "Solver s = Some (False, TX_NONSTANDARD, [])"
proof (cases "IsPayToScriptHash s")
  case True
  then obtain h where h: "length h = 20" "s = GetScriptForDestination (CScriptID h)" unfolding p2sh_form by blast
  from scripthash [OF h] p2sh_solution [OF h(1)] show thesis unfolding h(2) by blast
next
  case p: False
  show thesis
  proof (cases "length s \<ge> 1 \<and> s ! 0 = OP_RETURN \<and> IsPushOnly (drop 1 s)")
    case True
    then obtain r where r: "s = OP_RETURN # r" "IsPushOnly r" by (cases s) simp_all
    have "Solver s = Some (True, TX_NULL_DATA, [])" unfolding Solver_def using p True by simp
    from null_data [OF r this] show thesis .
  next
    case False
    then have sc: "Solver s = scan_templates s mTemplates" unfolding Solver_def using p by (simp only: if_False)
    consider sol where "pubkey_ops s sol" | sol where "pubkeyhash_ops s sol" | m ks n where "multisig_ops s m ks n"
      | "\<And>x. \<not> pubkey_ops s x" "\<And>x. \<not> pubkeyhash_ops s x" "\<And>m ks n. \<not> multisig_ops s m ks n"
      by blast
    then show thesis
    proof cases
      case 1
      from pubkey [OF 1 Solver_ops(1) [OF 1]] show ?thesis .
    next
      case 2
      from pubkeyhash [OF 2 Solver_ops(2) [OF 2]] show ?thesis .
    next
      case 3
      from multisig [OF 3 Solver_ops(3) [OF 3]] show ?thesis .
    next
      case 4
      from nonstandard [OF trans [OF sc scan_none [OF 4]]] show ?thesis .
    qed
  qed
qed

section \<open>Destinations are restored\<close>

lemma Hash160_returns: "length junk = 64 \<Longrightarrow> length junkr = 64 \<Longrightarrow> Hash160 junk junkr p \<noteq> None"
  by (simp add: Hash160_spec)

lemma pubkeyhash_script: "length h = 20 \<Longrightarrow> pubkeyhash_ops (GetScriptForDestination (CKeyID h)) [h]"
proof -
  assume h: "length h = 20"
  have s: "GetScriptForDestination (CKeyID h) = OP_DUP # OP_HASH160 # push_data [] h @ [OP_EQUALVERIFY, OP_CHECKSIG]"
    using push_data_append [of "[OP_DUP, OP_HASH160]" h] by (simp add: push_opcode_def)
  have "reads_ops (GetScriptForDestination (CKeyID h))
      [(OP_DUP, []), (OP_HASH160, []), (push_op h, h), (OP_EQUALVERIFY, []), (OP_CHECKSIG, [])] []"
    unfolding s using GetOp2_push_data [of h "[OP_EQUALVERIFY, OP_CHECKSIG]"] h by (simp add: GetOp2_high)
  then show ?thesis using h unfolding pubkeyhash_ops_def instructions_reads by blast
qed

lemma ExtractDestination_script:
  assumes "dest = CKeyID h \<or> dest = CScriptID h" "length h = 20"
  shows "ExtractDestination junkk junk junkr (GetScriptForDestination dest) = Some (Inr dest)"
  using assms Solver_ops(2) [OF pubkeyhash_script [OF assms(2)]] p2sh_solution [OF assms(2)]
  by (auto simp: ExtractDestination_def base_blob_of_def simp del: GetScriptForDestination.simps)

section \<open>Spending a pay-to-public-key-hash output\<close>

declare GetScriptForDestination.simps [simp del]

lemma loop_op:
  "GetOp2 pc = Some (opcode, v, pc') \<Longrightarrow>
   EvalScript_loop flags chk pc st = ebind (EvalScript_step flags chk pc' opcode v st) (EvalScript_loop flags chk pc')"
  by (subst EvalScript_loop.simps) (auto simp: ebind_def split: option.split sum.split)

lemma loop_end: "EvalScript_loop flags chk [] st = success st"
  by (subst EvalScript_loop.simps) simp

lemma push_op_minimal:
  assumes "length b \<noteq> 1" "length b \<le> 520"
  shows "CheckMinimalPush b (push_op b)" "push_op b \<le> OP_PUSHDATA4"
proof -
  have u: "unat (word_of_nat (length b) :: byte) = length b" if "length b < 0x4c" using that by (simp add: unat_of_nat)
  then show "CheckMinimalPush b (push_op b)" using assms by (auto simp: CheckMinimalPush_def push_op_def)
  show "push_op b \<le> OP_PUSHDATA4" using u by (auto simp: push_op_def word_le_nat_alt)
qed

lemma step_push:
  assumes "vfExec st = []" "length b \<noteq> 1" "length b \<le> 520" "length (stack st) + length (altstack st) < 1000"
  shows "EvalScript_step flags chk pc (push_op b) b st = success (st\<lparr>stack := b # stack st\<rparr>)"
proof -
  note m = push_op_minimal [OF assms(2,3)]
  have "\<not> push_op b > OP_16" "push_op b \<notin> set disabled_opcodes" using m(2) by (auto simp: disabled_opcodes_def word_less_nat_alt word_le_nat_alt)
  then show ?thesis unfolding EvalScript_step_def op_push_value_def Let_def
    using assms m by (simp add: MAX_SCRIPT_ELEMENT_SIZE_def)
qed

lemma step_high:
  assumes "vfExec st = []" "opcode > OP_16" "opcode \<notin> set disabled_opcodes" "nOpCount st < 201"
  shows "EvalScript_step flags chk pc opcode [] st =
    ebind (exec_op flags chk pc True opcode (st\<lparr>nOpCount := nOpCount st + 1\<rparr>))
      (\<lambda>st. if length (stack st) + length (altstack st) > 1000 then set_error SCRIPT_ERR_STACK_SIZE else success st)"
proof -
  have "\<not> opcode \<le> OP_PUSHDATA4" using assms(2) by (simp add: word_less_nat_alt word_le_nat_alt)
  then show ?thesis unfolding EvalScript_step_def Let_def
    using assms by (simp add: MAX_SCRIPT_ELEMENT_SIZE_def MAX_OPS_PER_SCRIPT_def)
qed

lemma EvalScript_two_pushes:
  assumes "length a \<noteq> 1" "length a \<le> 520" "length b \<noteq> 1" "length b \<le> 520"
  shows "EvalScript [] (push_data (push_data [] a) b) flags chk = success [b, a]"
proof -
  have s: "push_data (push_data [] a) b = push_data [] a @ push_data [] b @ []" using push_data_append [of "push_data [] a" b] by simp
  have len: "length (push_data [] x) \<le> 530" if "length x \<le> 520" for x
    using that by (simp add: push_data_def WriteLE16_def WriteLE32_def)
  have "GetOp2 (push_data [] a @ push_data [] b @ []) = Some (push_op a, a, push_data [] b @ [])"
    "GetOp2 (push_data [] b @ []) = Some (push_op b, b, [])"
    using assms by (intro GetOp2_push_data, simp)+
  note g = loop_op [OF this(1)] loop_op [OF this(2)]
  have "EvalScript_loop flags chk (push_data [] a @ push_data [] b @ []) (init_state [] script) = success ((init_state [] script)\<lparr>stack := [b, a]\<rparr>)" for script
    unfolding g(1) using step_push [OF _ assms(1,2), of "init_state [] script"]
      step_push [OF _ assms(3,4), of "(init_state [] script)\<lparr>stack := [a]\<rparr>"]
    by (simp add: g(2) [unfolded append_Nil2] loop_end init_state_def)
  then show ?thesis unfolding EvalScript_def s using len [OF assms(2)] len [OF assms(4)] by (simp add: init_state_def)
qed

text \<open>The operations of the output script, each on the stack that the one before leaves.\<close>

definition p2pkh_state :: "bytes \<Rightarrow> bytes list \<Rightarrow> int \<Rightarrow> EvalState" where
  "p2pkh_state script stk n = (init_state stk script)\<lparr>nOpCount := n\<rparr>"

lemma p2pkh_state_simps [simp]:
  "stack (p2pkh_state script stk n) = stk" "altstack (p2pkh_state script stk n) = []" "vfExec (p2pkh_state script stk n) = []"
  "nOpCount (p2pkh_state script stk n) = n" "pbegincodehash (p2pkh_state script stk n) = script"
  "(p2pkh_state script stk n)\<lparr>stack := stk'\<rparr> = p2pkh_state script stk' n"
  "(p2pkh_state script stk n)\<lparr>nOpCount := n'\<rparr> = p2pkh_state script stk n'"
  by (simp_all add: p2pkh_state_def init_state_def)

lemma p2pkh_steps:
  "EvalScript_step flags chk pc OP_DUP [] (p2pkh_state script [pub, sig] 0) = success (p2pkh_state script [pub, pub, sig] 1)"
  "EvalScript_step flags chk pc OP_HASH160 [] (p2pkh_state script [pub, pub, sig] 1) =
     success (p2pkh_state script [rmd160 (fips_sha256 pub), pub, sig] 2)"
  "EvalScript_step flags chk pc OP_EQUALVERIFY [] (p2pkh_state script [h, h', pub, sig] 2) =
     (if h' = h then success (p2pkh_state script [pub, sig] 3) else set_error SCRIPT_ERR_EQUALVERIFY)"
  "EvalScript_step flags chk pc OP_CHECKSIG [] (p2pkh_state script [pub, sig] 3) =
     ebind (check_encodings flags chk sig pub) (\<lambda>_. do {
       ok \<leftarrow> CheckSig chk sig pub (snd (FindAndDelete script (push_data [] sig)));
       success (p2pkh_state script [bool_vch ok] 4) })"
  by (simp_all add: step_high disabled_opcodes_def exec_op_def op_dup_def op_hash_op_def hash_vch_spec op_equal_def op_checksig_def Let_def)
    (cases "check_encodings flags chk sig pub" rule: ebind_cases;
     cases "CheckSig chk sig pub (snd (FindAndDelete script (push_data [] sig)))"; simp)

lemma push_only_two:
  assumes "length a \<noteq> 1" "length a \<le> 520" "length b \<noteq> 1" "length b \<le> 520"
  shows "IsPushOnly (push_data (push_data [] a) b)"
proof -
  have s: "push_data (push_data [] a) b = push_data [] a @ push_data [] b" by (rule push_data_append)
  have low: "\<not> push_op x > OP_16" if "length x \<noteq> 1" "length x \<le> 520" for x
    using push_op_minimal(2) [OF that] by (simp add: word_less_nat_alt word_le_nat_alt)
  have "GetOp2 (push_data [] b) = Some (push_op b, b, [])" using GetOp2_push_data [of b "[]"] assms(4) by simp
  then have "IsPushOnly (push_data [] b)" using low [OF assms(3,4)] by (subst IsPushOnly.simps) (simp add: IsPushOnly.simps [of "[]"])
  moreover have "GetOp2 (push_data [] a @ push_data [] b) = Some (push_op a, a, push_data [] b)"
    using assms(2) by (intro GetOp2_push_data) simp
  ultimately show ?thesis unfolding s using low [OF assms(1,2)] by (subst IsPushOnly.simps) simp
qed

lemma p2pkh_script: "length h = 20 \<Longrightarrow>
   GetScriptForDestination (CKeyID h) = [OP_DUP, OP_HASH160] @ push_data [] h @ [OP_EQUALVERIFY, OP_CHECKSIG]"
  using push_data_append [of "[OP_DUP, OP_HASH160]" h] by (simp add: push_opcode_def GetScriptForDestination.simps)

lemma p2pkh_code:
  assumes "length h = 20" "length sig \<noteq> 20" "length sig \<le> 520"
  shows "snd (FindAndDelete (GetScriptForDestination (CKeyID h)) (push_data [] sig)) = GetScriptForDestination (CKeyID h)"
proof -
  let ?cs = "[[OP_DUP], [OP_HASH160], push_data [] h, [OP_EQUALVERIFY], [OP_CHECKSIG]]"
  have g: "GetOp2 (push_data [] x) = Some (push_op x, x, [])" if "length x \<le> 520" for x
    using GetOp2_push_data [of x "[]"] that by simp
  have p: "single_op (push_data [] x)" if "length x \<le> 520" for x using g [OF that] by (simp add: single_op_def)
  have o: "single_op [opcode]" if "opcode > OP_PUSHDATA4" for opcode using GetOp2_high [OF that, of "[]"] by (simp add: single_op_def)
  have ops: "single_op (push_data [] sig)" "\<forall>c \<in> set ?cs. single_op c" using assms by (auto intro!: p o)
  have "push_data [] sig \<noteq> push_data [] h"
  proof
    assume "push_data [] sig = push_data [] h"
    then have "GetOp2 (push_data [] sig) = GetOp2 (push_data [] h)" by (rule arg_cong)
    moreover have "GetOp2 (push_data [] h) = Some (push_op h, h, [])" using assms(1) by (intro g) simp
    ultimately have "sig = h" unfolding g [OF assms(3)] by simp
    then show False using assms(1,2) by simp
  qed
  moreover have "push_data [] sig \<noteq> [opcode]" if "opcode > OP_PUSHDATA4" for opcode
  proof
    assume "push_data [] sig = [opcode]"
    then have "GetOp2 (push_data [] sig) = GetOp2 [opcode]" by (rule arg_cong)
    then have "push_op sig = opcode \<and> sig = []" unfolding g [OF assms(3)] GetOp2_high [OF that] option.inject prod.inject by blast
    then show False using that by (auto simp: push_op_def)
  qed
  ultimately have "filter ((\<noteq>) (push_data [] sig)) ?cs = ?cs" by simp
  then show ?thesis using FindAndDelete_ops [OF ops(1) _ ops(2), of "[]"] unfolding p2pkh_script [OF assms(1)] by simp
qed

lemma ebind_success_id: "ebind m success = m"
  by (cases m rule: ebind_cases) simp_all

lemma p2pkh_eval:
  assumes "length h = 20"
  shows "EvalScript [pub, sig] (GetScriptForDestination (CKeyID h)) flags chk =
    (if rmd160 (fips_sha256 pub) = h
     then ebind (check_encodings flags chk sig pub) (\<lambda>_. do {
       ok \<leftarrow> CheckSig chk sig pub (snd (FindAndDelete (GetScriptForDestination (CKeyID h)) (push_data [] sig)));
       success [bool_vch ok] })
     else set_error SCRIPT_ERR_EQUALVERIFY)"
proof -
  let ?s = "GetScriptForDestination (CKeyID h)" and ?h = "rmd160 (fips_sha256 pub)"
  have high: "GetOp2 (opcode # r) = Some (opcode, [], r)" if "opcode > OP_PUSHDATA4" for opcode r using that by (rule GetOp2_high)
  have init: "init_state [pub, sig] ?s = p2pkh_state ?s [pub, sig] 0" by (simp add: p2pkh_state_def init_state_def)
  have h: "EvalScript_step flags chk pc (push_op h) h (p2pkh_state sc [x, pub, sig] 2) = success (p2pkh_state sc [h, x, pub, sig] 2)" for pc sc x
    using step_push [of "p2pkh_state sc [x, pub, sig] 2" h flags chk pc] assms by simp
  have "GetOp2 (push_data [] h @ r) = Some (push_op h, h, r)" for r using assms by (intro GetOp2_push_data) simp
  then have "EvalScript_loop flags chk ([OP_DUP, OP_HASH160] @ push_data [] h @ [OP_EQUALVERIFY, OP_CHECKSIG]) (p2pkh_state sc [pub, sig] 0) =
      (if ?h = h then EvalScript_step flags chk [] OP_CHECKSIG [] (p2pkh_state sc [pub, sig] 3) else set_error SCRIPT_ERR_EQUALVERIFY)" for sc
    by (simp add: loop_op high p2pkh_steps(1-3) h loop_end [abs_def] ebind_success_id)
  then have loop: "EvalScript_loop flags chk ?s (p2pkh_state ?s [pub, sig] 0) =
      (if ?h = h then EvalScript_step flags chk [] OP_CHECKSIG [] (p2pkh_state ?s [pub, sig] 3) else set_error SCRIPT_ERR_EQUALVERIFY)"
    unfolding p2pkh_script [OF assms] .
  have "length ?s \<le> 10000" using assms by (simp add: p2pkh_script push_data_def)
  then show ?thesis unfolding EvalScript_def init loop p2pkh_steps(4)
    by (cases "check_encodings flags chk sig pub" rule: ebind_cases;
        cases "CheckSig chk sig pub (snd (FindAndDelete ?s (push_data [] sig)))") simp_all
qed

lemma CastToBool_bool_vch [simp]: "CastToBool (bool_vch b) = b"
  by (simp add: bool_vch_def vchTrue_def vchFalse_def)

lemma bool_vch_eq [simp]: "bool_vch a = bool_vch b \<longleftrightarrow> a = b"
  by (simp add: bool_vch_def vchTrue_def vchFalse_def)

lemma multisig_script:
  assumes "GetScriptForMultisig m keys = Some s" "\<forall>k \<in> set keys. key_sized (CPubKey_data k)"
  shows "multisig_ops s m (map (\<lambda>k. (push_op (CPubKey_data k), CPubKey_data k)) keys) (int (length keys))"
proof -
  let ?ks = "map (\<lambda>k. (push_op (CPubKey_data k), CPubKey_data k)) keys"
  obtain om on where o: "EncodeOP_N m = Some om" "EncodeOP_N (int (length keys)) = Some on"
    "s = foldl (\<lambda>script key. push_data script (CPubKey_data key)) [om] keys @ [on, OP_CHECKMULTISIG]"
    using assms(1) by (auto simp: GetScriptForMultisig_def push_opcode_def split: Option.bind_splits)
  have small: "GetOp2 (opcode # r) = Some (opcode, [], r)" if "EncodeOP_N i = Some opcode" for opcode i r
    using that unfolding EncodeOP_N_iff
    by (cases "opcode = OP_0") (auto simp: GetOp2_size_def DecodeOP_N_def word_le_nat_alt split: if_splits)
  have "foldl (\<lambda>script key. push_data script (CPubKey_data key)) p keys = p @ concat (map (\<lambda>k. push_data [] (CPubKey_data k)) keys)" for p
    by (induction keys arbitrary: p) (simp_all, metis append.assoc push_data_append)
  then have s: "s = om # concat (map (\<lambda>k. push_data [] (CPubKey_data k)) keys) @ [on, OP_CHECKMULTISIG]" using o(3) by simp
  have keys: "reads_ops (concat (map (\<lambda>k. push_data [] (CPubKey_data k)) keys) @ r) ?ks r" for r
    using assms(2)
  proof (induction keys)
    case (Cons k keys)
    have "length (CPubKey_data k) < 2 ^ 32" using Cons.prems by (simp add: key_sized_def)
    then show ?case using GetOp2_push_data [of "CPubKey_data k"] Cons by simp
  qed simp
  have "reads_ops [on, OP_CHECKMULTISIG] [(on, []), (OP_CHECKMULTISIG, [])] []"
    using small [OF o(2)] GetOp2_high [of OP_CHECKMULTISIG "[]"] by (simp del: GetOp2.simps)
  moreover have "reads_ops s [(om, [])] (concat (map (\<lambda>k. push_data [] (CPubKey_data k)) keys) @ [on, OP_CHECKMULTISIG])"
    unfolding s using small [OF o(1)] by (simp del: GetOp2.simps)
  ultimately have "reads_ops s ([(om, [])] @ ?ks @ [(on, []), (OP_CHECKMULTISIG, [])]) []"
    using keys unfolding reads_ops_append [of _ "[(om, [])]"] reads_ops_append [of _ ?ks] by blast
  then show ?thesis using o(1,2) assms(2) unfolding multisig_ops_def instructions_reads by auto
qed

section \<open>Properties\<close>

text \<open>C6. The solver returns on every script, and it recognises exactly the standard scripts: a push of a key and a signature check,
  the five operations of a public key hash, the 23 bytes of a script hash, \<open>m\<close> of \<open>n\<close> keys with \<open>1 \<le> m \<le> n \<le> 16\<close>, and a
  data output. Its solutions are the keys, the hash and the two numbers.\<close>

theorem Solver_spec:
  "(\<exists>ok t sol. Solver s = Some (ok, t, sol)) \<and>
   (Solver s = Some (True, TX_PUBKEY, sol) \<longleftrightarrow> pubkey_ops s sol) \<and>
   (Solver s = Some (True, TX_PUBKEYHASH, sol) \<longleftrightarrow> pubkeyhash_ops s sol) \<and>
   (Solver s = Some (True, TX_SCRIPTHASH, sol) \<longleftrightarrow> (\<exists>h. length h = 20 \<and> s = GetScriptForDestination (CScriptID h) \<and> sol = [h])) \<and>
   (Solver s = Some (True, TX_MULTISIG, sol) \<longleftrightarrow> (\<exists>m ks. multisig_ops s m ks (int (length ks)) \<and> 1 \<le> m \<and> m \<le> int (length ks) \<and>
      sol = [word_of_int m] # map snd ks @ [[word_of_nat (length ks)]])) \<and>
   (Solver s = Some (True, TX_NULL_DATA, sol) \<longleftrightarrow> (\<exists>r. s = OP_RETURN # r \<and> IsPushOnly r \<and> sol = []))"
  (is "?ret \<and> ?pk \<and> ?pkh \<and> ?sh \<and> ?ms \<and> ?nd")
proof (intro conjI)
  show ?ret by (cases s rule: Solver_cases) auto
  show ?pk
  proof
    show "pubkey_ops s sol" if "Solver s = Some (True, TX_PUBKEY, sol)" using that by (cases s rule: Solver_cases) auto
  qed (rule Solver_ops(1))
  show ?pkh
  proof
    show "pubkeyhash_ops s sol" if "Solver s = Some (True, TX_PUBKEYHASH, sol)" using that by (cases s rule: Solver_cases) auto
  qed (rule Solver_ops(2))
  show ?sh
  proof
    show "\<exists>h. length h = 20 \<and> s = GetScriptForDestination (CScriptID h) \<and> sol = [h]" if "Solver s = Some (True, TX_SCRIPTHASH, sol)"
      using that by (cases s rule: Solver_cases) auto
  qed (use p2sh_solution in blast)
  show ?ms
  proof
    assume "Solver s = Some (True, TX_MULTISIG, sol)"
    then show "\<exists>m ks. multisig_ops s m ks (int (length ks)) \<and> 1 \<le> m \<and> m \<le> int (length ks) \<and>
      sol = [word_of_int m] # map snd ks @ [[word_of_nat (length ks)]]"
      by (cases s rule: Solver_cases) auto
  qed (auto dest: Solver_ops(3))
  show ?nd by (cases s rule: Solver_cases) (auto simp: Solver_def IsPayToScriptHash_def)
qed

text \<open>C5. Spending a pay-to-public-key-hash output: with a signature script that pushes a signature and a public key, verification succeeds
  exactly when the public key has the hash of the output, the encodings are accepted under the flags and the checker
  accepts the signature for the output script.\<close>

theorem p2pkh_spend:
  assumes "length h = 20" "length sig \<noteq> 1" "length sig \<noteq> 20" "length sig \<le> 520" "length pub \<noteq> 1" "length pub \<le> 520"
    and "flags AND SCRIPT_VERIFY_CLEANSTACK \<noteq> 0 \<Longrightarrow> flags AND SCRIPT_VERIFY_P2SH \<noteq> 0"
  shows "VerifyScript (push_data (push_data [] sig) pub) (GetScriptForDestination (CKeyID h)) flags chk = success () \<longleftrightarrow>
    rmd160 (fips_sha256 pub) = h \<and> check_encodings flags chk sig pub = success () \<and>
    CheckSig chk sig pub (GetScriptForDestination (CKeyID h)) = Some True"
proof -
  let ?s = "GetScriptForDestination (CKeyID h)"
  have np: "\<not> IsPayToScriptHash ?s" unfolding p2pkh_script [OF assms(1)] by (simp add: IsPayToScriptHash_def)
  have p: "IsPushOnly (push_data (push_data [] sig) pub)" by (rule push_only_two [OF assms(2,4-6)])
  have e: "EvalScript [] (push_data (push_data [] sig) pub) flags chk = success [pub, sig]"
    by (rule EvalScript_two_pushes [OF assms(2,4-6)])
  have f: "(if flags AND SCRIPT_VERIFY_CLEANSTACK \<noteq> 0 then if flags AND SCRIPT_VERIFY_P2SH \<noteq> 0
      then if length [x] \<noteq> 1 then set_error SCRIPT_ERR_CLEANSTACK else success () else None else success ()) = success ()" for x :: bytes
    using assms(7) by simp
  have "VerifyScript (push_data (push_data [] sig) pub) ?s flags chk =
      ebind (EvalScript [pub, sig] ?s flags chk) (\<lambda>stk. ebind (stack_true stk) (\<lambda>stk.
        if flags AND SCRIPT_VERIFY_CLEANSTACK \<noteq> 0 then if flags AND SCRIPT_VERIFY_P2SH \<noteq> 0
        then if length stk \<noteq> 1 then set_error SCRIPT_ERR_CLEANSTACK else success () else None else success ()))"
    unfolding VerifyScript_def Let_def e using p np by simp
  also have "\<dots> = success () \<longleftrightarrow> (\<exists>ok. EvalScript [pub, sig] ?s flags chk = success [bool_vch ok] \<and> ok)"
    unfolding p2pkh_eval [OF assms(1)] p2pkh_code [OF assms(1,3,4)] using f
    by (cases "check_encodings flags chk sig pub" rule: ebind_cases; cases "CheckSig chk sig pub ?s") (auto simp: stack_true_def)
  also have "\<dots> \<longleftrightarrow> rmd160 (fips_sha256 pub) = h \<and> check_encodings flags chk sig pub = success () \<and> CheckSig chk sig pub ?s = Some True"
    unfolding p2pkh_eval [OF assms(1)] p2pkh_code [OF assms(1,3,4)]
    by (cases "check_encodings flags chk sig pub" rule: ebind_cases; cases "CheckSig chk sig pub ?s")
      (auto split: if_splits)
  finally show ?thesis .
qed

theorem p2pkh_spend_witness:
  "VerifyScript (push_data (push_data [] [2, 3]) [2, 3]) (GetScriptForDestination (CKeyID (rmd160 (fips_sha256 [2, 3])))) 0 demo_checker = success ()"
proof -
  have "check_encodings 0 demo_checker [2, 3] [2, 3] = success ()" by code_simp
  then show ?thesis
    using p2pkh_spend [of "rmd160 (fips_sha256 [2, 3])" "[2, 3]" "[2, 3]" 0 demo_checker] by (simp add: length_rmd160 demo_checker_def)
qed

end
