(* ===== verification/Address.thy ===== *)
theory Address
  imports Base58 Standard
begin

text \<open>
  Addresses and secrets in text: the classes of \<^verbatim>\<open>base58.cpp\<close>, with the parameters of the chains (\<^verbatim>\<open>chainparams.cpp\<close>,
  \<^verbatim>\<open>chainparamsbase.cpp\<close>) that give their version bytes. The pointer to the selected parameters, null until a chain is
  selected, is an argument \<open>g\<close> of type \<open>CChainParams option\<close>. Of the parameters, the fields that the chains of this program
  set and its functions read are kept.
\<close>

section \<open>Chain parameters\<close>

datatype Base58Type = PUBKEY_ADDRESS | SCRIPT_ADDRESS | SECRET_KEY | EXT_PUBLIC_KEY | EXT_SECRET_KEY

record CChainParams =
  strNetworkID :: string
  Base58Prefix :: "Base58Type \<Rightarrow> bytes"

definition CMainParams :: CChainParams where
  "CMainParams = \<lparr>strNetworkID = ''main'',
     Base58Prefix = (\<lambda>t. case t of PUBKEY_ADDRESS \<Rightarrow> [68] | SCRIPT_ADDRESS \<Rightarrow> [63] | SECRET_KEY \<Rightarrow> [128]
       | EXT_PUBLIC_KEY \<Rightarrow> [0x04, 0x88, 0xB2, 0x1E] | EXT_SECRET_KEY \<Rightarrow> [0x04, 0x88, 0xAD, 0xE4])\<rparr>"

definition CTestNetParams :: CChainParams where
  "CTestNetParams = \<lparr>strNetworkID = ''test'',
     Base58Prefix = (\<lambda>t. case t of PUBKEY_ADDRESS \<Rightarrow> [130] | SCRIPT_ADDRESS \<Rightarrow> [125] | SECRET_KEY \<Rightarrow> [0xef]
       | EXT_PUBLIC_KEY \<Rightarrow> [0x04, 0x35, 0x87, 0xCF] | EXT_SECRET_KEY \<Rightarrow> [0x04, 0x35, 0x83, 0x94])\<rparr>"

text \<open>\<open>Inl\<close> is the exception for an unknown chain.\<close>

definition Params_of :: "string \<Rightarrow> string + CChainParams" where
  "Params_of chain =
     (if chain = ''main'' then Inr CMainParams
      else if chain = ''test'' then Inr CTestNetParams
      else Inl (''Params: Unknown chain '' @ chain @ ''.''))"

definition Params :: "CChainParams option \<Rightarrow> CChainParams option" where
  "Params g = g"

record CBaseChainParams =
  nRPCPort :: int
  strDataDir :: string

definition BaseParams_of :: "string \<Rightarrow> string + CBaseChainParams" where
  "BaseParams_of chain =
     (if chain = ''main'' then Inr \<lparr>nRPCPort = 8332, strDataDir = []\<rparr>
      else if chain = ''test'' then Inr \<lparr>nRPCPort = 19889, strDataDir = ''testnet3''\<rparr>
      else Inl (''BaseParams: Unknown chain '' @ chain @ ''.''))"

text \<open>The two pointers after the selection; an exception leaves them as they were.\<close>

definition SelectParams :: "string \<Rightarrow> string + CBaseChainParams \<times> CChainParams" where
  "SelectParams network =
     (case BaseParams_of network of Inl e \<Rightarrow> Inl e
      | Inr b \<Rightarrow> (case Params_of network of Inl e \<Rightarrow> Inl e | Inr p \<Rightarrow> Inr (b, p)))"

definition ChainNameFromCommandLine :: string where
  "ChainNameFromCommandLine = ''main''"

section \<open>Base58 data with a version\<close>

record CBase58Data =
  vchVersion :: bytes
  vchData :: bytes

definition CBase58Data_default :: CBase58Data where
  "CBase58Data_default = \<lparr>vchVersion = [], vchData = []\<rparr>"

definition CBase58Data_SetData :: "bytes \<Rightarrow> bytes \<Rightarrow> CBase58Data" where
  "CBase58Data_SetData vchVersionIn pdata = \<lparr>vchVersion = vchVersionIn, vchData = pdata\<rparr>"

definition CBase58Data_SetString :: "bytes \<Rightarrow> string \<Rightarrow> nat \<Rightarrow> (bool \<times> CBase58Data) option" where
  "CBase58Data_SetString junk psz nVersionBytes = do {
     (rc58, vchTemp) \<leftarrow> DecodeBase58Check junk psz;
     if \<not> rc58 \<or> length vchTemp < nVersionBytes then Some (False, \<lparr>vchVersion = [], vchData = []\<rparr>)
     else Some (True, \<lparr>vchVersion = take nVersionBytes vchTemp, vchData = drop nVersionBytes vchTemp\<rparr>)
   }"

definition CBase58Data_ToString :: "bytes \<Rightarrow> CBase58Data \<Rightarrow> string option" where
  "CBase58Data_ToString junk d = EncodeBase58Check junk (vchVersion d @ vchData d)"

definition CBase58Data_CompareTo :: "CBase58Data \<Rightarrow> CBase58Data \<Rightarrow> int" where
  "CBase58Data_CompareTo a b =
     (if lex_less (vchVersion a) (vchVersion b) then - 1
      else if lex_less (vchVersion b) (vchVersion a) then 1
      else if lex_less (vchData a) (vchData b) then - 1
      else if lex_less (vchData b) (vchData a) then 1
      else 0)"

section \<open>Addresses\<close>

fun CBitcoinAddress_Set :: "CChainParams option \<Rightarrow> CTxDestination \<Rightarrow> CBase58Data \<Rightarrow> (bool \<times> CBase58Data) option" where
  "CBitcoinAddress_Set g CNoDestination addr = Some (False, addr)"
| "CBitcoinAddress_Set g (CKeyID keyID) addr = do { p \<leftarrow> Params g; Some (True, CBase58Data_SetData (Base58Prefix p PUBKEY_ADDRESS) keyID) }"
| "CBitcoinAddress_Set g (CScriptID scriptID) addr = do { p \<leftarrow> Params g; Some (True, CBase58Data_SetData (Base58Prefix p SCRIPT_ADDRESS) scriptID) }"

definition CBitcoinAddress_IsValid :: "CChainParams \<Rightarrow> CBase58Data \<Rightarrow> bool" where
  "CBitcoinAddress_IsValid params addr =
     (let fCorrectSize = (length (vchData addr) = 20);
          fKnownVersion = (vchVersion addr = Base58Prefix params PUBKEY_ADDRESS \<or> vchVersion addr = Base58Prefix params SCRIPT_ADDRESS)
      in fCorrectSize \<and> fKnownVersion)"

definition CBitcoinAddress_Get :: "CChainParams option \<Rightarrow> CBase58Data \<Rightarrow> CTxDestination option" where
  "CBitcoinAddress_Get g addr = do {
     p \<leftarrow> Params g;
     Some (if \<not> CBitcoinAddress_IsValid p addr then CNoDestination
       else let id = take 20 (vchData addr) in
         if vchVersion addr = Base58Prefix p PUBKEY_ADDRESS then CKeyID id
         else if vchVersion addr = Base58Prefix p SCRIPT_ADDRESS then CScriptID id
         else CNoDestination)
   }"

text \<open>\<open>Inl ()\<close> is the return value false.\<close>

definition CBitcoinAddress_GetKeyID :: "CChainParams option \<Rightarrow> CBase58Data \<Rightarrow> (unit + bytes) option" where
  "CBitcoinAddress_GetKeyID g addr = do {
     p \<leftarrow> Params g;
     Some (if \<not> CBitcoinAddress_IsValid p addr \<or> vchVersion addr \<noteq> Base58Prefix p PUBKEY_ADDRESS then Inl ()
       else Inr (take 20 (vchData addr)))
   }"

definition CBitcoinAddress_IsScript :: "CChainParams option \<Rightarrow> CBase58Data \<Rightarrow> bool option" where
  "CBitcoinAddress_IsScript g addr = do {
     p \<leftarrow> Params g;
     Some (CBitcoinAddress_IsValid p addr \<and> vchVersion addr = Base58Prefix p SCRIPT_ADDRESS)
   }"

section \<open>Secret keys\<close>

definition CBitcoinSecret_SetKey :: "CChainParams option \<Rightarrow> CKey \<Rightarrow> CBase58Data option" where
  "CBitcoinSecret_SetKey g vchSecret =
     (if \<not> fValid vchSecret then None
      else do {
        p \<leftarrow> Params g;
        let d = CBase58Data_SetData (Base58Prefix p SECRET_KEY) (take (CKey_size vchSecret) (key_vch vchSecret));
        Some (if fCompressed vchSecret then d\<lparr>vchData := vchData d @ [1]\<rparr> else d)
      })"

definition CBitcoinSecret_GetKey :: "('k, 's, 'r) secp256k1_sign \<Rightarrow> bytes \<Rightarrow> CBase58Data \<Rightarrow> CKey option" where
  "CBitcoinSecret_GetKey ctx junkk d =
     (if length (vchData d) < 32 then None
      else Some (CKey_Set ctx (CKey_default junkk) (take 32 (vchData d)) (length (vchData d) > 32 \<and> vchData d ! 32 = 1)))"

definition CBitcoinSecret_IsValid :: "CChainParams option \<Rightarrow> CBase58Data \<Rightarrow> bool option" where
  "CBitcoinSecret_IsValid g d =
     (let fExpectedFormat = (length (vchData d) = 32 \<or> (length (vchData d) = 33 \<and> vchData d ! 32 = 1)) in do {
        p \<leftarrow> Params g;
        let fCorrectVersion = (vchVersion d = Base58Prefix p SECRET_KEY);
        Some (fExpectedFormat \<and> fCorrectVersion)
      })"

definition CBitcoinSecret_SetString :: "bytes \<Rightarrow> CChainParams option \<Rightarrow> string \<Rightarrow> (bool \<times> CBase58Data) option" where
  "CBitcoinSecret_SetString junk g pszSecret = do {
     (ok, d) \<leftarrow> CBase58Data_SetString junk pszSecret 1;
     if \<not> ok then Some (False, d)
     else do { valid \<leftarrow> CBitcoinSecret_IsValid g d; Some (valid, d) }
   }"

text \<open>\<^verbatim>\<open>CPubKey::toBase58\<close>: the bytes after the header; an empty range has no byte to skip.\<close>

definition toBase58 :: "CPubKey \<Rightarrow> string option" where
  "toBase58 k = (if CPubKey_data k = [] then None else EncodeBase58 (tl (CPubKey_data k)))"

section \<open>Round trips\<close>

lemma SetString_ToString:
  assumes "length junk = 64"
  shows "\<exists>str. CBase58Data_ToString junk d = Some str \<and> CBase58Data_SetString junk str (length (vchVersion d)) = Some (True, d)"
  using DecodeBase58Check_EncodeBase58Check [OF assms, of "vchVersion d @ vchData d"]
  by (auto simp: CBase58Data_ToString_def CBase58Data_SetString_def)

lemma CompareTo_zero: "CBase58Data_CompareTo a b = 0 \<longleftrightarrow> a = b"
  using lex_less_total [of "vchVersion a" "vchVersion b"] lex_less_total [of "vchData a" "vchData b"] lex_less_irrefl
  by (auto simp: CBase58Data_CompareTo_def split: if_splits)

text \<open>A secret key in text is read back with its compression flag, on the same chain.\<close>

lemma secret_roundtrip:
  assumes "length junk = 64" "length (Base58Prefix p SECRET_KEY) = 1" "fValid k" "length (key_vch k) = 32" "ec_seckey_verify ctx (key_vch k)"
  shows "\<exists>d str. CBitcoinSecret_SetKey (Some p) k = Some d \<and> CBase58Data_ToString junk d = Some str \<and>
    CBitcoinSecret_SetString junk (Some p) str = Some (True, d) \<and> CBitcoinSecret_GetKey ctx junkk d = Some k"
proof -
  define d where "d = \<lparr>vchVersion = Base58Prefix p SECRET_KEY, vchData = key_vch k @ (if fCompressed k then [1] else [])\<rparr>"
  have set: "CBitcoinSecret_SetKey (Some p) k = Some d"
    using assms(3,4) by (simp add: CBitcoinSecret_SetKey_def Params_def CBase58Data_SetData_def CKey_size_def d_def)
  obtain str where str: "CBase58Data_ToString junk d = Some str" "CBase58Data_SetString junk str 1 = Some (True, d)"
    using SetString_ToString [OF assms(1), of d] assms(2) by (auto simp: d_def)
  have "CBitcoinSecret_IsValid (Some p) d = Some True"
    using assms(4) by (simp add: CBitcoinSecret_IsValid_def Params_def d_def nth_append)
  moreover have "CBitcoinSecret_GetKey ctx junkk d = Some k"
    using assms(3-5) by (auto simp: CBitcoinSecret_GetKey_def d_def CKey_Set_def CKey_Check_def CKey_default_def nth_append)
  ultimately show ?thesis using set str by (auto simp: CBitcoinSecret_SetString_def)
qed

section \<open>Properties\<close>

text \<open>C20. Addresses are faithful: on either chain the address of a key hash or a script hash, written as text and read back, is the
  same address, is valid on that chain and not on the other, and gives the destination again; the script
  for the destination gives it too.\<close>

theorem address_roundtrip:
  assumes "length junk = 64" "length h = 20" "dest \<in> {CKeyID h, CScriptID h}"
    and "(params, other) \<in> {(CMainParams, CTestNetParams), (CTestNetParams, CMainParams)}"
  shows "\<exists>addr str. CBitcoinAddress_Set (Some params) dest CBase58Data_default = Some (True, addr) \<and>
    CBase58Data_ToString junk addr = Some str \<and> CBase58Data_SetString junk str 1 = Some (True, addr) \<and>
    CBitcoinAddress_IsValid params addr \<and> \<not> CBitcoinAddress_IsValid other addr \<and>
    CBitcoinAddress_Get (Some params) addr = Some dest \<and>
    ExtractDestination junkk junk junkr (GetScriptForDestination dest) = Some (Inr dest)"
proof -
  have v: "length (Base58Prefix params t) = 1 \<and> Base58Prefix params t \<noteq> Base58Prefix other PUBKEY_ADDRESS \<and>
      Base58Prefix params t \<noteq> Base58Prefix other SCRIPT_ADDRESS" if "t \<in> {PUBKEY_ADDRESS, SCRIPT_ADDRESS}" for t
    using assms(4) that by (auto simp: CMainParams_def CTestNetParams_def)
  have ne: "Base58Prefix params SCRIPT_ADDRESS \<noteq> Base58Prefix params PUBKEY_ADDRESS"
    using assms(4) by (auto simp: CMainParams_def CTestNetParams_def)
  define t where "t = (if dest = CKeyID h then PUBKEY_ADDRESS else SCRIPT_ADDRESS)"
  define addr where "addr = \<lparr>vchVersion = Base58Prefix params t, vchData = h\<rparr>"
  have t: "t \<in> {PUBKEY_ADDRESS, SCRIPT_ADDRESS}" by (simp add: t_def)
  obtain str where str: "CBase58Data_ToString junk addr = Some str" "CBase58Data_SetString junk str 1 = Some (True, addr)"
    using SetString_ToString [OF assms(1), of addr] v [OF t] by (auto simp: addr_def)
  have "CBitcoinAddress_Set (Some params) dest CBase58Data_default = Some (True, addr)"
    using assms(3) by (auto simp: Params_def CBase58Data_SetData_def addr_def t_def)
  moreover have "CBitcoinAddress_IsValid params addr" "\<not> CBitcoinAddress_IsValid other addr"
    using assms(2) t v [OF t] by (auto simp: CBitcoinAddress_IsValid_def addr_def)
  moreover have "CBitcoinAddress_Get (Some params) addr = Some dest"
    using calculation(2) assms(2,3) ne by (auto simp: CBitcoinAddress_Get_def Params_def addr_def t_def)
  moreover have "ExtractDestination junkk junk junkr (GetScriptForDestination dest) = Some (Inr dest)"
    using assms(2,3) by (intro ExtractDestination_script) auto
  ultimately show ?thesis using str by blast
qed

theorem address_roundtrip_witness:
  "\<exists>addr str. CBitcoinAddress_Set (Some CMainParams) (CScriptID (replicate 20 7)) CBase58Data_default = Some (True, addr) \<and>
    CBase58Data_ToString (replicate 64 0) addr = Some str \<and> CBase58Data_SetString (replicate 64 0) str 1 = Some (True, addr) \<and>
    CBitcoinAddress_Get (Some CMainParams) addr = Some (CScriptID (replicate 20 7))"
proof -
  have "length (replicate 64 0 :: bytes) = 64" "length (replicate 20 7 :: bytes) = 20" by simp_all
  from address_roundtrip [OF this, of "CScriptID (replicate 20 7)" CMainParams CTestNetParams "[]" "[]"] show ?thesis by blast
qed

end
