(* ===== verification/Spec2Isabelle.thy ===== *)
theory Spec2Isabelle
  imports Wallet_Prelude Loop_Buf Arith_Uint256 Script Hash Serialize Transaction Key Interpreter Str_Encodings Parse_Numbers Verify_Script Base58 Standard Address
begin

text \<open>
  Verification of the wallet library and the shared memory queue of utsuite.

  \<^bold>\<open>The program.\<close> utsuite is a set of C++ services around an Ulord wallet. \<^verbatim>\<open>src/libwallet\<close> is the wallet library:
  byte order helpers, hash functions, big integers, the wire format, transactions, scripts, keys and
  text encodings. \<^verbatim>\<open>src/libqtutils/loopbuf.cpp\<close> is a packet queue in shared memory that the services use
  to pass messages. The services call the library; inside it, keys and transactions hash and serialize, the
  script machine evaluates the scripts of transactions and calls the keys to check signatures.

  \<^bold>\<open>How it is modelled.\<close> A function of the source is a HOL function with the same name, with the class
  in front where the name alone would be ambiguous (\<open>CPubKey_Derive\<close> is \<^verbatim>\<open>CPubKey::Derive\<close>). A class is a
  record, an object that a method changes is an argument and a result. \<^verbatim>\<open>unsigned char\<close>, \<^verbatim>\<open>uint32_t\<close> and \<^verbatim>\<open>uint64_t\<close> are words;
  a signed integer is an \<open>int\<close> whose overflow is a fault. \<open>None\<close> is a fault: a failing assertion, an
  access out of bounds or another undefined behaviour. \<open>Inl\<close> is an exception, an error code or a failing
  return. A buffer that the source leaves uninitialised is an argument (\<open>junk\<close>), and the theorems hold for each of its values.
  A pointer into a buffer that only moves forward is the part of the buffer that is left. Third-party code is a record
  of functions (\<open>secp256k1\<close>, \<open>secp256k1_sign\<close>), the random source is a sequence of draws.

  \<^bold>\<open>Theories.\<close>
  \<^item> \<open>Wallet_Prelude\<close>: machine types, positional readings of word lists, \<^verbatim>\<open>memcpy\<close> with bounds, the byte order
    helpers of \<^verbatim>\<open>crypto/common.h\<close>, the error monad \<open>ebind\<close> and its no-fault judgement \<open>eok\<close>.
  \<^item> \<open>Loop_Buf\<close>: \<^verbatim>\<open>CLoopBuf\<close> of \<^verbatim>\<open>loopbuf.cpp\<close>. The queue implements a first in, first out list of packets (locale
    \<open>packet_queue\<close>) and keeps its invariant.
  \<^item> \<open>Arith_Uint256\<close>: \<^verbatim>\<open>arith_uint256.cpp\<close>. The digit loops compute the operations modulo \<open>2 ^ 256\<close>, and the compact
    form is exact up to its mantissa.
  \<^item> \<open>Block_Hash\<close>, \<open>Fips_Constants\<close>, \<open>Sha2\<close>, \<open>Sha1\<close>, \<open>Ripemd160\<close>, \<open>Hash\<close>: \<^verbatim>\<open>crypto/\<close> and \<^verbatim>\<open>hash.cpp\<close>. The unrolled compression
    functions are those of the standards, the constants are the roots that FIPS 180-4 names, and the buffered objects hash the concatenation of what
    they are given (locales \<open>block_hasher\<close>, \<open>stream_digest\<close>).
  \<^item> \<open>Serialize\<close>, \<open>Transaction\<close>: \<^verbatim>\<open>serialize.h\<close>, \<^verbatim>\<open>amount.cpp\<close>, \<^verbatim>\<open>primitives/transaction.cpp\<close>. Reading inverts writing and accepts only
    canonical encodings (locale \<open>serializable\<close>); value sums stay in the money range; the sorting comparators are strict orders.
  \<^item> \<open>Script\<close>: \<^verbatim>\<open>script/script.cpp\<close>. Script numbers, pushes, instruction reading, \<^verbatim>\<open>FindAndDelete\<close>, signature operation counts.
  \<^item> \<open>Pubkey\<close>, \<open>Key\<close>: \<^verbatim>\<open>pubkey.cpp\<close>, \<^verbatim>\<open>key.cpp\<close>. The DER parsers are total, key encodings are read back,
    private and public derivation commute.
  \<^item> \<open>Sig_Encoding\<close>, \<open>Interpreter\<close>, \<open>Verify_Script\<close>: \<^verbatim>\<open>script/interpreter.cpp\<close>. Signature encodings; the script machine as a step
    relation \<open>script_step\<close> with its limits as an invariant of the reachable states; signature hashes, the transaction signature checker and \<^verbatim>\<open>VerifyScript\<close>.
  \<^item> \<open>Str_Encodings\<close>, \<open>Parse_Numbers\<close>: \<^verbatim>\<open>utilstrencodings.cpp\<close>, \<^verbatim>\<open>uint256.cpp\<close>, \<^verbatim>\<open>utilmoneystr.cpp\<close>. Decoding inverts encoding
    for hexadecimal, base64 and base32 (locale \<open>digit_codec\<close>) and for decimal numbers and amounts.
  \<^item> \<open>Base58\<close>: \<^verbatim>\<open>base58.cpp\<close>. The carry loops never overflow their buffers and decoding inverts encoding, checksum included.
  \<^item> \<open>Standard\<close>: \<^verbatim>\<open>script/standard.cpp\<close>. The solver recognises exactly the standard scripts, and a pay-to-public-key-hash output
    is spent exactly by the key with that hash and a signature that the checker accepts.
  \<^item> \<open>Address\<close>: the classes of \<^verbatim>\<open>base58.cpp\<close> with \<^verbatim>\<open>chainparams.cpp\<close>. Addresses and secret keys are restored from their text, and the
    two chains do not accept each other's addresses.

  \<^bold>\<open>Bounds.\<close> Every loop of the model is structural or has a termination proof, except the rejection sampling
  of \<^verbatim>\<open>CKey::MakeNewKey\<close>, a partial function for which it is proved that it returns at the first valid draw. No fuel is used.

  \<^bold>\<open>Not modelled.\<close> Vendored libraries (secp256k1, libsodium, LevelDB, the ciphers of \<^verbatim>\<open>src/hello\<close>) and what only drives
  them (Equihash, the proof of work); the Berkeley DB and MySQL adapters, threads, locks, files, sockets,
  configuration and logging, whose behaviour is that of the operating system or of libraries that are not in the
  repository; floating point (\<^verbatim>\<open>ComputePriority\<close>, \<^verbatim>\<open>ParseDouble\<close>); formatted output for people (\<^verbatim>\<open>ToString\<close>, \<^verbatim>\<open>FormatParagraph\<close>).
  The result of \<^verbatim>\<open>EvalScript\<close> on failure is the error code without the stack, which no caller reads.
\<close>

end
